(* ===== verification/Prelude.thy ===== *)
theory Prelude
  imports Main "HOL-Library.Char_ord" "HOL-Library.List_Lexorder" "HOL-Library.Sublist"
begin

text \<open>
  Shared vocabulary of the ModelPort development: the parts of Rust and its standard
  library that the sources use throughout, and the generic lemmas and interfaces the
  component theories share.

  \<^item> \<open>Result<T, E>\<close> is \<open>'e + 'a\<close> (\<open>Inl\<close> the error); the \<open>?\<close> operator is \<open>and_then\<close>.
  \<^item> Unsigned machine integers are \<open>nat\<close> with the width written out where it is observable:
    \<open>sat_add\<close>, \<open>sat_mul\<close> saturate at \<open>u64_max\<close>, and \<open>saturating_sub\<close> is the truncated \<open>-\<close>
    of \<open>nat\<close>.
  \<^item> \<open>String\<close> and \<open>&str\<close> are \<open>string\<close>, read as the UTF-8 bytes of the value: \<open>length\<close> is
    Rust's \<open>len()\<close>.  \<open>trim\<close> removes the encodings of the Unicode \<open>White_Space\<close> characters.
  \<^item> \<open>BTreeMap<K, V>\<close> is a key-sorted association list; iteration is list order.  The map
    contract is the locale \<open>map_adt\<close>, interpreted for these lists.
  \<^item> \<open>reach\<close> and the locale \<open>inductive_invariant\<close> carry every safety proof over a step relation.
\<close>

named_theorems rust_simps \<open>unfolding rules for the modelled standard library\<close>

section \<open>Results\<close>

definition and_then :: "'e + 'a \<Rightarrow> ('a \<Rightarrow> 'e + 'b) \<Rightarrow> 'e + 'b" where
  "and_then m f = (case m of Inl e \<Rightarrow> Inl e | Inr x \<Rightarrow> f x)"

definition ok_or :: "'e \<Rightarrow> 'a option \<Rightarrow> 'e + 'a" where
  "ok_or e m = (case m of None \<Rightarrow> Inl e | Some x \<Rightarrow> Inr x)"

definition ensure :: "bool \<Rightarrow> 'e \<Rightarrow> 'e + unit" where
  "ensure b e = (if b then Inr () else Inl e)"

fun is_ok :: "'e + 'a \<Rightarrow> bool" where
  "is_ok (Inl e) = False"
| "is_ok (Inr x) = True"

lemma and_then_simps [simp]:
  "and_then (Inl e) f = Inl e"
  "and_then (Inr x) f = f x"
  by (simp_all add: and_then_def)

lemma and_then_Inr_iff: "and_then m f = Inr y \<longleftrightarrow> (\<exists>x. m = Inr x \<and> f x = Inr y)"
  by (cases m) auto

lemma and_then_Inl_iff:
  "and_then m f = Inl e \<longleftrightarrow> m = Inl e \<or> (\<exists>x. m = Inr x \<and> f x = Inl e)"
  by (cases m) auto

lemma ok_or_simps [simp]:
  "ok_or e None = Inl e"
  "ok_or e (Some x) = Inr x"
  by (simp_all add: ok_or_def)

lemma ok_or_Inr_iff: "ok_or e m = Inr x \<longleftrightarrow> m = Some x"
  by (cases m) auto

lemma ensure_Inr_iff [simp]: "ensure b e = Inr u \<longleftrightarrow> b"
  by (simp add: ensure_def)

lemma ensure_Inl_iff [simp]: "ensure b e = Inl e' \<longleftrightarrow> \<not> b \<and> e' = e"
  by (auto simp add: ensure_def)

lemma is_ok_iff: "is_ok m \<longleftrightarrow> (\<exists>x. m = Inr x)"
  by (cases m) auto

lemmas result_iffs = and_then_Inr_iff ok_or_Inr_iff is_ok_iff

section \<open>Unsigned integers\<close>

type_synonym u64 = nat
type_synonym u32 = nat

definition u64_max :: nat where "u64_max = 18446744073709551615"
definition u32_max :: nat where "u32_max = 4294967295"

definition sat_add :: "u64 \<Rightarrow> u64 \<Rightarrow> u64" where
  "sat_add a b = min (a + b) u64_max"

definition sat_mul :: "u64 \<Rightarrow> u64 \<Rightarrow> u64" where
  "sat_mul a b = min (a * b) u64_max"

definition sat_add32 :: "u32 \<Rightarrow> u32 \<Rightarrow> u32" where
  "sat_add32 a b = min (a + b) u32_max"

lemma sat_add_le_max: "sat_add a b \<le> u64_max"
  by (simp add: sat_add_def)

lemma sat_add_exact: "a + b \<le> u64_max \<Longrightarrow> sat_add a b = a + b"
  by (simp add: sat_add_def)

lemma sat_mul_exact: "a * b \<le> u64_max \<Longrightarrow> sat_mul a b = a * b"
  by (simp add: sat_mul_def)

lemma sat_add_ge_left: "a \<le> u64_max \<Longrightarrow> a \<le> sat_add a b"
  by (simp add: sat_add_def)

lemma sat_add_mono: "a \<le> a' \<Longrightarrow> b \<le> b' \<Longrightarrow> sat_add a b \<le> sat_add a' b'"
  by (simp add: sat_add_def min.coboundedI1)

lemma nat_div_bracket:
  fixes x k q :: nat
  assumes "0 < k"
  shows "x div k = q \<longleftrightarrow> k * q \<le> x \<and> x < k * q + k"
  using assms by (auto simp: div_nat_eqI mult.commute dividend_less_times_div add.commute)

section \<open>Strings as UTF-8 bytes\<close>

definition in_range :: "nat \<Rightarrow> nat \<Rightarrow> char \<Rightarrow> bool" where
  "in_range lo hi c \<longleftrightarrow> lo \<le> (of_char c :: nat) \<and> (of_char c :: nat) \<le> hi"

definition is_digit :: "char \<Rightarrow> bool" where "is_digit = in_range 48 57"
definition is_upper :: "char \<Rightarrow> bool" where "is_upper = in_range 65 90"
definition is_lower :: "char \<Rightarrow> bool" where "is_lower = in_range 97 122"
definition is_alpha :: "char \<Rightarrow> bool" where "is_alpha c \<longleftrightarrow> is_upper c \<or> is_lower c"
definition is_alnum :: "char \<Rightarrow> bool" where "is_alnum c \<longleftrightarrow> is_alpha c \<or> is_digit c"
definition is_ascii_char :: "char \<Rightarrow> bool" where "is_ascii_char = in_range 0 127"

text \<open>A byte that continues a UTF-8 character; \<open>chars().count()\<close>.\<close>

definition is_continuation :: "char \<Rightarrow> bool" where "is_continuation = in_range 128 191"

definition char_count :: "string \<Rightarrow> nat" where
  "char_count s = length (filter (\<lambda>c. \<not> is_continuation c) s)"

text \<open>\<open>chars().take(n)\<close>: the bytes up to the end of the \<open>n\<close>-th character.\<close>

function take_chars :: "nat \<Rightarrow> string \<Rightarrow> string" where
  "take_chars n s =
     (case (n, s) of
        (Suc m, c # r) \<Rightarrow> c # takeWhile is_continuation r @ take_chars m (dropWhile is_continuation r)
      | _ \<Rightarrow> [])"
  by pat_completeness auto
termination by (relation "measure fst") auto

declare take_chars.simps [simp del]

lemmas char_class_defs =
  in_range_def is_digit_def is_upper_def is_lower_def is_alpha_def is_alnum_def
  is_ascii_char_def

definition lower_char :: "char \<Rightarrow> char" where
  "lower_char c = (if is_upper c then char_of ((of_char c :: nat) + 32) else c)"

definition to_ascii_lowercase :: "string \<Rightarrow> string" where
  "to_ascii_lowercase = map lower_char"

definition eq_ignore_ascii_case :: "string \<Rightarrow> string \<Rightarrow> bool" where
  "eq_ignore_ascii_case a b \<longleftrightarrow> to_ascii_lowercase a = to_ascii_lowercase b"

lemma is_upper_lower_char: "\<not> is_upper (lower_char c)"
proof (cases "is_upper c")
  case True
  then have "65 \<le> (of_char c :: nat)" "(of_char c :: nat) \<le> 90"
    by (auto simp: char_class_defs)
  then have "(of_char (lower_char c) :: nat) = of_char c + 32"
    using True by (simp add: lower_char_def)
  with \<open>65 \<le> (of_char c :: nat)\<close> show ?thesis
    by (simp add: char_class_defs)
next
  case False
  then show ?thesis by (simp add: lower_char_def)
qed

lemma lower_char_idem [simp]: "lower_char (lower_char c) = lower_char c"
  using is_upper_lower_char [of c] by (simp add: lower_char_def [of "lower_char c"])

lemma to_ascii_lowercase_idem [simp]:
  "to_ascii_lowercase (to_ascii_lowercase s) = to_ascii_lowercase s"
  by (simp add: to_ascii_lowercase_def)

lemma length_to_ascii_lowercase [simp]: "length (to_ascii_lowercase s) = length s"
  by (simp add: to_ascii_lowercase_def)

definition starts_with :: "string \<Rightarrow> string \<Rightarrow> bool" where
  "starts_with p s \<longleftrightarrow> take (length p) s = p"

definition ends_with :: "string \<Rightarrow> string \<Rightarrow> bool" where
  "ends_with p s \<longleftrightarrow> starts_with (rev p) (rev s)"

definition strip_prefix :: "string \<Rightarrow> string \<Rightarrow> string option" where
  "strip_prefix p s = (if starts_with p s then Some (drop (length p) s) else None)"

definition strip_suffix :: "string \<Rightarrow> string \<Rightarrow> string option" where
  "strip_suffix p s = (if ends_with p s then Some (take (length s - length p) s) else None)"

fun contains :: "string \<Rightarrow> string \<Rightarrow> bool" where
  "contains m [] \<longleftrightarrow> m = []"
| "contains m (c # s) \<longleftrightarrow> starts_with m (c # s) \<or> contains m s"

lemma starts_with_iff_prefix: "starts_with p s \<longleftrightarrow> prefix p s"
  by (auto simp: starts_with_def prefix_def) (metis append_take_drop_id)

lemma ends_with_iff_suffix: "ends_with p s \<longleftrightarrow> suffix p s"
  by (simp add: ends_with_def starts_with_iff_prefix suffix_to_prefix)

lemma strip_suffix_Some_iff: "strip_suffix p s = Some t \<longleftrightarrow> s = t @ p"
  by (auto simp: strip_suffix_def ends_with_iff_suffix suffix_def)

lemma strip_prefix_Some_iff: "strip_prefix p s = Some t \<longleftrightarrow> s = p @ t"
  by (auto simp: strip_prefix_def starts_with_iff_prefix prefix_def)

lemma contains_iff_sublist: "contains m s \<longleftrightarrow> sublist m s"
  by (induction s) (auto simp: starts_with_iff_prefix sublist_Cons_right)

fun split_once :: "char \<Rightarrow> string \<Rightarrow> (string \<times> string) option" where
  "split_once d [] = None"
| "split_once d (c # s) =
     (if c = d then Some ([], s)
      else case split_once d s of None \<Rightarrow> None | Some (a, b) \<Rightarrow> Some (c # a, b))"

definition rsplit_once :: "char \<Rightarrow> string \<Rightarrow> (string \<times> string) option" where
  "rsplit_once d s =
     (case split_once d (rev s) of None \<Rightarrow> None | Some (a, b) \<Rightarrow> Some (rev b, rev a))"

lemma split_once_Some:
  "split_once d s = Some (a, b) \<Longrightarrow> s = a @ d # b \<and> d \<notin> set a"
  by (induction s arbitrary: a) (auto split: if_splits option.splits)

lemma split_once_append: "d \<notin> set a \<Longrightarrow> split_once d (a @ d # b) = Some (a, b)"
  by (induction a) auto

lemma split_once_None: "split_once d s = None \<longleftrightarrow> d \<notin> set s"
  by (induction s) (auto split: option.splits)

fun split_on :: "char \<Rightarrow> string \<Rightarrow> string list" where
  "split_on d [] = [[]]"
| "split_on d (c # s) =
     (if c = d then [] # split_on d s
      else case split_on d s of [] \<Rightarrow> [[c]] | p # ps \<Rightarrow> (c # p) # ps)"

subsection \<open>Trimming\<close>

definition whitespace_encodings :: "string list" where
  "whitespace_encodings =
     map (\<lambda>n. [char_of (n::nat)]) [9, 10, 11, 12, 13, 32]
     @ [[CHR 0xC2, CHR 0x85], [CHR 0xC2, CHR 0xA0], [CHR 0xE1, CHR 0x9A, CHR 0x80]]
     @ map (\<lambda>n. [CHR 0xE2, CHR 0x80, char_of (n::nat)])
         [0x80, 0x81, 0x82, 0x83, 0x84, 0x85, 0x86, 0x87, 0x88, 0x89, 0x8A, 0xA8, 0xA9, 0xAF]
     @ [[CHR 0xE2, CHR 0x81, CHR 0x9F], [CHR 0xE3, CHR 0x80, CHR 0x80]]"

lemma whitespace_encodings_nonempty: "w \<in> set whitespace_encodings \<Longrightarrow> w \<noteq> []"
  by (auto simp: whitespace_encodings_def)

function strip_leading :: "string list \<Rightarrow> string \<Rightarrow> string" where
  "strip_leading ws s =
     (case find (\<lambda>w. w \<noteq> [] \<and> starts_with w s) ws of
        None \<Rightarrow> s
      | Some w \<Rightarrow> strip_leading ws (drop (length w) s))"
  by pat_completeness auto
termination
  by (relation "measure (\<lambda>(ws, s). length s)")
    (auto simp: find_Some_iff starts_with_iff_prefix prefix_def)

declare strip_leading.simps [simp del]

definition trim_start :: "string \<Rightarrow> string" where
  "trim_start s = strip_leading whitespace_encodings s"

definition trim_end :: "string \<Rightarrow> string" where
  "trim_end s = rev (strip_leading (map rev whitespace_encodings) (rev s))"

definition trim :: "string \<Rightarrow> string" where
  "trim s = trim_end (trim_start s)"

lemma strip_leading_suffix: "suffix (strip_leading ws s) s"
proof (induction ws s rule: strip_leading.induct)
  case (1 ws s)
  show ?case
  proof (cases "find (\<lambda>w. w \<noteq> [] \<and> starts_with w s) ws")
    case None
    then show ?thesis by (simp add: strip_leading.simps [of ws s])
  next
    case (Some w)
    with 1 show ?thesis
      by (simp add: strip_leading.simps [of ws s]) (meson suffix_drop suffix_order.trans)
  qed
qed

lemma strip_leading_none:
  "\<forall>w \<in> set ws. w \<noteq> [] \<longrightarrow> \<not> prefix w (strip_leading ws s)"
proof (induction ws s rule: strip_leading.induct)
  case (1 ws s)
  show ?case
  proof (cases "find (\<lambda>w. w \<noteq> [] \<and> starts_with w s) ws")
    case None
    then have "strip_leading ws s = s" by (simp add: strip_leading.simps [of ws s])
    with None show ?thesis by (auto simp: find_None_iff starts_with_iff_prefix)
  next
    case (Some w)
    with 1 show ?thesis by (simp add: strip_leading.simps [of ws s])
  qed
qed

lemma strip_leading_fixpoint:
  "\<forall>w \<in> set ws. w \<noteq> [] \<longrightarrow> \<not> prefix w s \<Longrightarrow> strip_leading ws s = s"
  by (subst strip_leading.simps)
    (auto simp: find_Some_iff starts_with_iff_prefix split: option.splits)

lemma trim_end_prefix: "prefix (trim_end s) s"
  using strip_leading_suffix [of "map rev whitespace_encodings" "rev s"]
  by (simp add: trim_end_def suffix_to_prefix)

lemma trim_no_leading: "w \<in> set whitespace_encodings \<Longrightarrow> \<not> prefix w (trim s)"
proof
  assume w: "w \<in> set whitespace_encodings" and p: "prefix w (trim s)"
  have "prefix (trim s) (trim_start s)" by (simp add: trim_def trim_end_prefix)
  with p have "prefix w (trim_start s)" using prefix_order.trans by blast
  with strip_leading_none [of whitespace_encodings s] w whitespace_encodings_nonempty [OF w]
  show False by (simp add: trim_start_def)
qed

lemma trim_end_idem [simp]: "trim_end (trim_end s) = trim_end s"
  using strip_leading_none [of "map rev whitespace_encodings" "rev s"]
  by (simp add: trim_end_def strip_leading_fixpoint)

lemma trim_idem [simp]: "trim (trim s) = trim s"
proof -
  have "trim_start (trim s) = trim s"
    unfolding trim_start_def by (rule strip_leading_fixpoint) (blast dest: trim_no_leading)
  then show ?thesis by (simp add: trim_def [of "trim s"]) (simp add: trim_def)
qed

lemma length_trim: "length (trim s) \<le> length s"
proof -
  have "length (trim_start s) \<le> length s"
    by (simp add: trim_start_def suffix_length_le strip_leading_suffix)
  moreover have "length (trim s) \<le> length (trim_start s)"
    by (simp add: trim_def prefix_length_le trim_end_prefix)
  ultimately show ?thesis by simp
qed

lemma trim_ascii_id:
  "\<forall>w \<in> set whitespace_encodings. \<not> prefix w s \<and> \<not> suffix w s \<Longrightarrow> trim s = s"
  by (auto simp: trim_def trim_start_def trim_end_def strip_leading_fixpoint suffix_to_prefix)

definition graphic :: "char \<Rightarrow> bool" where "graphic = in_range 33 126"

lemma whitespace_not_graphic:
  "w \<in> set whitespace_encodings \<Longrightarrow> \<not> graphic (hd w) \<and> \<not> graphic (last w)"
  by (auto simp: whitespace_encodings_def graphic_def char_class_defs)

lemma trim_graphic [simp]:
  assumes "graphic (hd s)" "graphic (last s)"
  shows "trim s = s"
proof (rule trim_ascii_id, intro ballI conjI notI)
  fix w assume w: "w \<in> set whitespace_encodings"
  note ne = whitespace_encodings_nonempty [OF w]
  { assume "prefix w s"
    then have "hd w = hd s" using ne by (auto simp: prefix_def)
    with assms(1) whitespace_not_graphic [OF w] show False by simp }
  { assume "suffix w s"
    then have "last w = last s" using ne by (auto simp: suffix_def)
    with assms(2) whitespace_not_graphic [OF w] show False by simp }
qed

lemma graphic_literal: "graphic c \<longleftrightarrow> 33 \<le> (of_char c :: nat) \<and> (of_char c :: nat) \<le> 126"
  by (simp add: graphic_def in_range_def)

subsection \<open>Numbers in text\<close>

fun show_nat :: "nat \<Rightarrow> string" where
  "show_nat n = (if n < 10 then [char_of (48 + n)] else show_nat (n div 10) @ [char_of (48 + n mod 10)])"

declare show_nat.simps [simp del]

definition digit_val :: "char \<Rightarrow> nat" where
  "digit_val c = (of_char c :: nat) - 48"

definition digits_value :: "string \<Rightarrow> nat" where
  "digits_value s = foldl (\<lambda>acc c. acc * 10 + digit_val c) 0 s"

text \<open>\<open>str::parse\<close> for an unsigned type: an optional \<open>+\<close>, at least one digit, in range.\<close>

definition parse_uint :: "nat \<Rightarrow> string \<Rightarrow> nat option" where
  "parse_uint bound s =
     (let ds = (case s of [] \<Rightarrow> [] | c # r \<Rightarrow> if c = CHR ''+'' then r else s)
      in if ds \<noteq> [] \<and> list_all is_digit ds \<and> digits_value ds \<le> bound
         then Some (digits_value ds) else None)"

lemma parse_uint_bound: "parse_uint bound s = Some n \<Longrightarrow> n \<le> bound"
  by (auto simp: parse_uint_def Let_def split: if_splits)

lemma digits_value_append: "digits_value (s @ [c]) = digits_value s * 10 + digit_val c"
  by (simp add: digits_value_def)

lemma digit_char_facts:
  "d < 10 \<Longrightarrow> is_digit (char_of (48 + d)) \<and> digit_val (char_of (48 + d)) = d"
  by (simp add: char_class_defs digit_val_def)

lemma show_nat_digits: "list_all is_digit (show_nat n) \<and> show_nat n \<noteq> [] \<and> digits_value (show_nat n) = n"
proof (induction n rule: show_nat.induct)
  case (1 n)
  show ?case
  proof (cases "n < 10")
    case True
    then show ?thesis
      by (simp add: show_nat.simps [of n] digits_value_def digit_char_facts)
  next
    case False
    with 1 show ?thesis
      by (simp add: show_nat.simps [of n] digits_value_append digit_char_facts)
  qed
qed

lemma parse_show_nat: "n \<le> bound \<Longrightarrow> parse_uint bound (show_nat n) = Some n"
proof -
  assume n: "n \<le> bound"
  obtain c r where cr: "show_nat n = c # r"
    using show_nat_digits [of n] by (cases "show_nat n") auto
  then have "is_digit c" using show_nat_digits [of n] by simp
  then have "c \<noteq> CHR ''+''" by (auto simp: char_class_defs)
  then show ?thesis
    using show_nat_digits [of n] n by (simp add: parse_uint_def cr)
qed

subsection \<open>Characters\<close>

text \<open>A character is the list of its UTF-8 bytes; \<open>char::is_control\<close> looks at those of one or two bytes.\<close>

function chars :: "string \<Rightarrow> string list" where
  "chars s = (case s of [] \<Rightarrow> [] | c # r \<Rightarrow> (c # takeWhile is_continuation r) # chars (dropWhile is_continuation r))"
  by pat_completeness auto
termination
  by (relation "measure length") (auto intro: le_imp_less_Suc length_dropWhile_le)

declare chars.simps [simp del]

lemma chars_nil [simp]: "chars [] = []"
  by (simp add: chars.simps)

lemma chars_cons [simp]: "chars (c # r) = (c # takeWhile is_continuation r) # chars (dropWhile is_continuation r)"
  by (subst chars.simps) simp

lemma concat_chars [simp]: "concat (chars s) = s"
proof (induction s rule: chars.induct)
  case (1 s)
  then show ?case by (cases s) auto
qed

lemma chars_nonempty: "c \<in> set (chars s) \<Longrightarrow> c \<noteq> []"
proof (induction s rule: chars.induct)
  case (1 s)
  then show ?case by (cases s) auto
qed

fun has_control :: "string \<Rightarrow> bool" where
  "has_control [] = False"
| "has_control (c # s) =
     (in_range 0 31 c \<or> in_range 127 127 c
      \<or> (in_range 194 194 c \<and> (case s of d # _ \<Rightarrow> in_range 128 159 d | [] \<Rightarrow> False))
      \<or> has_control s)"

subsection \<open>Bytes in hexadecimal\<close>

definition hex_digit :: "nat \<Rightarrow> char" where
  "hex_digit n = (if n < 10 then char_of (48 + n) else char_of (87 + n))"

definition hex_bytes :: "string \<Rightarrow> string" where
  "hex_bytes bytes = concat (map (\<lambda>byte. [hex_digit (of_char byte div 16), hex_digit (of_char byte mod 16)]) bytes)"

section \<open>Options and iterators\<close>

text \<open>\<open>Option::transpose\<close> after \<open>map\<close>; \<open>find_map\<close>; \<open>min_by_key\<close>, the first of equal minima.\<close>

definition transpose :: "('a \<Rightarrow> 'e + 'b) \<Rightarrow> 'a option \<Rightarrow> 'e + 'b option" where
  "transpose f m = (case m of None \<Rightarrow> Inr None | Some x \<Rightarrow> and_then (f x) (\<lambda>y. Inr (Some y)))"

fun find_map :: "('a \<Rightarrow> 'b option) \<Rightarrow> 'a list \<Rightarrow> 'b option" where
  "find_map f [] = None"
| "find_map f (x # xs) = (case f x of Some y \<Rightarrow> Some y | None \<Rightarrow> find_map f xs)"

fun min_by_key :: "('a \<Rightarrow> 'k::linorder) \<Rightarrow> 'a list \<Rightarrow> 'a option" where
  "min_by_key f [] = None"
| "min_by_key f (x # xs) =
     (case min_by_key f xs of None \<Rightarrow> Some x | Some y \<Rightarrow> if f y < f x then Some y else Some x)"

lemma min_by_key_mem: "min_by_key f xs = Some x \<Longrightarrow> x \<in> set xs"
  by (induction xs arbitrary: x) (auto split: option.splits if_splits)

section \<open>Request headers\<close>

text \<open>
  Headers are the list of their lines, names in lower case; \<open>get\<close> finds the first line of a name, and
  its text is there when all of it is visible ASCII.
\<close>

type_synonym header_lines = "(string \<times> string) list"

definition header_text :: "header_lines \<Rightarrow> string \<Rightarrow> string option" where
  "header_text headers name =
     Option.bind (map_of headers name) (\<lambda>v. if list_all (\<lambda>c. in_range 32 126 c \<or> c = CHR 0x09) v then Some v else None)"

section \<open>Ordered maps\<close>

type_synonym ('k, 'v) btree = "('k \<times> 'v) list"

fun bt_insert :: "'k::linorder \<Rightarrow> 'v \<Rightarrow> ('k, 'v) btree \<Rightarrow> ('k, 'v) btree" where
  "bt_insert k v [] = [(k, v)]"
| "bt_insert k v ((k', v') # m) =
     (if k < k' then (k, v) # (k', v') # m
      else if k = k' then (k, v) # m
      else (k', v') # bt_insert k v m)"

definition bt_get :: "('k, 'v) btree \<Rightarrow> 'k \<Rightarrow> 'v option" where
  "bt_get m k = map_of m k"

definition bt_retain :: "('k \<Rightarrow> 'v \<Rightarrow> bool) \<Rightarrow> ('k, 'v) btree \<Rightarrow> ('k, 'v) btree" where
  "bt_retain P m = filter (\<lambda>(k, v). P k v) m"

definition bt_remove :: "'k \<Rightarrow> ('k, 'v) btree \<Rightarrow> ('k, 'v) btree" where
  "bt_remove k m = bt_retain (\<lambda>k' _. k' \<noteq> k) m"

definition bt_map_values :: "('v \<Rightarrow> 'v) \<Rightarrow> ('k, 'v) btree \<Rightarrow> ('k, 'v) btree" where
  "bt_map_values f m = map (\<lambda>(k, v). (k, f v)) m"

definition bt_values :: "('k, 'v) btree \<Rightarrow> 'v list" where
  "bt_values m = map snd m"

definition bt_keys :: "('k, 'v) btree \<Rightarrow> 'k list" where
  "bt_keys m = map fst m"

definition bt_wf :: "('k::linorder, 'v) btree \<Rightarrow> bool" where
  "bt_wf m \<longleftrightarrow> sorted_wrt (<) (map fst m)"

text \<open>\<open>entry(k).and_modify(f)\<close> on a present key, as the sources write with \<open>get_mut\<close>.\<close>

definition bt_update :: "'k::linorder \<Rightarrow> ('v \<Rightarrow> 'v) \<Rightarrow> ('k, 'v) btree \<Rightarrow> ('k, 'v) btree" where
  "bt_update k f m = (case bt_get m k of None \<Rightarrow> m | Some v \<Rightarrow> bt_insert k (f v) m)"

lemma bt_get_nil [simp]: "bt_get [] k = None"
  by (simp add: bt_get_def)

lemma bt_get_insert [simp]: "bt_get (bt_insert k v m) k' = (if k' = k then Some v else bt_get m k')"
  by (induction m) (auto simp: bt_get_def)

lemma bt_get_remove [simp]: "bt_get (bt_remove k m) k' = (if k' = k then None else bt_get m k')"
  by (induction m) (auto simp: bt_get_def bt_remove_def bt_retain_def)

lemma bt_keys_insert: "set (map fst (bt_insert k v m)) = insert k (set (map fst m))"
  by (induction m rule: bt_insert.induct) auto

lemma bt_wf_nil [simp]: "bt_wf []"
  by (simp add: bt_wf_def)

lemma bt_wf_insert [simp]: "bt_wf m \<Longrightarrow> bt_wf (bt_insert k v m)"
proof (induction m rule: bt_insert.induct)
  case (1 k v)
  then show ?case by (simp add: bt_wf_def)
next
  case (2 k v k' v' m)
  have "set (map fst (bt_insert k v m)) = insert k (set (map fst m))"
    by (rule bt_keys_insert)
  with 2 show ?case by (fastforce simp: bt_wf_def)
qed

lemma bt_wf_retain [simp]: "bt_wf m \<Longrightarrow> bt_wf (bt_retain P m)"
  by (induction m) (auto simp: bt_wf_def bt_retain_def)

lemma bt_wf_remove [simp]: "bt_wf m \<Longrightarrow> bt_wf (bt_remove k m)"
  by (simp add: bt_remove_def)

lemma bt_wf_map_values [simp]: "bt_wf (bt_map_values f m) \<longleftrightarrow> bt_wf m"
  by (simp add: bt_wf_def bt_map_values_def comp_def split_def)

lemma bt_wf_update [simp]: "bt_wf m \<Longrightarrow> bt_wf (bt_update k f m)"
  by (simp add: bt_update_def split: option.splits)

lemma bt_wf_distinct: "bt_wf m \<Longrightarrow> distinct (map fst m)"
  by (simp add: bt_wf_def strict_sorted_iff)

lemma bt_get_Some_mem: "bt_get m k = Some v \<Longrightarrow> (k, v) \<in> set m"
  by (simp add: bt_get_def map_of_SomeD)

lemma bt_get_iff_mem: "bt_wf m \<Longrightarrow> bt_get m k = Some v \<longleftrightarrow> (k, v) \<in> set m"
  by (simp add: bt_get_def bt_wf_distinct)

lemma bt_get_retain:
  "bt_wf m \<Longrightarrow>
   bt_get (bt_retain P m) k = (case bt_get m k of Some v \<Rightarrow> if P k v then Some v else None | None \<Rightarrow> None)"
proof (induction m)
  case Nil
  then show ?case by (simp add: bt_retain_def)
next
  case (Cons kv m)
  obtain k' v' where kv: "kv = (k', v')" by force
  from Cons.prems have wf: "bt_wf m" and fresh: "k' \<notin> set (map fst m)"
    by (auto simp: bt_wf_def kv)
  have "bt_get m k' = None" using fresh by (simp add: bt_get_def map_of_eq_None_iff)
  with Cons.IH [OF wf] show ?case
    by (auto simp: bt_retain_def bt_get_def kv split: option.splits)
qed

lemma bt_get_map_values [simp]: "bt_get (bt_map_values f m) k = map_option f (bt_get m k)"
  by (induction m) (auto simp: bt_map_values_def bt_get_def)

lemma bt_get_update [simp]:
  "bt_get (bt_update k f m) k' = (if k' = k then map_option f (bt_get m k) else bt_get m k')"
  by (simp add: bt_update_def split: option.splits)

lemma bt_values_mem: "bt_wf m \<Longrightarrow> v \<in> set (bt_values m) \<longleftrightarrow> (\<exists>k. bt_get m k = Some v)"
  by (force simp: bt_values_def bt_get_iff_mem)

text \<open>\<open>collect\<close> of records into a map by their identifier.\<close>

definition collect_by :: "('a \<Rightarrow> 'k::linorder) \<Rightarrow> 'a list \<Rightarrow> ('k, 'a) btree" where
  "collect_by key xs = foldl (\<lambda>m x. bt_insert (key x) x m) [] xs"

lemma bt_insert_last: "bt_wf (m @ [(k, v)]) \<Longrightarrow> bt_insert k v m = m @ [(k, v)]"
  by (induction m) (auto simp: bt_wf_def sorted_wrt_append)

lemma collect_by_values:
  assumes "bt_wf m" "\<And>k v. (k, v) \<in> set m \<Longrightarrow> key v = k"
  shows "collect_by key (bt_values m) = m"
  using assms
proof (induction m rule: rev_induct)
  case (snoc x m)
  obtain k v where x: "x = (k, v)" by force
  have "bt_wf m" using snoc.prems(1) by (auto simp: bt_wf_def sorted_wrt_append)
  moreover have "key v = k" using snoc.prems(2) [of k v] by (simp add: x)
  moreover have "collect_by key (bt_values m) = m"
    using calculation(1) by (rule snoc.IH) (use snoc.prems(2) in auto)
  moreover have "bt_insert k v m = m @ [(k, v)]" using snoc.prems(1) by (intro bt_insert_last) (simp add: x)
  ultimately show ?case by (simp add: collect_by_def bt_values_def x)
qed (simp add: collect_by_def bt_values_def)

lemma bt_retain_mem: "(k, v) \<in> set (bt_retain P m) \<longleftrightarrow> (k, v) \<in> set m \<and> P k v"
  by (auto simp: bt_retain_def)

text \<open>The contract the components rely on, and that these lists meet it.\<close>

locale map_adt =
  fixes empty :: "'m"
    and update :: "'k \<Rightarrow> 'v \<Rightarrow> 'm \<Rightarrow> 'm"
    and delete :: "'k \<Rightarrow> 'm \<Rightarrow> 'm"
    and lookup :: "'m \<Rightarrow> 'k \<Rightarrow> 'v option"
    and invar :: "'m \<Rightarrow> bool"
  assumes lookup_empty: "lookup empty k = None"
    and lookup_update: "invar m \<Longrightarrow> lookup (update a b m) k = (if k = a then Some b else lookup m k)"
    and lookup_delete: "invar m \<Longrightarrow> lookup (delete a m) k = (if k = a then None else lookup m k)"
    and invar_empty: "invar empty"
    and invar_update: "invar m \<Longrightarrow> invar (update a b m)"
    and invar_delete: "invar m \<Longrightarrow> invar (delete a m)"
begin

lemma update_then_delete:
  "invar m \<Longrightarrow> lookup m a = None \<Longrightarrow> lookup (delete a (update a b m)) k = lookup m k"
  by (simp add: lookup_update lookup_delete invar_update)

lemma updates_of_distinct_keys_commute:
  "invar m \<Longrightarrow> a \<noteq> a' \<Longrightarrow>
   lookup (update a b (update a' b' m)) k = lookup (update a' b' (update a b m)) k"
  by (simp add: lookup_update invar_update)

end

interpretation btree_map: map_adt "[]" bt_insert bt_remove bt_get bt_wf
  by unfold_locales simp_all

section \<open>Transition systems\<close>

inductive reach :: "('s \<Rightarrow> bool) \<Rightarrow> ('s \<Rightarrow> 's \<Rightarrow> bool) \<Rightarrow> 's \<Rightarrow> bool"
  for init :: "'s \<Rightarrow> bool" and step :: "'s \<Rightarrow> 's \<Rightarrow> bool" where
  reach_init: "init s \<Longrightarrow> reach init step s"
| reach_step: "reach init step s \<Longrightarrow> step s t \<Longrightarrow> reach init step t"

locale inductive_invariant =
  fixes init :: "'s \<Rightarrow> bool"
    and step :: "'s \<Rightarrow> 's \<Rightarrow> bool"
    and inv :: "'s \<Rightarrow> bool"
  assumes inv_init: "init s \<Longrightarrow> inv s"
    and inv_step: "inv s \<Longrightarrow> step s t \<Longrightarrow> inv t"
begin

lemma reach_inv: "reach init step s \<Longrightarrow> inv s"
  by (induction rule: reach.induct) (auto intro: inv_init inv_step)

lemma steps_inv: "step\<^sup>*\<^sup>* s t \<Longrightarrow> inv s \<Longrightarrow> inv t"
  by (induction rule: rtranclp_induct) (auto intro: inv_step)

end

end
