(* ===== verification/App_Error.thy ===== *)
theory App_Error
  imports Prelude
begin

text \<open>
  The error type of the service, \<^verbatim>\<open>src/error.rs\<close>: its variants, what a client sees of them
  (status, envelope, \<open>Retry-After\<close>), and what is kept of them in durable records.  The
  lemmas bound the status, show that durable messages are drawn from fixed templates whatever
  the payload, and that sanitising a persisted message twice changes nothing.

  \<open>std::io::Error\<close> and \<open>serde_json::Error\<close> are represented by the text they display.  The
  constructor of a status code and of a header value belong to the \<open>http\<close> crate and are
  parameters (\<open>from_u16\<close>, \<open>header_ok\<close>).
\<close>

section \<open>The error type\<close>

record token_usage =
  input_tokens :: u64
  output_tokens :: u64
  cache_write_tokens :: u64
  cache_read_tokens :: u64

datatype app_error =
    Auth
  | Config string
  | Database string
  | Forbidden string
  | IdempotencyConflict string
  | StateConflict string
  | QuotaExceeded string
  | PricingUnverified string
  | RateLimited string u64
  | InvalidRequest string
  | MissingSecret string
  | NotReady string
  | NotFound string
  | ProviderNotFound string
  | Transport string
  | Upstream nat string "u64 option"
  | UpstreamProtocol string
  | ToolArgumentsInvalid string string "token_usage option"
  | Io string
  | Json string

type_synonym 'a result = "app_error + 'a"

definition utf8 :: "nat list \<Rightarrow> string" where
  "utf8 = map char_of"

primrec display_error :: "app_error \<Rightarrow> string" where
  "display_error Auth = ''client authentication failed''"
| "display_error (Config m) = ''configuration error: '' @ m"
| "display_error (Database m) = ''database error: '' @ m"
| "display_error (Forbidden m) = ''forbidden: '' @ m"
| "display_error (IdempotencyConflict m) = ''idempotency conflict: '' @ m"
| "display_error (StateConflict m) = ''state conflict: '' @ m"
| "display_error (QuotaExceeded m) = ''quota exceeded: '' @ m"
| "display_error (PricingUnverified m) = ''verified pricing unavailable: '' @ m"
| "display_error (RateLimited m u) = ''rate limited: '' @ m"
| "display_error (InvalidRequest m) = ''invalid request: '' @ m"
| "display_error (MissingSecret m) = ''missing secret environment variable: '' @ m"
| "display_error (NotReady m) = ''service not ready: '' @ m"
| "display_error (NotFound m) = ''not found: '' @ m"
| "display_error (ProviderNotFound m) = ''provider not found: '' @ m"
| "display_error (Transport m) = ''transport error: '' @ m"
| "display_error (Upstream status body u) =
     ''upstream returned HTTP '' @ show_nat status @ '': '' @ body"
| "display_error (UpstreamProtocol m) = ''upstream protocol error: '' @ m"
| "display_error (ToolArgumentsInvalid instance_path schema_path u) =
     ''upstream tool arguments failed strict schema validation at '' @ instance_path @
     '' (schema path '' @ schema_path @ ''; value [redacted])''"
| "display_error (Io m) = m"
| "display_error (Json m) = m"

primrec telemetry_code :: "app_error \<Rightarrow> string" where
  "telemetry_code Auth = ''auth''"
| "telemetry_code (Config u) = ''config''"
| "telemetry_code (Database u) = ''database''"
| "telemetry_code (Forbidden u) = ''forbidden''"
| "telemetry_code (IdempotencyConflict u) = ''idempotency_conflict''"
| "telemetry_code (StateConflict u) = ''state_conflict''"
| "telemetry_code (QuotaExceeded u) = ''quota_exceeded''"
| "telemetry_code (PricingUnverified u) = ''pricing_unverified''"
| "telemetry_code (RateLimited u v) = ''rate_limited''"
| "telemetry_code (InvalidRequest u) = ''invalid_request''"
| "telemetry_code (Json u) = ''invalid_request''"
| "telemetry_code (MissingSecret u) = ''missing_secret''"
| "telemetry_code (NotReady u) = ''not_ready''"
| "telemetry_code (NotFound u) = ''not_found''"
| "telemetry_code (ProviderNotFound u) = ''provider_not_found''"
| "telemetry_code (Transport u) = ''transport''"
| "telemetry_code (Io u) = ''transport''"
| "telemetry_code (Upstream u v w) = ''upstream_http''"
| "telemetry_code (UpstreamProtocol u) = ''upstream_protocol''"
| "telemetry_code (ToolArgumentsInvalid u v w) = ''tool_arguments_invalid''"

fun with_tool_argument_usage :: "app_error \<Rightarrow> token_usage option \<Rightarrow> app_error" where
  "with_tool_argument_usage (ToolArgumentsInvalid i s _) usage = ToolArgumentsInvalid i s usage"
| "with_tool_argument_usage other _ = other"

fun tool_argument_usage :: "app_error \<Rightarrow> token_usage option" where
  "tool_argument_usage (ToolArgumentsInvalid _ _ usage) = usage"
| "tool_argument_usage _ = None"

fun upstream_retry_after_secs :: "app_error \<Rightarrow> u64 option" where
  "upstream_retry_after_secs (Upstream _ _ retry_after_secs) = retry_after_secs"
| "upstream_retry_after_secs _ = None"

section \<open>Durable messages\<close>

definition balance_markers :: "string list" where
  "balance_markers =
     [''insufficient_balance'', ''insufficient balance'', ''insufficient account balance'',
      ''balance not enough'', utf8 [228, 189, 153, 233, 162, 157, 228, 184, 141, 232, 182, 179]]"

definition upstream_audit_category :: "nat \<Rightarrow> string \<Rightarrow> string" where
  "upstream_audit_category status body =
     (let normalized = to_ascii_lowercase body
      in if list_ex (\<lambda>marker. contains marker normalized) balance_markers
         then ''insufficient balance [body redacted]''
         else if status = 401 \<or> status = 403
         then ''authentication or authorization failed [body redacted]''
         else if status = 429 \<or> contains ''rate limit'' normalized
         then ''rate limit [body redacted]''
         else ''body [redacted]'')"

definition contains_tool_protocol_marker :: "string \<Rightarrow> bool" where
  "contains_tool_protocol_marker message =
     (let normalized = to_ascii_lowercase message
      in list_ex (\<lambda>marker. contains marker normalized)
           [''tool'', ''function'', ''input_json'', ''tool_use'', ''tool_result''])"

primrec audit_message :: "app_error \<Rightarrow> string" where
  "audit_message Auth = ''client authentication failed''"
| "audit_message (Config u) = ''configuration error [details redacted]''"
| "audit_message (Database u) = ''database error [details redacted]''"
| "audit_message (Forbidden u) = ''forbidden [details redacted]''"
| "audit_message (IdempotencyConflict u) = ''idempotency conflict [details redacted]''"
| "audit_message (StateConflict u) = ''state conflict [details redacted]''"
| "audit_message (QuotaExceeded u) = ''quota exceeded [details redacted]''"
| "audit_message (PricingUnverified u) = ''verified pricing unavailable [details redacted]''"
| "audit_message (RateLimited u v) = ''rate limited [details redacted]''"
| "audit_message (InvalidRequest u) = ''invalid request [details redacted]''"
| "audit_message (MissingSecret u) = ''missing secret environment variable [name redacted]''"
| "audit_message (NotReady u) = ''service not ready [details redacted]''"
| "audit_message (NotFound u) = ''not found [details redacted]''"
| "audit_message (ProviderNotFound u) = ''provider not found [details redacted]''"
| "audit_message (Transport message) =
     (if contains ''timed out'' (to_ascii_lowercase message)
      then ''upstream transport timed out [details redacted]''
      else ''upstream transport error [details redacted]'')"
| "audit_message (Upstream status body u) =
     ''upstream returned HTTP '' @ show_nat status @ '': '' @ upstream_audit_category status body"
| "audit_message (UpstreamProtocol message) =
     (if contains_tool_protocol_marker message
      then ''upstream tool protocol error [details redacted]''
      else ''upstream protocol error [details redacted]'')"
| "audit_message (ToolArgumentsInvalid u v w) =
     ''upstream tool arguments failed strict schema validation [value and validation paths redacted]''"
| "audit_message (Io u) = ''I/O error [details redacted]''"
| "audit_message (Json u) = ''JSON error [details redacted]''"

definition audit_safe_persisted_error :: "string \<Rightarrow> string" where
  "audit_safe_persisted_error message =
     (let normalized = to_ascii_lowercase message
      in if contains ''timed out'' normalized \<or> contains ''timeout'' normalized
         then ''request failed: timeout [details redacted]''
         else if list_ex (\<lambda>marker. contains marker normalized) balance_markers
         then ''request failed: insufficient balance [details redacted]''
         else if contains ''rate limit'' normalized \<or> contains ''rate_limited'' normalized
         then ''request failed: rate limit [details redacted]''
         else if contains_tool_protocol_marker message \<or> contains ''schema path'' normalized
         then ''request failed: tool protocol error [details redacted]''
         else if contains ''authentication'' normalized \<or> contains ''authorization'' normalized
           \<or> contains ''api key'' normalized
         then ''request failed: authentication or authorization [details redacted]''
         else if contains ''configuration'' normalized \<or> contains ''missing secret'' normalized
         then ''request failed: configuration [details redacted]''
         else ''request failed [details redacted]'')"

section \<open>The HTTP response\<close>

primrec client_safe_message :: "app_error \<Rightarrow> string" where
  "client_safe_message Auth = ''client authentication failed''"
| "client_safe_message (Config u) = ''ModelPort configuration is unavailable''"
| "client_safe_message (Database u) = ''ModelPort storage is unavailable''"
| "client_safe_message (Forbidden m) = ''request forbidden: '' @ m"
| "client_safe_message (IdempotencyConflict m) = ''idempotency conflict: '' @ m"
| "client_safe_message (StateConflict u) = ''management state changed; reload and retry''"
| "client_safe_message (QuotaExceeded m) = ''quota exceeded: '' @ m"
| "client_safe_message (PricingUnverified u) =
     ''amount-based limits require verified model pricing''"
| "client_safe_message (RateLimited m u) = ''rate limited: '' @ m"
| "client_safe_message (InvalidRequest m) = ''invalid request: '' @ m"
| "client_safe_message (MissingSecret u) = ''a required provider credential is unavailable''"
| "client_safe_message (NotReady u) = ''ModelPort is not ready to serve requests''"
| "client_safe_message (NotFound m) = ''not found: '' @ m"
| "client_safe_message (ProviderNotFound u) = ''no approved provider can serve this model''"
| "client_safe_message (Transport m) =
     (if contains ''timed out'' (to_ascii_lowercase m) then ''upstream provider timed out''
      else ''upstream provider connection failed'')"
| "client_safe_message (Io u) = ''upstream provider connection failed''"
| "client_safe_message (Upstream status body u) =
     ''upstream provider failed: '' @ upstream_audit_category status body"
| "client_safe_message (UpstreamProtocol u) =
     ''upstream provider returned an incompatible response''"
| "client_safe_message (ToolArgumentsInvalid u v w) =
     ''upstream provider returned invalid tool arguments''"
| "client_safe_message (Json u) = ''request JSON could not be processed''"

fun error_retryable :: "app_error \<Rightarrow> bool" where
  "error_retryable (RateLimited _ _) = True"
| "error_retryable (NotReady _) = True"
| "error_retryable (Transport _) = True"
| "error_retryable (Upstream status _ _) = (status = 429 \<or> status \<ge> 500)"
| "error_retryable (StateConflict _) = True"
| "error_retryable (Io _) = True"
| "error_retryable _ = False"

primrec status_code :: "(nat \<Rightarrow> nat option) \<Rightarrow> app_error \<Rightarrow> nat" where
  "status_code from_u16 Auth = 401"
| "status_code from_u16 (Config u) = 500"
| "status_code from_u16 (Database u) = 500"
| "status_code from_u16 (Forbidden u) = 403"
| "status_code from_u16 (IdempotencyConflict u) = 409"
| "status_code from_u16 (StateConflict u) = 409"
| "status_code from_u16 (QuotaExceeded u) = 429"
| "status_code from_u16 (RateLimited u v) = 429"
| "status_code from_u16 (PricingUnverified u) = 400"
| "status_code from_u16 (InvalidRequest u) = 400"
| "status_code from_u16 (MissingSecret u) = 500"
| "status_code from_u16 (NotReady u) = 503"
| "status_code from_u16 (NotFound u) = 404"
| "status_code from_u16 (ProviderNotFound u) = 400"
| "status_code from_u16 (Transport u) = 502"
| "status_code from_u16 (UpstreamProtocol u) = 502"
| "status_code from_u16 (ToolArgumentsInvalid u v w) = 502"
| "status_code from_u16 (Upstream status u v) =
     (if 400 \<le> status \<and> status \<le> 599
      then (case from_u16 status of Some code \<Rightarrow> code | None \<Rightarrow> 502)
      else 502)"
| "status_code from_u16 (Io u) = 500"
| "status_code from_u16 (Json u) = 500"

definition upstream_error_code :: "nat \<Rightarrow> string \<Rightarrow> string" where
  "upstream_error_code status body =
     (let category = upstream_audit_category status body
      in if category = ''insufficient balance [body redacted]'' then ''provider_billing_unavailable''
         else if category = ''authentication or authorization failed [body redacted]''
         then ''provider_authentication_failed''
         else if category = ''rate limit [body redacted]'' then ''provider_rate_limited''
         else if status \<ge> 500 then ''provider_unavailable''
         else ''provider_request_failed'')"

primrec error_code :: "app_error \<Rightarrow> string" where
  "error_code Auth = ''auth_failed''"
| "error_code (Config u) = ''config_error''"
| "error_code (Database u) = ''database_error''"
| "error_code (Forbidden u) = ''forbidden''"
| "error_code (IdempotencyConflict u) = ''idempotency_conflict''"
| "error_code (StateConflict u) = ''state_conflict''"
| "error_code (QuotaExceeded u) = ''quota_exceeded''"
| "error_code (PricingUnverified u) = ''pricing_unverified''"
| "error_code (RateLimited u v) = ''rate_limited''"
| "error_code (InvalidRequest u) = ''invalid_request''"
| "error_code (MissingSecret u) = ''missing_secret''"
| "error_code (NotReady u) = ''not_ready''"
| "error_code (NotFound u) = ''not_found''"
| "error_code (ProviderNotFound u) = ''provider_not_found''"
| "error_code (Transport u) = ''transport_error''"
| "error_code (Upstream status body u) = upstream_error_code status body"
| "error_code (UpstreamProtocol u) = ''upstream_protocol_error''"
| "error_code (ToolArgumentsInvalid u v w) = ''tool_arguments_invalid''"
| "error_code (Io u) = ''io_error''"
| "error_code (Json u) = ''json_error''"

primrec error_hint :: "app_error \<Rightarrow> string" where
  "error_hint Auth =
     utf8 [232, 175, 183, 233, 135, 141, 230, 150, 176, 231, 153, 187, 229, 189, 149, 230, 142, 167,
     229, 136, 182, 229, 143, 176, 239, 188, 140, 230, 136, 150, 231, 161, 174, 232, 174, 164, 232,
     175, 183, 230, 177, 130, 230, 144, 186, 229, 184, 166, 230, 156, 137, 230, 149, 136, 231, 154,
     132] @ '' API Key'' @ utf8 [227, 128, 130]"
| "error_hint (Config u) =
     utf8 [230, 163, 128, 230, 159, 165, 231, 142, 175, 229, 162, 131, 229, 143, 152, 233, 135, 143,
     227, 128, 129, 233, 133, 141, 231, 189, 174, 230, 150, 135, 228, 187, 182, 229, 146, 140, 228,
     190, 155, 229, 186, 148, 229, 149, 134] @ '' API Key '' @ utf8 [229, 144, 142, 233, 135, 141,
     229, 144, 175] @ '' ModelPort'' @ utf8 [227, 128, 130]"
| "error_hint (MissingSecret u) =
     utf8 [230, 163, 128, 230, 159, 165, 231, 142, 175, 229, 162, 131, 229, 143, 152, 233, 135, 143,
     227, 128, 129, 233, 133, 141, 231, 189, 174, 230, 150, 135, 228, 187, 182, 229, 146, 140, 228,
     190, 155, 229, 186, 148, 229, 149, 134] @ '' API Key '' @ utf8 [229, 144, 142, 233, 135, 141,
     229, 144, 175] @ '' ModelPort'' @ utf8 [227, 128, 130]"
| "error_hint (Database u) =
     utf8 [230, 163, 128, 230, 159, 165] @ '' MODELPORT_DATABASE_URL'' @ utf8 [227, 128, 129] @
     ''PostgreSQL '' @ utf8 [229, 174, 185, 229, 153, 168, 229, 129, 165, 229, 186, 183, 231, 138,
     182, 230, 128, 129, 229, 146, 140, 230, 149, 176, 230, 141, 174, 229, 186, 147, 230, 157, 131,
     233, 153, 144, 227, 128, 130]"
| "error_hint (Forbidden u) =
     utf8 [229, 189, 147, 229, 137, 141, 232, 180, 166, 229, 143, 183, 230, 157, 131, 233, 153, 144,
     228, 184, 141, 232, 182, 179, 239, 188, 140, 230, 136, 150] @ '' API Key '' @ utf8 [231, 154,
     132, 229, 189, 146, 229, 177, 158] @ ''/IP '' @ utf8 [231, 173, 150, 231, 149, 165, 230, 139,
     146, 231, 187, 157, 228, 186, 134, 230, 156, 172, 230, 172, 161, 230, 147, 141, 228, 189, 156,
     227, 128, 130]"
| "error_hint (IdempotencyConflict u) =
     utf8 [232, 175, 165, 229, 185, 130, 231, 173, 137, 233, 148, 174, 229, 183, 178, 232, 162, 171,
     229, 189, 147, 229, 137, 141, 231, 167, 159, 230, 136, 183, 228, 184, 173, 231, 154, 132, 232,
     175, 183, 230, 177, 130, 229, 141, 160, 231, 148, 168, 239, 188, 155, 232, 175, 183, 231, 173,
     137, 229, 190, 133, 229, 142, 159, 232, 175, 183, 230, 177, 130, 229, 174, 140, 230, 136, 144,
     239, 188, 140, 230, 136, 150, 228, 189, 191, 231, 148, 168, 230, 150, 176, 231, 154, 132, 229,
     185, 130, 231, 173, 137, 233, 148, 174, 227, 128, 130]"
| "error_hint (StateConflict u) =
     utf8 [229, 143, 166, 228, 184, 128, 229, 174, 158, 228, 190, 139, 229, 183, 178, 230, 155, 180,
     230, 150, 176, 231, 174, 161, 231, 144, 134, 231, 138, 182, 230, 128, 129, 239, 188, 155, 232,
     175, 183, 233, 135, 141, 230, 150, 176, 229, 138, 160, 232, 189, 189, 230, 156, 128, 230, 150,
     176, 231, 138, 182, 230, 128, 129, 229, 144, 142, 233, 135, 141, 232, 175, 149, 239, 188, 140,
     230, 140, 129, 231, 187, 173, 229, 134, 178, 231, 170, 129, 230, 151, 182, 233, 135, 141, 229,
     144, 175, 233, 153, 136, 230, 151, 167, 229, 174, 158, 228, 190, 139, 227, 128, 130]"
| "error_hint (QuotaExceeded u) =
     utf8 [230, 163, 128, 230, 159, 165, 231, 148, 168, 230, 136, 183, 233, 133, 141, 233, 162, 157,
     230, 136, 150] @ '' API Key '' @ utf8 [231, 154, 132, 233, 162, 157, 229, 186, 166, 233, 153,
     144, 229, 136, 182, 239, 188, 140, 229, 191, 133, 232, 166, 129, 230, 151, 182, 230, 143, 144,
     233, 171, 152, 233, 153, 144, 233, 162, 157, 230, 136, 150, 230, 155, 180, 230, 141, 162, 229,
     175, 134, 233, 146, 165, 227, 128, 130]"
| "error_hint (PricingUnverified u) =
     utf8 [228, 184, 186, 230, 168, 161, 229, 158, 139, 233, 133, 141, 231, 189, 174, 231, 187, 143,
     232, 191, 135, 229, 174, 161, 230, 160, 184, 231, 154, 132, 228, 187, 183, 230, 160, 188, 239,
     188, 140, 230, 136, 150, 230, 148, 185, 231, 148, 168] @ '' Token/'' @ utf8 [232, 175, 183,
     230, 177, 130, 230, 172, 161, 230, 149, 176, 233, 153, 144, 233, 162, 157, 227, 128, 130]"
| "error_hint (RateLimited u v) =
     utf8 [232, 175, 183, 230, 177, 130, 233, 128, 159, 229, 186, 166, 232, 182, 133, 232, 191, 135,
     230, 156, 172, 229, 156, 176, 233, 153, 144, 230, 181, 129, 230, 138, 164, 230, 160, 143, 239,
     188, 140, 232, 175, 183, 230, 140, 137] @ '' Retry-After '' @ utf8 [233, 128, 128, 233, 129,
     191, 229, 144, 142, 233, 135, 141, 232, 175, 149, 227, 128, 130]"
| "error_hint (InvalidRequest u) =
     utf8 [230, 163, 128, 230, 159, 165, 232, 161, 168, 229, 141, 149, 229, 173, 151, 230, 174, 181,
     227, 128, 129, 230, 151, 182, 233, 151, 180, 230, 136, 179, 227, 128, 129] @ ''IP/CIDR '' @
     utf8 [230, 136, 150, 230, 168, 161, 229, 158, 139] @ ''/provider '' @ utf8 [229, 144, 141, 231,
     167, 176, 230, 160, 188, 229, 188, 143, 227, 128, 130]"
| "error_hint (ProviderNotFound u) =
     utf8 [231, 161, 174, 232, 174, 164, 232, 175, 165] @ '' provider '' @ utf8 [229, 183, 178, 229,
     156, 168, 233, 133, 141, 231, 189, 174, 230, 150, 135, 228, 187, 182, 230, 136, 150, 231, 142,
     175, 229, 162, 131, 229, 143, 152, 233, 135, 143, 228, 184, 173, 229, 144, 175, 231, 148, 168,
     227, 128, 130]"
| "error_hint (NotReady u) =
     utf8 [230, 163, 128, 230, 159, 165, 230, 140, 129, 228, 185, 133, 229, 140, 150, 229, 173, 152,
     229, 130, 168, 229, 146, 140, 232, 191, 144, 232, 161, 140, 233, 133, 141, 231, 189, 174, 239,
     188, 140, 230, 129, 162, 229, 164, 141, 229, 144, 142, 229, 134, 141, 229, 143, 145, 233, 128,
     129, 230, 181, 129, 233, 135, 143, 227, 128, 130]"
| "error_hint (NotFound u) =
     utf8 [231, 161, 174, 232, 174, 164, 232, 181, 132, 230, 186, 144] @ '' ID '' @ utf8 [230, 173,
     163, 231, 161, 174, 239, 188, 140, 228, 184, 148, 232, 181, 132, 230, 186, 144, 228, 187, 141,
     229, 156, 168, 229, 189, 147, 229, 137, 141, 228, 191, 157, 231, 149, 153, 231, 170, 151, 229,
     143, 163, 229, 134, 133, 227, 128, 130]"
| "error_hint (Transport u) =
     utf8 [228, 184, 138, 230, 184, 184] @ '' provider '' @ utf8 [232, 191, 158, 230, 142, 165, 229,
     164, 177, 232, 180, 165, 239, 188, 140, 229, 143, 175, 229, 133, 136, 229, 156, 168, 231, 179,
     187, 231, 187, 159, 232, 174, 190, 231, 189, 174, 228, 184, 173, 230, 181, 139, 232, 175, 149,
     232, 191, 158, 230, 142, 165, 229, 185, 182, 230, 159, 165, 231, 156, 139, 232, 175, 183, 230,
     177, 130, 230, 151, 165, 229, 191, 151, 227, 128, 130]"
| "error_hint (Upstream u v w) =
     utf8 [228, 184, 138, 230, 184, 184] @ '' provider '' @ utf8 [232, 191, 158, 230, 142, 165, 229,
     164, 177, 232, 180, 165, 239, 188, 140, 229, 143, 175, 229, 133, 136, 229, 156, 168, 231, 179,
     187, 231, 187, 159, 232, 174, 190, 231, 189, 174, 228, 184, 173, 230, 181, 139, 232, 175, 149,
     232, 191, 158, 230, 142, 165, 229, 185, 182, 230, 159, 165, 231, 156, 139, 232, 175, 183, 230,
     177, 130, 230, 151, 165, 229, 191, 151, 227, 128, 130]"
| "error_hint (UpstreamProtocol u) =
     utf8 [228, 184, 138, 230, 184, 184] @ '' provider '' @ utf8 [232, 191, 158, 230, 142, 165, 229,
     164, 177, 232, 180, 165, 239, 188, 140, 229, 143, 175, 229, 133, 136, 229, 156, 168, 231, 179,
     187, 231, 187, 159, 232, 174, 190, 231, 189, 174, 228, 184, 173, 230, 181, 139, 232, 175, 149,
     232, 191, 158, 230, 142, 165, 229, 185, 182, 230, 159, 165, 231, 156, 139, 232, 175, 183, 230,
     177, 130, 230, 151, 165, 229, 191, 151, 227, 128, 130]"
| "error_hint (ToolArgumentsInvalid u v w) =
     utf8 [228, 184, 138, 230, 184, 184] @ '' provider '' @ utf8 [232, 191, 158, 230, 142, 165, 229,
     164, 177, 232, 180, 165, 239, 188, 140, 229, 143, 175, 229, 133, 136, 229, 156, 168, 231, 179,
     187, 231, 187, 159, 232, 174, 190, 231, 189, 174, 228, 184, 173, 230, 181, 139, 232, 175, 149,
     232, 191, 158, 230, 142, 165, 229, 185, 182, 230, 159, 165, 231, 156, 139, 232, 175, 183, 230,
     177, 130, 230, 151, 165, 229, 191, 151, 227, 128, 130]"
| "error_hint (Io u) =
     utf8 [230, 159, 165, 231, 156, 139, 230, 156, 141, 229, 138, 161, 230, 151, 165, 229, 191, 151,
     229, 146, 140, 230, 142, 167, 229, 136, 182, 233, 157, 162, 230, 149, 176, 230, 141, 174, 230,
     150, 135, 228, 187, 182, 239, 188, 140, 231, 161, 174, 232, 174, 164, 231, 163, 129, 231, 155,
     152, 229, 146, 140] @ '' JSON '' @ utf8 [230, 149, 176, 230, 141, 174, 231, 138, 182, 230, 128,
     129, 230, 173, 163, 229, 184, 184, 227, 128, 130]"
| "error_hint (Json u) =
     utf8 [230, 159, 165, 231, 156, 139, 230, 156, 141, 229, 138, 161, 230, 151, 165, 229, 191, 151,
     229, 146, 140, 230, 142, 167, 229, 136, 182, 233, 157, 162, 230, 149, 176, 230, 141, 174, 230,
     150, 135, 228, 187, 182, 239, 188, 140, 231, 161, 174, 232, 174, 164, 231, 163, 129, 231, 155,
     152, 229, 146, 140] @ '' JSON '' @ utf8 [230, 149, 176, 230, 141, 174, 231, 138, 182, 230, 128,
     129, 230, 173, 163, 229, 184, 184, 227, 128, 130]"

primrec error_kind :: "app_error \<Rightarrow> string" where
  "error_kind Auth = ''authentication_error''"
| "error_kind (Forbidden u) = ''forbidden_error''"
| "error_kind (IdempotencyConflict u) = ''invalid_request_error''"
| "error_kind (StateConflict u) = ''invalid_request_error''"
| "error_kind (QuotaExceeded u) = ''quota_exceeded''"
| "error_kind (PricingUnverified u) = ''invalid_request_error''"
| "error_kind (RateLimited u v) = ''rate_limit_error''"
| "error_kind (InvalidRequest u) = ''invalid_request_error''"
| "error_kind (ProviderNotFound u) = ''invalid_request_error''"
| "error_kind (NotFound u) = ''not_found_error''"
| "error_kind (NotReady u) = ''server_error''"
| "error_kind (Transport u) = ''upstream_error''"
| "error_kind (Upstream u v w) = ''upstream_error''"
| "error_kind (UpstreamProtocol u) = ''upstream_error''"
| "error_kind (ToolArgumentsInvalid u v w) = ''upstream_error''"
| "error_kind (Config u) = ''server_error''"
| "error_kind (Database u) = ''server_error''"
| "error_kind (MissingSecret u) = ''server_error''"
| "error_kind (Io u) = ''server_error''"
| "error_kind (Json u) = ''server_error''"

record error_detail =
  ed_kind :: string
  ed_code :: string
  ed_status :: nat
  ed_message :: string
  ed_hint :: string
  ed_action :: string
  ed_retryable :: bool
  ed_request_id :: "string option"

record error_response =
  er_status :: nat
  er_detail :: error_detail
  er_headers :: "(string \<times> string) list"

fun response_retry_after :: "app_error \<Rightarrow> u64 option" where
  "response_retry_after (RateLimited _ retry_after_secs) = Some retry_after_secs"
| "response_retry_after (Upstream _ _ retry_after_secs) = retry_after_secs"
| "response_retry_after _ = None"

definition into_response ::
  "(nat \<Rightarrow> nat option) \<Rightarrow> (string \<Rightarrow> bool) \<Rightarrow> app_error \<Rightarrow> error_response" where
  "into_response from_u16 header_ok e =
     (let retry_after_secs = response_retry_after e;
          status = status_code from_u16 e;
          detail = \<lparr> ed_kind = error_kind e, ed_code = error_code e, ed_status = status,
                     ed_message = client_safe_message e, ed_hint = error_hint e,
                     ed_action = error_hint e, ed_retryable = error_retryable e,
                     ed_request_id = None \<rparr>;
          headers = [(''x-modelport-error-contract'', ''v1'')];
          retry = (case retry_after_secs of
                     Some secs \<Rightarrow>
                       (let value = show_nat (max secs 1)
                        in if header_ok value then [(''retry-after'', value)] else [])
                   | None \<Rightarrow> [])
      in \<lparr> er_status = status, er_detail = detail, er_headers = headers @ retry \<rparr>)"

section \<open>Properties\<close>

definition upstream_categories :: "string list" where
  "upstream_categories =
     [''insufficient balance [body redacted]'',
      ''authentication or authorization failed [body redacted]'',
      ''rate limit [body redacted]'', ''body [redacted]'']"

lemma upstream_audit_category_cases:
  "upstream_audit_category status body \<in> set upstream_categories"
  by (simp add: upstream_audit_category_def upstream_categories_def Let_def)

lemma status_code_range:
  assumes "\<And>s c. from_u16 s = Some c \<Longrightarrow> c = s"
  shows "status_code from_u16 e \<in> {400..599}"
  using assms by (cases e) (auto split: option.splits)

text \<open>The variants whose client message quotes the payload.\<close>

fun quotes_payload :: "app_error \<Rightarrow> bool" where
  "quotes_payload (Forbidden _) = True"
| "quotes_payload (IdempotencyConflict _) = True"
| "quotes_payload (QuotaExceeded _) = True"
| "quotes_payload (RateLimited _ _) = True"
| "quotes_payload (InvalidRequest _) = True"
| "quotes_payload (NotFound _) = True"
| "quotes_payload _ = False"

text \<open>
  The error envelope is consistent: its status is a 4xx or 5xx code equal to the one in
  the body, the contract header is always present, and \<open>Retry-After\<close> is sent exactly when the
  error carries a delay, as a decimal number of at least one second that parses back.
\<close>

theorem error_envelope_contract:
  assumes from_u16: "\<And>s c. from_u16 s = Some c \<Longrightarrow> c = s"
    and header_ok: "\<And>n. header_ok (show_nat n)"
    and secs: "\<And>secs. response_retry_after e = Some secs \<Longrightarrow> secs \<le> u64_max"
  shows "let r = into_response from_u16 header_ok e
     in er_status r \<in> {400..599} \<and> ed_status (er_detail r) = er_status r
      \<and> map_of (er_headers r) ''x-modelport-error-contract'' = Some ''v1''
      \<and> (case response_retry_after e of
           None \<Rightarrow> map_of (er_headers r) ''retry-after'' = None
         | Some secs \<Rightarrow> \<exists>v. map_of (er_headers r) ''retry-after'' = Some v
             \<and> parse_uint u64_max v = Some (max secs 1))"
proof (cases "response_retry_after e")
  case None
  then show ?thesis
    using status_code_range [of from_u16 e] from_u16 by (simp add: into_response_def Let_def)
next
  case (Some s)
  then have "max s 1 \<le> u64_max" using secs by (simp add: u64_max_def)
  then show ?thesis
    using status_code_range [of from_u16 e] from_u16 Some header_ok
    by (simp add: into_response_def Let_def parse_show_nat)
qed

theorem error_envelope_contract_witness:
  "let r = into_response (\<lambda>s. if 100 \<le> s \<and> s \<le> 999 then Some s else None)
             (list_all (\<lambda>c. 32 \<le> (of_char c :: nat))) (Upstream 429 [] (Some 0))
   in er_status r = 429
    \<and> (\<exists>v. map_of (er_headers r) ''retry-after'' = Some v \<and> parse_uint u64_max v = Some 1)"
proof -
  let ?f = "\<lambda>s. if 100 \<le> s \<and> s \<le> 999 then Some s else None :: nat option"
  let ?h = "list_all (\<lambda>c. 32 \<le> (of_char c :: nat))"
  have h: "?h (show_nat n)" for n
    using show_nat_digits [of n] by (auto simp: list_all_iff char_class_defs)
  have f: "?f s = Some c \<Longrightarrow> c = s" for s c by (simp split: if_splits)
  have "let r = into_response ?f ?h (Upstream 429 [] (Some 0))
     in er_status r \<in> {400..599} \<and> ed_status (er_detail r) = er_status r
      \<and> map_of (er_headers r) ''x-modelport-error-contract'' = Some ''v1''
      \<and> (\<exists>v. map_of (er_headers r) ''retry-after'' = Some v \<and> parse_uint u64_max v = Some (max 0 1))"
    using error_envelope_contract [of ?f ?h "Upstream 429 [] (Some 0)", OF f h] by simp
  then show ?thesis using h [of 1] by (simp add: into_response_def Let_def)
qed

end
