(* ===== verification/Error_Audit.thy ===== *)
theory Error_Audit
  imports App_Error
begin

text \<open>
  What durable records keep of an error, \<^verbatim>\<open>src/error.rs\<close>: the messages of
  \<open>audit_message\<close> and \<open>audit_safe_persisted_error\<close> come from fixed lists of texts.  The
  sanitiser is evaluated on each of its own results, which shows that it is idempotent.
\<close>

definition audit_templates :: "string list" where
  "audit_templates =
     [''client authentication failed'', ''configuration error [details redacted]'',
      ''database error [details redacted]'', ''forbidden [details redacted]'',
      ''idempotency conflict [details redacted]'', ''state conflict [details redacted]'',
      ''quota exceeded [details redacted]'', ''verified pricing unavailable [details redacted]'',
      ''rate limited [details redacted]'', ''invalid request [details redacted]'',
      ''missing secret environment variable [name redacted]'',
      ''service not ready [details redacted]'', ''not found [details redacted]'',
      ''provider not found [details redacted]'', ''upstream transport timed out [details redacted]'',
      ''upstream transport error [details redacted]'',
      ''upstream tool protocol error [details redacted]'',
      ''upstream protocol error [details redacted]'',
      ''upstream tool arguments failed strict schema validation [value and validation paths redacted]'',
      ''I/O error [details redacted]'', ''JSON error [details redacted]'']"

definition persisted_templates :: "string list" where
  "persisted_templates =
     [''request failed: timeout [details redacted]'',
      ''request failed: insufficient balance [details redacted]'',
      ''request failed: rate limit [details redacted]'',
      ''request failed: tool protocol error [details redacted]'',
      ''request failed: authentication or authorization [details redacted]'',
      ''request failed: configuration [details redacted]'',
      ''request failed [details redacted]'']"

lemma persisted_templates_cases: "audit_safe_persisted_error m \<in> set persisted_templates"
  by (simp add: audit_safe_persisted_error_def persisted_templates_def Let_def)

lemma persisted_templates_fixed: "list_all (\<lambda>t. audit_safe_persisted_error t = t) persisted_templates"
  by code_simp

text \<open>
  C11: what is kept of an error in usage, ledger and health records comes from a fixed list of
  texts, except that an upstream failure also keeps its numeric HTTP status.  No string the
  caller, the provider or the storage layer supplied can reach a durable record this way, and
  re-sanitising an old record gives one of seven texts and is idempotent.
\<close>

theorem audit_messages_are_templates:
  "(case e of
      Upstream status body retry \<Rightarrow>
        \<exists>category \<in> set upstream_categories.
          audit_message e = ''upstream returned HTTP '' @ show_nat status @ '': '' @ category
    | _ \<Rightarrow> audit_message e \<in> set audit_templates)
   \<and> audit_safe_persisted_error m \<in> set persisted_templates
   \<and> audit_safe_persisted_error (audit_safe_persisted_error m) = audit_safe_persisted_error m"
proof (intro conjI)
  show "case e of
      Upstream status body retry \<Rightarrow>
        \<exists>category \<in> set upstream_categories.
          audit_message e = ''upstream returned HTTP '' @ show_nat status @ '': '' @ category
    | _ \<Rightarrow> audit_message e \<in> set audit_templates"
    by (cases e) (simp_all add: audit_templates_def upstream_audit_category_cases)
  show "audit_safe_persisted_error m \<in> set persisted_templates"
    by (rule persisted_templates_cases)
  then show "audit_safe_persisted_error (audit_safe_persisted_error m) = audit_safe_persisted_error m"
    using persisted_templates_fixed by (simp add: list_all_iff)
qed

end
