(* ===== verification/Usage_Period.thy ===== *)
theory Usage_Period
  imports Prelude
begin

text \<open>
  Quota periods, \<^verbatim>\<open>src/usage.rs\<close>: the UTC day, calendar week and calendar month that contain
  an instant, with the civil-date arithmetic they rest on.  \<open>i64\<close> values are \<open>int\<close>; Rust's
  \<open>/\<close> truncates towards zero and is \<open>tdiv\<close>.  The lemmas show that the two civil-date
  conversions are inverse, that a period contains its instant, and that periods partition time.
\<close>

section \<open>Definitions\<close>

definition DAY_MS :: nat where "DAY_MS = 24 * 60 * 60 * 1000"

definition i64_max :: int where "i64_max = 9223372036854775807"
definition i64_min :: int where "i64_min = - 9223372036854775808"

definition sat_add_i64 :: "int \<Rightarrow> int \<Rightarrow> int" where
  "sat_add_i64 a b = max i64_min (min i64_max (a + b))"

definition tdiv :: "int \<Rightarrow> int \<Rightarrow> int" where
  "tdiv a b = sgn a * sgn b * (\<bar>a\<bar> div \<bar>b\<bar>)"

definition civil_from_days :: "int \<Rightarrow> int \<times> int \<times> int" where
  "civil_from_days days_since_epoch =
     (let z = sat_add_i64 days_since_epoch 719468;
          era = tdiv (if z \<ge> 0 then z else z - 146096) 146097;
          day_of_era = z - era * 146097;
          year_of_era =
            tdiv (day_of_era - tdiv day_of_era 1460 + tdiv day_of_era 36524
                  - tdiv day_of_era 146096) 365;
          year = year_of_era + era * 400;
          day_of_year =
            day_of_era - (365 * year_of_era + tdiv year_of_era 4 - tdiv year_of_era 100);
          month_prime = tdiv (5 * day_of_year + 2) 153;
          day = day_of_year - tdiv (153 * month_prime + 2) 5 + 1;
          month = month_prime + (if month_prime < 10 then 3 else - 9)
      in (if month \<le> 2 then year + 1 else year, month, day))"

definition days_from_civil :: "int \<Rightarrow> int \<Rightarrow> int \<Rightarrow> int" where
  "days_from_civil y m d =
     (let year = y - (if m \<le> 2 then 1 else 0);
          era = tdiv (if year \<ge> 0 then year else year - 399) 400;
          year_of_era = year - era * 400;
          day_of_year = tdiv (153 * (m + (if m > 2 then - 3 else 9)) + 2) 5 + d - 1;
          day_of_era = year_of_era * 365 + tdiv year_of_era 4 - tdiv year_of_era 100 + day_of_year
      in era * 146097 + day_of_era - 719468)"

definition millis_from_civil :: "int \<Rightarrow> int \<Rightarrow> int \<Rightarrow> u64" where
  "millis_from_civil y m d =
     (let days = days_from_civil y m d in sat_mul (if days < 0 then 0 else nat days) DAY_MS)"

definition day_start :: "u64 \<Rightarrow> u64" where
  "day_start now = (now div DAY_MS) * DAY_MS"

definition current_period :: "string \<Rightarrow> u64 \<Rightarrow> u64 \<times> u64" where
  "current_period period now =
     (if period = ''daily'' then
        (let start = day_start now in (start, sat_add start DAY_MS))
      else if period = ''weekly'' then
        (let days_since_epoch = now div DAY_MS;
             weekday_from_monday = sat_add days_since_epoch 3 mod 7;
             start = sat_mul (days_since_epoch - weekday_from_monday) DAY_MS
         in (start, sat_add start (DAY_MS * 7)))
      else if period = ''monthly'' then
        (let days_since_epoch = (if int (now div DAY_MS) \<le> i64_max
                                 then int (now div DAY_MS) else i64_max);
             (year, month, _) = civil_from_days days_since_epoch;
             (next_year, next_month) =
               (if month = 12 then (sat_add_i64 year 1, 1) else (year, month + 1))
         in (millis_from_civil year month 1, millis_from_civil next_year next_month 1))
      else (now, sat_add now DAY_MS))"

section \<open>Division\<close>

lemma tdiv_nonneg: "0 \<le> a \<Longrightarrow> 0 < b \<Longrightarrow> tdiv a b = a div b"
  by (cases "a = 0") (simp_all add: tdiv_def)

lemma tdiv_floor:
  assumes "0 < b" and c: "c = b - 1"
  shows "tdiv (if a \<ge> 0 then a else a - c) b = a div b"
proof (cases "a \<ge> 0")
  case True
  with assms show ?thesis by (simp add: tdiv_nonneg)
next
  case False
  have "a div b = - ((- a + (b - 1)) div b)"
  proof -
    have e: "a = b * (a div b) + a mod b" by simp
    have m: "0 \<le> a mod b" "a mod b < b" using assms by simp_all
    have "- a + (b - 1) = b * (- (a div b)) + (b - 1 - a mod b)"
      using e by (simp add: algebra_simps)
    then have "(- a + (b - 1)) div b = - (a div b)"
      by (rule int_div_pos_eq) (use m in auto)
    then show ?thesis by simp
  qed
  moreover have "tdiv (a - (b - 1)) b = - ((- a + (b - 1)) div b)"
    using False assms by (simp add: tdiv_def algebra_simps)
  ultimately show ?thesis using False c by simp
qed

section \<open>The year of an era\<close>

text \<open>Days from the start of an era (1 March of a year divisible by 400) to its year \<open>y\<close>.\<close>

definition year_start :: "int \<Rightarrow> int" where
  "year_start y = 365 * y + y div 4 - y div 100 + y div 400"

definition yoe_of :: "int \<Rightarrow> int" where
  "yoe_of d = (d - d div 1460 + d div 36524 - d div 146096) div 365"

lemma yoe_of_mono_step: "0 \<le> d \<Longrightarrow> yoe_of d \<le> yoe_of (d + 1)"
proof -
  assume "0 \<le> d"
  have "(d + 1) div 1460 \<le> (d + 1460) div 1460" by (simp add: zdiv_mono1)
  then have a: "(d + 1) div 1460 \<le> d div 1460 + 1" by simp
  have b: "d div 36524 \<le> (d + 1) div 36524" by (simp add: zdiv_mono1)
  have quarter: "e div 146096 = e div 36524 div 4" for e :: int
    by (simp add: zdiv_zmult2_eq [of 4 e 36524, simplified])
  have shift: "x \<le> x' \<Longrightarrow> x' div 4 \<le> x div 4 + (x' - x)" for x x' :: int by presburger
  have c: "(d + 1) div 146096 \<le> d div 146096 + ((d + 1) div 36524 - d div 36524)"
    unfolding quarter by (rule shift [OF b])
  have "d - d div 1460 + d div 36524 - d div 146096
      \<le> (d + 1) - (d + 1) div 1460 + (d + 1) div 36524 - (d + 1) div 146096"
    using a b c by linarith
  then show ?thesis unfolding yoe_of_def by (rule zdiv_mono1) simp
qed

lemma yoe_of_mono: "0 \<le> d \<Longrightarrow> d \<le> e \<Longrightarrow> yoe_of d \<le> yoe_of e"
proof (induction "nat (e - d)" arbitrary: e)
  case 0
  then show ?case by simp
next
  case (Suc n)
  then have "yoe_of d \<le> yoe_of (e - 1)" by (intro Suc.hyps) auto
  also have "\<dots> \<le> yoe_of e" using yoe_of_mono_step [of "e - 1"] Suc by simp
  finally show ?case .
qed

lemma yoe_of_endpoints:
  "list_all (\<lambda>y. yoe_of (year_start y) = y \<and> yoe_of (year_start (y + 1) - 1) = y) [0..399]"
  by code_simp

lemma year_start_step: "year_start y < year_start (y + 1)"
proof -
  have "y div 4 \<le> (y + 1) div 4" "y div 400 \<le> (y + 1) div 400" by (simp_all add: zdiv_mono1)
  moreover have "(y + 1) div 100 \<le> (y + 100) div 100" by (simp add: zdiv_mono1)
  then have "(y + 1) div 100 \<le> y div 100 + 1" by simp
  moreover have "a \<le> a' \<Longrightarrow> c \<le> c' \<Longrightarrow> b' \<le> b + 1 \<Longrightarrow>
      365 * y + a - b + c < 365 * (y + 1) + a' - b' + c'" for a a' b b' c c' :: int
    by simp
  ultimately show ?thesis unfolding year_start_def by blast
qed

lemma year_start_mono: "x \<le> y \<Longrightarrow> year_start x \<le> year_start y"
proof (induction "nat (y - x)" arbitrary: y)
  case 0
  then show ?case by simp
next
  case (Suc n)
  then have "year_start x \<le> year_start (y - 1)" by (intro Suc.hyps) auto
  with year_start_step [of "y - 1"] show ?case by simp
qed

lemma year_start_bracket:
  assumes "0 \<le> d" "d < 146097"
  shows "\<exists>y. 0 \<le> y \<and> y \<le> 399 \<and> year_start y \<le> d \<and> d < year_start (y + 1)"
proof -
  define P where "P n \<longleftrightarrow> d < year_start (int n)" for n :: nat
  have "P 400" using assms by (simp add: P_def year_start_def)
  define n where "n = (LEAST n. P n)"
  have Pn: "P n" unfolding n_def using \<open>P 400\<close> by (rule LeastI)
  have "\<not> P 0" using assms by (simp add: P_def year_start_def)
  with Pn have "n \<noteq> 0" by (cases "n = 0") simp_all
  have "n \<le> 400" unfolding n_def using \<open>P 400\<close> by (rule Least_le)
  have "\<not> P (n - 1)" unfolding n_def by (rule not_less_Least) (use \<open>n \<noteq> 0\<close> n_def in simp)
  then show ?thesis
    using Pn \<open>n \<noteq> 0\<close> \<open>n \<le> 400\<close>
    by (intro exI [of _ "int n - 1"]) (auto simp: P_def of_nat_diff not_less)
qed

lemma yoe_of_unique:
  assumes "0 \<le> y" "y \<le> 399" "year_start y \<le> d" "d < year_start (y + 1)"
  shows "yoe_of d = y"
proof -
  have "0 \<le> year_start y" using assms(1) year_start_mono [of 0 y] by (simp add: year_start_def)
  have "yoe_of (year_start y) = y" "yoe_of (year_start (y + 1) - 1) = y"
    using yoe_of_endpoints assms(1,2) by (auto simp: list_all_iff)
  moreover have "yoe_of (year_start y) \<le> yoe_of d"
    using assms \<open>0 \<le> year_start y\<close> by (intro yoe_of_mono) auto
  moreover have "yoe_of d \<le> yoe_of (year_start (y + 1) - 1)"
    using assms \<open>0 \<le> year_start y\<close> by (intro yoe_of_mono) auto
  ultimately show ?thesis by simp
qed

lemma yoe_of_bracket:
  assumes "0 \<le> d" "d < 146097"
  shows "0 \<le> yoe_of d \<and> yoe_of d \<le> 399 \<and> year_start (yoe_of d) \<le> d \<and> d < year_start (yoe_of d + 1)"
  using year_start_bracket [OF assms] yoe_of_unique by blast

section \<open>Civil dates\<close>

definition leap_year :: "int \<Rightarrow> bool" where
  "leap_year y \<longleftrightarrow> y mod 4 = 0 \<and> (y mod 100 \<noteq> 0 \<or> y mod 400 = 0)"

definition days_in_month :: "int \<Rightarrow> int \<Rightarrow> int" where
  "days_in_month y m =
     (if m \<in> {4, 6, 9, 11} then 30
      else if m = 2 then if leap_year y then 29 else 28
      else 31)"

lemma div_succ:
  fixes y k :: int
  assumes "0 < k"
  shows "(y + 1) div k = y div k + (if (y + 1) mod k = 0 then 1 else 0)"
proof (cases "y mod k = k - 1")
  case True
  have y: "y + 1 = k * (y div k + 1) + 0"
    using mult_div_mod_eq [of k y] True by (simp add: algebra_simps)
  have "(y + 1) div k = y div k + 1" by (rule int_div_pos_eq [OF y]) (use assms in auto)
  moreover have "(y + 1) mod k = 0" using y by (metis add.right_neutral mod_mult_self1_is_0)
  ultimately show ?thesis by simp
next
  case False
  have r: "0 \<le> y mod k" "y mod k + 1 < k" 
    using assms False pos_mod_bound [OF assms, of y] pos_mod_sign [OF assms, of y] by linarith+
  have y: "y + 1 = k * (y div k) + (y mod k + 1)" using mult_div_mod_eq [of k y] by simp
  have "(y + 1) div k = y div k" by (rule int_div_pos_eq [OF y]) (use r in auto)
  moreover have "(y + 1) mod k = y mod k + 1" by (rule int_mod_pos_eq [OF y]) (use r in auto)
  ultimately show ?thesis using r by simp
qed

lemma leap_year_period: "leap_year (y + 400 * e) \<longleftrightarrow> leap_year y"
proof -
  have e4: "400 * e = 4 * (100 * e)" and e100: "400 * e = 100 * (4 * e)" by simp_all
  have "(y + 400 * e) mod 4 = y mod 4" by (simp only: e4 mod_mult_self2)
  moreover have "(y + 400 * e) mod 100 = y mod 100" by (simp only: e100 mod_mult_self2)
  moreover have "(y + 400 * e) mod 400 = y mod 400" by (simp only: mod_mult_self2)
  ultimately show ?thesis by (simp only: leap_year_def)
qed

lemma year_length:
  assumes "0 \<le> y" "y \<le> 399"
  shows "year_start (y + 1) = year_start y + 365 + (if leap_year (y + 1) then 1 else 0)"
proof -
  have up: "(y + 1) mod k = 0" if "(y + 1) mod l = 0" "k dvd l" for k l :: int
    using dvd_trans [OF that(2) mod_0_imp_dvd [OF that(1)]] by (rule dvd_imp_mod_0)
  have d100: "(y + 1) mod 100 = 0 \<longrightarrow> (y + 1) mod 4 = 0" by (rule impI, erule up) simp
  have d400: "(y + 1) mod 400 = 0 \<longrightarrow> (y + 1) mod 100 = 0" by (rule impI, erule up) simp
  have key: "a' = a + (if p then 1 else 0) \<Longrightarrow> b' = b + (if q then 1 else 0) \<Longrightarrow>
      c' = c + (if r then 1 else 0) \<Longrightarrow> (q \<longrightarrow> p) \<Longrightarrow> (r \<longrightarrow> q) \<Longrightarrow>
      365 * (y + 1) + a' - b' + c' =
        365 * y + a - b + c + 365 + (if p \<and> (\<not> q \<or> r) then 1 else 0)"
    for a a' b b' c c' :: int and p q r
    by (cases p; cases q; cases r) simp_all
  show ?thesis
    unfolding year_start_def leap_year_def
    by (rule key [OF div_succ div_succ div_succ d100 d400]) simp_all
qed

lemma era_split: "0 \<le> z mod 146097 \<and> z mod 146097 < 146097 \<and> z = z div 146097 * 146097 + z mod 146097" for z :: int
  by simp

text \<open>The normal form of a day number: its era, its year of the era, its day of that year.\<close>

definition no_overflow :: "int \<Rightarrow> bool" where
  "no_overflow d \<longleftrightarrow> - 4611686018427387904 \<le> d \<and> d \<le> 4611686018427387904"

definition civil_of :: "int \<Rightarrow> int \<Rightarrow> int \<Rightarrow> int \<times> int \<times> int" where
  "civil_of era yoe doy =
     (let mp = (5 * doy + 2) div 153; month = mp + (if mp < 10 then 3 else - 9)
      in (yoe + era * 400 + (if month \<le> 2 then 1 else 0), month, doy - (153 * mp + 2) div 5 + 1))"

lemma year_start_small: "0 \<le> y \<Longrightarrow> y \<le> 399 \<Longrightarrow> year_start y = 365 * y + y div 4 - y div 100"
  by (simp add: year_start_def)

lemma civil_from_days_normal:
  assumes "no_overflow d"
  obtains era yoe doy where
    "d + 719468 = era * 146097 + year_start yoe + doy" "0 \<le> yoe" "yoe \<le> 399" "0 \<le> doy"
    "doy < year_start (yoe + 1) - year_start yoe" "civil_from_days d = civil_of era yoe doy"
proof -
  define z where "z = d + 719468"
  have z: "sat_add_i64 d 719468 = z"
    using assms by (simp add: sat_add_i64_def no_overflow_def z_def i64_max_def i64_min_def)
  define era where "era = z div 146097"
  define doe where "doe = z mod 146097"
  define yoe where "yoe = yoe_of doe"
  define doy where "doy = doe - year_start yoe"
  have era: "tdiv (if z \<ge> 0 then z else z - 146096) 146097 = era"
    unfolding era_def by (rule tdiv_floor) simp_all
  have doe: "z - era * 146097 = doe" "0 \<le> doe" "doe < 146097"
    by (simp_all add: era_def doe_def minus_div_mult_eq_mod)
  note br = yoe_of_bracket [OF doe(2,3), folded yoe_def]
  have doy: "0 \<le> doy" "doy < year_start (yoe + 1) - year_start yoe" using br by (simp_all add: doy_def)
  have q: "0 \<le> doe - doe div 1460 + doe div 36524 - doe div 146096"
  proof -
    have a: "doe div 1460 \<le> doe" using zdiv_mono2 [of doe 1 1460] doe(2) by simp
    have b: "doe div 146096 \<le> doe div 36524" by (rule zdiv_mono2) (use doe(2) in simp_all)
    have "x \<le> doe \<Longrightarrow> w \<le> y \<Longrightarrow> 0 \<le> doe - x + y - w" for x y w :: int by simp
    then show ?thesis using a b by blast
  qed
  have yoe: "tdiv (doe - tdiv doe 1460 + tdiv doe 36524 - tdiv doe 146096) 365 = yoe"
    using doe(2) q by (simp add: tdiv_nonneg yoe_def yoe_of_def)
  have doy_eq: "doe - (365 * yoe + tdiv yoe 4 - tdiv yoe 100) = doy"
    using br by (simp add: tdiv_nonneg doy_def year_start_small)
  have mp: "tdiv (5 * doy + 2) 153 = (5 * doy + 2) div 153" using doy by (simp add: tdiv_nonneg)
  have mp0: "0 \<le> (5 * doy + 2) div 153" using doy by (simp add: pos_imp_zdiv_nonneg_iff)
  have md: "tdiv (153 * ((5 * doy + 2) div 153) + 2) 5 = (153 * ((5 * doy + 2) div 153) + 2) div 5"
    using mp0 by (intro tdiv_nonneg) simp_all
  have "civil_from_days d = civil_of era yoe doy"
    unfolding civil_from_days_def civil_of_def Let_def z era doe(1) yoe doy_eq mp md by simp
  moreover have "d + 719468 = era * 146097 + year_start yoe + doy"
    using era_split [of z] by (simp add: doy_def doe_def era_def z_def)
  ultimately show ?thesis using that br doy by blast
qed

lemma days_from_civil_normal:
  assumes "1 \<le> m" "m \<le> 12"
  shows "days_from_civil y m d =
    (let y' = y - (if m \<le> 2 then 1 else 0)
     in y' div 400 * 146097 + year_start (y' mod 400)
        + (153 * (m + (if m > 2 then - 3 else 9)) + 2) div 5 + d - 1 - 719468)"
proof -
  define y' where "y' = y - (if m \<le> 2 then 1 else 0)"
  have era: "tdiv (if y' \<ge> 0 then y' else y' - 399) 400 = y' div 400"
    by (rule tdiv_floor) simp_all
  have yoe: "y' - y' div 400 * 400 = y' mod 400" "0 \<le> y' mod 400" "y' mod 400 \<le> 399"
    using pos_mod_bound [of 400 y'] by (simp_all add: minus_div_mult_eq_mod)
  have md: "tdiv (153 * (m + (if m > 2 then - 3 else 9)) + 2) 5
      = (153 * (m + (if m > 2 then - 3 else 9)) + 2) div 5"
    using assms by (intro tdiv_nonneg) auto
  have "y' mod 400 * 365 + tdiv (y' mod 400) 4 - tdiv (y' mod 400) 100 = year_start (y' mod 400)"
    using yoe by (simp add: tdiv_nonneg year_start_small)
  then show ?thesis
    unfolding days_from_civil_def Let_def y'_def [symmetric] era yoe(1) md by simp
qed

section \<open>Months\<close>

text \<open>First day, within a year that starts in March, of the \<open>k\<close>-th month.\<close>

definition month_start :: "int \<Rightarrow> int" where
  "month_start k = (153 * k + 2) div 5"

definition month_index :: "int \<Rightarrow> int" where
  "month_index m = m + (if m > 2 then - 3 else 9)"

lemma div_bracket:
  fixes x k q :: int
  assumes "0 < k"
  shows "x div k = q \<longleftrightarrow> k * q \<le> x \<and> x < k * q + k"
proof
  assume "x div k = q"
  then show "k * q \<le> x \<and> x < k * q + k"
    using mult_div_mod_eq [of k x] pos_mod_bound [OF assms, of x] pos_mod_sign [OF assms, of x]
    by auto
next
  assume b: "k * q \<le> x \<and> x < k * q + k"
  have "x = k * q + (x - k * q)" by simp
  then show "x div k = q" by (rule int_div_pos_eq) (use b in auto)
qed

lemma month_start_bounds: "5 * month_start k \<le> 153 * k + 2 \<and> 153 * k + 2 < 5 * month_start k + 5"
  using div_bracket [of 5 "153 * k + 2" "month_start k"] by (simp add: month_start_def)

lemma month_start_bracket:
  assumes "(5 * doy + 2) div 153 = mp"
  shows "month_start mp \<le> doy \<and> doy < month_start (mp + 1)"
proof -
  have "153 * mp \<le> 5 * doy + 2 \<and> 5 * doy + 2 < 153 * mp + 153"
    using assms by (simp add: div_bracket)
  with month_start_bounds [of mp] month_start_bounds [of "mp + 1"] show ?thesis by auto
qed

lemma month_start_unique:
  assumes "month_start k \<le> doy" "doy < month_start (k + 1)"
  shows "(5 * doy + 2) div 153 = k"
  using assms month_start_bounds [of k] month_start_bounds [of "k + 1"]
  by (simp add: div_bracket)

lemma month_of_day_range:
  fixes doy :: int
  assumes "0 \<le> doy" "doy \<le> 365"
  shows "0 \<le> (5 * doy + 2) div 153 \<and> (5 * doy + 2) div 153 \<le> 11"
proof -
  define mp where "mp = (5 * doy + 2) div 153"
  have "153 * mp \<le> 5 * doy + 2 \<and> 5 * doy + 2 < 153 * mp + 153"
    using mp_def [symmetric] by (simp add: div_bracket)
  with assms have "0 \<le> mp \<and> mp \<le> 11" by auto
  then show ?thesis by (simp only: mp_def)
qed

lemma month_start_table:
  "month_start 0 = 0" "month_start 1 = 31" "month_start 2 = 61" "month_start 3 = 92"
  "month_start 4 = 122" "month_start 5 = 153" "month_start 6 = 184" "month_start 7 = 214"
  "month_start 8 = 245" "month_start 9 = 275" "month_start 10 = 306" "month_start 11 = 337"
  "month_start 12 = 367"
  by (simp_all add: month_start_def)

lemma civil_months:
  "m \<in> {1..12::int} \<longleftrightarrow> m \<in> {1,2,3,4,5,6,7,8,9,10,11,12}"
  by (simp, presburger)

lemma month_length:
  assumes "m \<in> {1..12}" "m \<noteq> 2"
  shows "month_start (month_index m + 1) = month_start (month_index m) + days_in_month y m \<and>
    0 \<le> month_start (month_index m) \<and> month_start (month_index m + 1) \<le> 337"
proof -
  from assms(1) have "m \<in> {1,2,3,4,5,6,7,8,9,10,11,12}" by (simp only: civil_months)
  with assms(2) show ?thesis
    by (elim insertE) (simp_all add: days_in_month_def month_index_def month_start_table)
qed

definition year_abs :: "int \<Rightarrow> int" where
  "year_abs y = y div 400 * 146097 + year_start (y mod 400)"

lemma year_abs_of: "0 \<le> yoe \<Longrightarrow> yoe \<le> 399 \<Longrightarrow> year_abs (yoe + era * 400) = era * 146097 + year_start yoe"
  by (simp add: year_abs_def)

lemma year_abs_succ: "year_abs (y + 1) = year_abs y + 365 + (if leap_year (y + 1) then 1 else 0)"
proof -
  define e where "e = y div 400"
  define r where "r = y mod 400"
  have y: "y = r + e * 400" by (simp add: e_def r_def)
  have r: "0 \<le> r" "r \<le> 399" using pos_mod_bound [of 400 y] by (simp_all add: r_def)
  have leap: "leap_year (y + 1) \<longleftrightarrow> leap_year (r + 1)"
    using leap_year_period [of "r + 1" e] y by (simp add: algebra_simps)
  have len: "year_start (r + 1) = year_start r + 365 + (if leap_year (r + 1) then 1 else 0)"
    by (rule year_length [OF r])
  show ?thesis
  proof (cases "r = 399")
    case True
    then have "year_abs (y + 1) = (e + 1) * 146097"
      using year_abs_of [of 0 "e + 1"] y by (simp add: year_start_def algebra_simps)
    moreover have "year_abs y = e * 146097 + year_start 399" using year_abs_of [OF r] y True by simp
    ultimately show ?thesis using True leap by (simp add: year_start_def leap_year_def)
  next
    case False
    then have "year_abs (y + 1) = e * 146097 + year_start (r + 1)"
      using year_abs_of [of "r + 1" e] y r by (simp add: algebra_simps)
    moreover have "year_abs y = e * 146097 + year_start r" using year_abs_of [OF r] y by simp
    ultimately show ?thesis using leap len by simp
  qed
qed

lemma days_from_civil_eq:
  assumes "m \<in> {1..12}"
  shows "days_from_civil y m d =
    year_abs (y - (if m \<le> 2 then 1 else 0)) + month_start (month_index m) + d - 1 - 719468"
  using assms days_from_civil_normal [of m y d]
  by (simp add: Let_def year_abs_def month_start_def month_index_def)

definition next_month :: "int \<Rightarrow> int \<Rightarrow> int \<times> int" where
  "next_month y m = (if m = 12 then (y + 1, 1) else (y, m + 1))"

lemma next_month_first:
  assumes "m \<in> {1..12}" "next_month y m = (y', m')"
  shows "days_from_civil y' m' 1 = days_from_civil y m 1 + days_in_month y m"
proof -
  from assms have m': "m' \<in> {1..12}" by (auto simp: next_month_def split: if_splits)
  have feb: "year_abs y = year_abs (y - 1) + 365 + (if leap_year y then 1 else 0)"
    using year_abs_succ [of "y - 1"] by simp
  show ?thesis
  proof (cases "m = 2")
    case True
    with assms(2) feb show ?thesis
      unfolding days_from_civil_eq [OF m'] days_from_civil_eq [OF assms(1)]
      by (simp add: next_month_def month_index_def month_start_table days_in_month_def split: if_splits)
  next
    case False
    with assms month_length [OF assms(1) False, of y] show ?thesis
      unfolding days_from_civil_eq [OF m'] days_from_civil_eq [OF assms(1)]
      by (auto simp: next_month_def month_index_def month_start_table split: if_splits)
  qed
qed

section \<open>Round trips\<close>

lemma year_length_bounds:
  assumes "0 \<le> yoe" "yoe \<le> 399"
  shows "year_start (yoe + 1) - year_start yoe \<le> 366"
  using year_length [OF assms] by simp

lemma civil_of_alt:
  assumes "(5 * doy + 2) div 153 = mp"
  shows "civil_of era yoe doy =
      (let month = mp + (if mp < 10 then 3 else - 9)
       in (yoe + era * 400 + (if month \<le> 2 then 1 else 0), month, doy - month_start mp + 1))"
  by (simp only: civil_of_def Let_def assms month_start_def)

lemma civil_of_month:
  assumes "0 \<le> doy" "doy \<le> 365" "civil_of era yoe doy = (y, m, d)"
  shows "m \<in> {1..12} \<and> month_index m = (5 * doy + 2) div 153 \<and>
    y - (if m \<le> 2 then 1 else 0) = yoe + era * 400 \<and>
    d = doy - month_start (month_index m) + 1"
proof -
  define mp where "mp = (5 * doy + 2) div 153"
  have mp: "0 \<le> mp" "mp \<le> 11" using month_of_day_range [OF assms(1,2)] by (simp_all add: mp_def)
  note c = civil_of_alt [OF mp_def [symmetric]]
  show ?thesis
    unfolding mp_def [symmetric]
    using assms(3) mp unfolding c by (cases "mp < 10") (auto simp: month_index_def)
qed

lemma days_of_civil:
  assumes "no_overflow n"
  shows "(case civil_from_days n of (y, m, d) \<Rightarrow> days_from_civil y m d) = n"
proof -
  obtain era yoe doy where n: "n + 719468 = era * 146097 + year_start yoe + doy"
    and yoe: "0 \<le> yoe" "yoe \<le> 399" and doy: "0 \<le> doy" "doy < year_start (yoe + 1) - year_start yoe"
    and c: "civil_from_days n = civil_of era yoe doy"
    using civil_from_days_normal [OF assms] .
  obtain y m d where ymd: "civil_of era yoe doy = (y, m, d)" by (cases "civil_of era yoe doy")
  have "doy \<le> 365" using doy year_length_bounds [OF yoe] by simp
  note cm = civil_of_month [OF doy(1) this ymd]
  have "days_from_civil y m d = year_abs (yoe + era * 400) + doy - 719468"
    using cm days_from_civil_eq [of m y d] by simp
  then show ?thesis using year_abs_of [OF yoe, of era] n by (simp add: c ymd)
qed

lemma civil_of_unique:
  assumes "no_overflow n" "0 \<le> yoe" "yoe \<le> 399" "0 \<le> doy"
    and "doy < year_start (yoe + 1) - year_start yoe"
    and n: "n + 719468 = era * 146097 + year_start yoe + doy"
  shows "civil_from_days n = civil_of era yoe doy"
proof -
  obtain era' yoe' doy' where n': "n + 719468 = era' * 146097 + year_start yoe' + doy'"
    and yoe': "0 \<le> yoe'" "yoe' \<le> 399"
    and doy': "0 \<le> doy'" "doy' < year_start (yoe' + 1) - year_start yoe'"
    and c: "civil_from_days n = civil_of era' yoe' doy'"
    using civil_from_days_normal [OF assms(1)] .
  have range: "0 \<le> year_start y + k \<and> year_start y + k < 146097"
    if "0 \<le> y" "y \<le> 399" "0 \<le> k" "k < year_start (y + 1) - year_start y" for y k
  proof -
    have "year_start 0 \<le> year_start y" "year_start (y + 1) \<le> year_start 400"
      using that by (auto intro: year_start_mono)
    moreover have "year_start 0 = 0" "year_start 400 = 146097" by (simp_all add: year_start_def)
    ultimately show ?thesis using that by auto
  qed
  define doe doe' where "doe = year_start yoe + doy" and "doe' = year_start yoe' + doy'"
  have b: "0 \<le> doe \<and> doe < 146097" "0 \<le> doe' \<and> doe' < 146097"
    using range assms(2-5) yoe' doy' by (auto simp: doe_def doe'_def)
  have "146097 * era + doe = 146097 * era' + doe'"
    using n n' by (simp add: doe_def doe'_def)
  moreover have "(146097 * era + doe) div 146097 = era" by (rule int_div_pos_eq [OF refl]) (use b in auto)
  moreover have "(146097 * era' + doe') div 146097 = era'" by (rule int_div_pos_eq [OF refl]) (use b in auto)
  ultimately have e: "era = era'" "doe = doe'" by simp_all
  have "yoe_of doe = yoe" by (rule yoe_of_unique) (use assms in \<open>auto simp: doe_def\<close>)
  moreover have "yoe_of doe' = yoe'" by (rule yoe_of_unique) (use yoe' doy' in \<open>auto simp: doe'_def\<close>)
  ultimately have "yoe = yoe'" using e by simp
  with e show ?thesis by (simp add: c doe_def doe'_def)
qed

definition valid_date :: "int \<Rightarrow> int \<Rightarrow> int \<Rightarrow> bool" where
  "valid_date y m d \<longleftrightarrow> 1 \<le> m \<and> m \<le> 12 \<and> 1 \<le> d \<and> d \<le> days_in_month y m"

lemma month_day_in_year:
  assumes "valid_date y m d"
  shows "month_start (month_index m) \<le> month_start (month_index m) + d - 1 \<and>
    month_start (month_index m) + d - 1 < month_start (month_index m + 1) \<and>
    month_start (month_index m) + d - 1 < 365 + (if m \<le> 2 \<and> leap_year y then 1 else 0) \<and>
    0 \<le> month_start (month_index m) + d - 1"
proof -
  from assms have m: "m \<in> {1..12}" by (simp add: valid_date_def)
  show ?thesis
  proof (cases "m = 2")
    case True
    with assms show ?thesis
      by (simp add: valid_date_def days_in_month_def month_index_def month_start_table split: if_splits)
  next
    case False
    with assms month_length [OF m False, of y] show ?thesis by (simp add: valid_date_def)
  qed
qed

lemma civil_of_days:
  assumes v: "valid_date y m d" and nov: "no_overflow (days_from_civil y m d)"
  shows "civil_from_days (days_from_civil y m d) = (y, m, d)"
proof -
  define y' where "y' = y - (if m \<le> 2 then 1 else 0)"
  define era yoe where "era = y' div 400" and "yoe = y' mod 400"
  define doy where "doy = month_start (month_index m) + d - 1"
  have y': "y' = yoe + era * 400" by (simp add: era_def yoe_def)
  have yoe: "0 \<le> yoe" "yoe \<le> 399" using pos_mod_bound [of 400 y'] by (simp_all add: yoe_def)
  have m: "m \<in> {1..12}" using v by (simp add: valid_date_def)
  have leap: "m \<le> 2 \<Longrightarrow> leap_year (yoe + 1) \<longleftrightarrow> leap_year y"
    using leap_year_period [of "yoe + 1" era] y' y'_def by (simp add: algebra_simps)
  have doy: "0 \<le> doy" "doy < year_start (yoe + 1) - year_start yoe"
    using month_day_in_year [OF v] year_length [OF yoe] leap
    by (auto simp: doy_def split: if_splits)
  have n: "days_from_civil y m d + 719468 = era * 146097 + year_start yoe + doy"
    using days_from_civil_eq [OF m, of y d] year_abs_of [OF yoe, of era] y' y'_def by (simp add: doy_def)
  have "civil_from_days (days_from_civil y m d) = civil_of era yoe doy"
    by (rule civil_of_unique [OF nov yoe doy n])
  moreover have mi: "(5 * doy + 2) div 153 = month_index m"
    using month_day_in_year [OF v] by (intro month_start_unique) (auto simp: doy_def)
  have "civil_of era yoe doy = (y, m, d)"
    using m y' y'_def unfolding civil_of_alt [OF mi]
    by (cases "m > 2") (auto simp: month_index_def doy_def)
  ultimately show ?thesis by simp
qed

lemma civil_valid:
  assumes "no_overflow n" "civil_from_days n = (y, m, d)"
  shows "valid_date y m d"
proof -
  obtain era yoe doy where yoe: "0 \<le> yoe" "yoe \<le> 399"
    and doy: "0 \<le> doy" "doy < year_start (yoe + 1) - year_start yoe"
    and c: "civil_of era yoe doy = (y, m, d)"
    using civil_from_days_normal [OF assms(1)] assms(2) by metis
  have le: "doy \<le> 365" using doy year_length_bounds [OF yoe] by simp
  note cm = civil_of_month [OF doy(1) le c]
  have br: "month_start (month_index m) \<le> doy \<and> doy < month_start (month_index m + 1)"
    using cm month_start_bracket [of doy "month_index m"] by simp
  have leap: "m \<le> 2 \<Longrightarrow> leap_year (yoe + 1) \<longleftrightarrow> leap_year y"
    using cm leap_year_period [of "yoe + 1" era] by (simp add: algebra_simps)
  show ?thesis
  proof (cases "m = 2")
    case True
    with cm br doy year_length [OF yoe] leap show ?thesis
      by (simp add: valid_date_def days_in_month_def month_index_def month_start_table split: if_splits)
  next
    case False
    with cm br month_length [of m y] show ?thesis by (simp add: valid_date_def)
  qed
qed

section \<open>Periods\<close>

definition in_clock_range :: "u64 \<Rightarrow> bool" where
  "in_clock_range now \<longleftrightarrow> now + 31 * DAY_MS \<le> u64_max"

lemma DAY_MS_pos: "0 < DAY_MS"
  by (simp add: DAY_MS_def)

lemma clock_day_no_overflow: "in_clock_range now \<Longrightarrow> no_overflow (int (now div DAY_MS) + k)"
  if "\<bar>k\<bar> \<le> 1000" for k
proof -
  assume "in_clock_range now"
  then have "now \<le> u64_max" by (simp add: in_clock_range_def)
  then have "now div DAY_MS \<le> u64_max div DAY_MS" by (rule div_le_mono)
  then have "int (now div DAY_MS) \<le> 213503982334" by (simp add: u64_max_def DAY_MS_def)
  moreover have "0 \<le> int (now div DAY_MS)" by simp
  ultimately show ?thesis using that unfolding no_overflow_def by linarith
qed

lemma month_day_shift:
  assumes "m \<in> {1..12}"
  shows "days_from_civil y m (d + k) = days_from_civil y m d + k"
  using days_from_civil_eq [OF assms] by simp

lemma epoch_civil: "civil_from_days 0 = (1970, 1, 1)"
  by code_simp

lemma days_in_month_bounds: "28 \<le> days_in_month y m \<and> days_in_month y m \<le> 31"
  by (simp add: days_in_month_def)

text \<open>The month of a day, as a half-open interval of day numbers.\<close>

lemma month_interval:
  assumes "no_overflow n" "no_overflow (n - 31)" "no_overflow (n + 31)" "0 \<le> n"
    and c: "civil_from_days n = (y, m, d)"
  shows "days_from_civil y m 1 = n - (d - 1)" (is ?A)
    and "0 \<le> days_from_civil y m 1" (is ?B)
    and "n < days_from_civil y m 1 + days_in_month y m" (is ?C)
    and "\<And>t. days_from_civil y m 1 \<le> t \<Longrightarrow> t < days_from_civil y m 1 + days_in_month y m \<Longrightarrow>
          civil_from_days t = (y, m, t - days_from_civil y m 1 + 1)"
proof -
  have v: "valid_date y m d" using civil_valid [OF assms(1) c] .
  then have m: "m \<in> {1..12}" by (simp add: valid_date_def)
  have "days_from_civil y m d = n" using days_of_civil [OF assms(1)] by (simp add: c)
  then show A: ?A using month_day_shift [OF m, of y 1 "d - 1"] by simp
  show ?C using A v by (simp add: valid_date_def)
  show D: "civil_from_days t = (y, m, t - days_from_civil y m 1 + 1)"
    if t: "days_from_civil y m 1 \<le> t" "t < days_from_civil y m 1 + days_in_month y m" for t
  proof -
    define k where "k = t - days_from_civil y m 1 + 1"
    have k: "valid_date y m k" using t v by (simp add: valid_date_def k_def)
    have tk: "days_from_civil y m k = t" using month_day_shift [OF m, of y 1 "k - 1"] by (simp add: k_def add.commute)
    have "no_overflow t"
      using assms(2,3) t A v days_in_month_bounds [of y m] by (simp add: no_overflow_def valid_date_def)
    then show ?thesis using civil_of_days [OF k] tk by (simp add: k_def)
  qed
  show ?B
  proof (rule ccontr)
    assume neg: "\<not> ?B"
    then have "civil_from_days 0 = (y, m, 0 - days_from_civil y m 1 + 1)"
      using \<open>?C\<close> assms(4) by (intro D) auto
    with epoch_civil neg show False by simp
  qed
qed

lemma civil_year_bound:
  assumes "no_overflow n" "0 \<le> n" "civil_from_days n = (y, m, d)"
  shows "y \<le> 400 * (n + 719468) + 400"
proof -
  obtain era yoe doy where n: "n + 719468 = era * 146097 + year_start yoe + doy"
    and yoe: "0 \<le> yoe" "yoe \<le> 399" and doy: "0 \<le> doy"
    and c: "civil_of era yoe doy = (y, m, d)"
    using civil_from_days_normal [OF assms(1)] assms(3) by metis
  have "0 \<le> year_start yoe" using year_start_mono [of 0 yoe] yoe by (simp add: year_start_def)
  then have "era * 146097 \<le> n + 719468" using n doy by simp
  then have "era \<le> n + 719468" using assms(2) by (cases "era \<le> 0") auto
  moreover have "y \<le> yoe + era * 400 + 1" using c by (auto simp: civil_of_def Let_def)
  ultimately show ?thesis using yoe by simp
qed

lemma u64_div_day: "t \<le> u64_max \<Longrightarrow> t div DAY_MS \<le> 213503982334"
  using div_le_mono [of t u64_max DAY_MS] by (simp add: u64_max_def DAY_MS_def)

lemma in_day_interval:
  "n * DAY_MS \<le> t \<and> t < k * DAY_MS \<longleftrightarrow> n \<le> t div DAY_MS \<and> t div DAY_MS < k"
  by (metis DAY_MS_pos div_less_iff_less_mult less_eq_div_iff_mult_less_eq)

lemma day_floor_le: "k \<le> t div DAY_MS \<Longrightarrow> k * DAY_MS \<le> t"
  using DAY_MS_pos by (simp add: less_eq_div_iff_mult_less_eq)

lemma daily_normal:
  "t \<le> u64_max \<Longrightarrow> current_period ''daily'' t = (t div DAY_MS * DAY_MS, sat_add (t div DAY_MS * DAY_MS) DAY_MS)"
  by (simp add: current_period_def day_start_def Let_def)

lemma weekly_normal:
  assumes "t \<le> u64_max" "4 \<le> t div DAY_MS"
  shows "current_period ''weekly'' t =
    (let s = (7 * ((t div DAY_MS + 3) div 7) - 3) * DAY_MS in (s, sat_add s (7 * DAY_MS)))"
proof -
  define n where "n = t div DAY_MS"
  have n: "n \<le> 213503982334" "4 \<le> n" using u64_div_day [OF assms(1)] assms(2) by (simp_all add: n_def)
  have wd: "sat_add n 3 = n + 3" using n by (simp add: sat_add_def u64_max_def)
  have st: "n - (n + 3) mod 7 = 7 * ((n + 3) div 7) - 3"
    using n(2) by (metis add_diff_cancel_right diff_diff_left minus_mod_eq_mult_div add.commute)
  have "(7 * ((n + 3) div 7) - 3) * DAY_MS \<le> n * DAY_MS"
    by (rule mult_le_mono1) (use n st in \<open>metis diff_le_self\<close>)
  also have "\<dots> \<le> t" by (simp add: n_def)
  finally have "(7 * ((n + 3) div 7) - 3) * DAY_MS \<le> u64_max" using assms(1) by simp
  then show ?thesis
    by (simp add: current_period_def Let_def n_def [symmetric] wd st sat_mul_def min_absorb1 mult.commute)
qed

lemma monthly_normal:
  assumes "t \<le> u64_max" "civil_from_days (int (t div DAY_MS)) = (y, m, d)"
  shows "current_period ''monthly'' t =
    (millis_from_civil y m 1,
     case next_month y m of (y', m') \<Rightarrow> millis_from_civil y' m' 1)"
proof -
  define n where "n = t div DAY_MS"
  have n: "n \<le> 213503982334" using u64_div_day [OF assms(1)] by (simp add: n_def)
  have nov: "no_overflow (int n)" using n by (simp add: no_overflow_def)
  have "y \<le> 400 * (int n + 719468) + 400"
    by (rule civil_year_bound [OF nov]) (use assms(2) in \<open>simp_all add: n_def\<close>)
  moreover have "0 \<le> y"
  proof -
    obtain era yoe doy where e: "int n + 719468 = era * 146097 + year_start yoe + doy"
      and yoe: "0 \<le> yoe" "yoe \<le> 399" and doy: "doy < year_start (yoe + 1) - year_start yoe"
      and c: "civil_of era yoe doy = (y, m, d)"
      using civil_from_days_normal [OF nov] assms(2) unfolding n_def by metis
    have "year_start (yoe + 1) \<le> year_start 400" using yoe by (intro year_start_mono) simp
    then have "year_start yoe + doy < 146097" using doy by (simp add: year_start_def [of 400])
    then have "0 \<le> era" using e by (cases "era < 0") auto
    then show ?thesis using c yoe by (auto simp: civil_of_def Let_def)
  qed
  ultimately have "sat_add_i64 y 1 = y + 1"
    using n by (simp add: sat_add_i64_def i64_max_def i64_min_def)
  moreover have "int n \<le> i64_max" using n by (simp add: i64_max_def)
  ultimately show ?thesis
    using assms(2) by (simp add: current_period_def Let_def n_def [symmetric] next_month_def)
qed

definition covers :: "string \<Rightarrow> u64 \<Rightarrow> bool" where
  "covers period now \<longleftrightarrow>
     (let (start, stop) = current_period period now
      in start \<le> now \<and> now < stop
         \<and> (\<forall>t. start \<le> t \<and> t < stop \<longrightarrow> current_period period t = (start, stop)))"

lemma daily_covers: "in_clock_range now \<Longrightarrow> covers ''daily'' now"
proof -
  assume r: "in_clock_range now"
  define n where "n = now div DAY_MS"
  have le: "n * DAY_MS \<le> now" by (simp add: n_def)
  have now: "now \<le> u64_max" using r by (simp add: in_clock_range_def)
  have stop: "sat_add (n * DAY_MS) DAY_MS = (n + 1) * DAY_MS"
    using r le by (simp add: sat_add_def in_clock_range_def)
  have small: "(n + 1) * DAY_MS \<le> u64_max" using r le by (simp add: in_clock_range_def)
  have "current_period ''daily'' t = (n * DAY_MS, (n + 1) * DAY_MS)"
    if "n \<le> t div DAY_MS \<and> t div DAY_MS < n + 1" for t
  proof -
    have "t < (n + 1) * DAY_MS" using that in_day_interval by blast
    then have "t \<le> u64_max" using small by simp
    moreover have "t div DAY_MS = n" using that by simp
    ultimately show ?thesis using daily_normal [of t] stop by simp
  qed
  then show ?thesis unfolding covers_def
    using in_day_interval [of n _ "n + 1"] by (auto simp: n_def)
qed

lemma week_start_bounds:
  fixes n :: nat
  assumes "4 \<le> n"
  shows "7 * ((n + 3) div 7) \<le> n + 3 \<and> n + 3 < 7 * ((n + 3) div 7) + 7 \<and> 7 \<le> 7 * ((n + 3) div 7)"
proof -
  define q where "q = (n + 3) div 7"
  have "7 * q \<le> n + 3 \<and> n + 3 < 7 * q + 7" using nat_div_bracket [of 7 "n + 3" q] by (simp add: q_def)
  with assms show ?thesis by (simp add: q_def [symmetric])
qed

lemma week_of_day:
  fixes n k :: nat
  assumes "4 \<le> n"
  shows "7 * ((n + 3) div 7) - 3 \<le> k \<and> k < 7 * ((n + 3) div 7) - 3 + 7 \<longleftrightarrow> (k + 3) div 7 = (n + 3) div 7"
  using week_start_bounds [OF assms] unfolding nat_div_bracket [of 7, simplified] by linarith

lemma weekly_covers: "in_clock_range now \<Longrightarrow> 4 * DAY_MS \<le> now \<Longrightarrow> covers ''weekly'' now"
proof -
  assume r: "in_clock_range now" and late: "4 * DAY_MS \<le> now"
  define n where "n = now div DAY_MS"
  define s where "s = 7 * ((n + 3) div 7) - 3"
  have n: "4 \<le> n" using late DAY_MS_pos by (simp add: n_def less_eq_div_iff_mult_less_eq)
  then have s: "4 \<le> s" "s \<le> n" using week_start_bounds [OF n] unfolding s_def by linarith+
  then have le: "s * DAY_MS \<le> now" by (simp add: n_def day_floor_le)
  have stop: "sat_add (s * DAY_MS) (7 * DAY_MS) = (s + 7) * DAY_MS"
    using r le by (simp add: sat_add_def in_clock_range_def algebra_simps)
  have small: "(s + 7) * DAY_MS \<le> u64_max" using r le by (simp add: in_clock_range_def algebra_simps)
  have per: "current_period ''weekly'' t = (s * DAY_MS, (s + 7) * DAY_MS)"
    if "s \<le> t div DAY_MS \<and> t div DAY_MS < s + 7" for t
  proof -
    have "t < (s + 7) * DAY_MS" using that in_day_interval by blast
    then have "t \<le> u64_max" using small by simp
    moreover have "(t div DAY_MS + 3) div 7 = (n + 3) div 7"
      using that week_of_day [OF n] by (simp add: s_def)
    moreover have "4 \<le> t div DAY_MS" using that s by simp
    ultimately show ?thesis using weekly_normal [of t] stop by (simp add: Let_def s_def)
  qed
  have "s \<le> n \<and> n < s + 7" using week_of_day [OF n, of n] by (simp add: s_def)
  then show ?thesis unfolding covers_def
    using per in_day_interval [of s _ "s + 7"] by (auto simp: n_def)
qed

lemma monthly_covers: "in_clock_range now \<Longrightarrow> covers ''monthly'' now"
proof -
  assume r: "in_clock_range now"
  define n where "n = now div DAY_MS"
  obtain y m d where c: "civil_from_days (int n) = (y, m, d)" by (cases "civil_from_days (int n)")
  obtain y' m' where nm: "next_month y m = (y', m')" by (cases "next_month y m")
  have nov: "no_overflow (int n)" "no_overflow (int n - 31)" "no_overflow (int n + 31)"
    using clock_day_no_overflow [of 0 now] clock_day_no_overflow [of "- 31" now]
      clock_day_no_overflow [of 31 now] r by (simp_all add: n_def)
  note mi = month_interval [OF nov _ c, simplified]
  define a b where "a = days_from_civil y m 1" and "b = a + days_in_month y m"
  have m: "m \<in> {1..12}" using civil_valid [OF nov(1) c] by (simp add: valid_date_def)
  have nx: "days_from_civil y' m' 1 = b" using next_month_first [OF m nm] by (simp add: a_def b_def)
  have d1: "1 \<le> d" using civil_valid [OF nov(1) c] by (simp add: valid_date_def)
  have ab: "0 \<le> a" "a \<le> int n" "int n < b" "b \<le> a + 31"
    using mi days_in_month_bounds [of y m] d1 by (simp_all add: a_def b_def)
  have le: "nat a * DAY_MS \<le> now"
    using ab by (intro day_floor_le) (simp add: n_def)
  have small: "nat b * DAY_MS \<le> u64_max"
  proof -
    have "nat b \<le> nat a + 31" using ab by simp
    then have "nat b * DAY_MS \<le> (nat a + 31) * DAY_MS" by (rule mult_le_mono1)
    then show ?thesis using le r by (simp add: in_clock_range_def algebra_simps)
  qed
  have millis: "millis_from_civil y m 1 = nat a * DAY_MS" "millis_from_civil y' m' 1 = nat b * DAY_MS"
    using ab le small r nx
    by (simp_all add: millis_from_civil_def Let_def a_def [symmetric] sat_mul_def in_clock_range_def)
  have per: "current_period ''monthly'' t = (nat a * DAY_MS, nat b * DAY_MS)"
    if "nat a \<le> t div DAY_MS \<and> t div DAY_MS < nat b" for t
  proof -
    have "t < nat b * DAY_MS" using that in_day_interval by blast
    then have t: "t \<le> u64_max" using small by simp
    have u: "a \<le> int (t div DAY_MS)" "int (t div DAY_MS) < b" using that ab by (auto simp: nat_le_iff)
    have "civil_from_days (int (t div DAY_MS)) = (y, m, int (t div DAY_MS) - a + 1)"
      unfolding a_def by (rule month_interval(4) [OF nov _ c]) (use u in \<open>simp_all add: a_def b_def\<close>)
    then show ?thesis using monthly_normal [OF t] nm millis by simp
  qed
  have "nat a \<le> n \<and> n < nat b" using ab by (simp add: nat_le_iff)
  then show ?thesis unfolding covers_def
    using per in_day_interval [of "nat a" _ "nat b"] by (auto simp: n_def)
qed

section \<open>Properties\<close>

text \<open>
  C7: every supported quota period contains the instant it was computed for, and every
  instant of that period is assigned the same period, so quota windows partition time: no
  instant is charged to two windows and none falls between them.  The first days of 1970 are
  excluded: there the Monday of the week lies before the epoch and the subtraction saturates.
\<close>

theorem current_period_partitions_time:
  assumes "period = ''daily'' \<or> period = ''weekly'' \<or> period = ''monthly''"
    and "in_clock_range now" and "4 * DAY_MS \<le> now"
    and "current_period period now = (start, stop)"
  shows "start \<le> now \<and> now < stop
    \<and> (\<forall>t. start \<le> t \<and> t < stop \<longrightarrow> current_period period t = (start, stop))"
proof -
  have "covers period now"
    using assms(1) daily_covers [OF assms(2)] weekly_covers [OF assms(2,3)] monthly_covers [OF assms(2)]
    by blast
  then show ?thesis by (simp add: covers_def assms(4))
qed

lemma civil_date_examples:
  "civil_from_days 19782 = (2024, 2, 29)"
  "days_from_civil 2024 2 1 = 19754" "days_from_civil 2024 3 1 = 19783"
  "days_from_civil 2024 2 29 = 19782"
  by code_simp+

lemma monthly_period_example: "current_period ''monthly'' 1709251199999 = (1706745600000, 1709251200000)"
proof -
  have "(1709251199999::nat) div DAY_MS = 19782" by (simp add: DAY_MS_def)
  then show ?thesis
    by (simp add: current_period_def millis_from_civil_def civil_date_examples i64_max_def
        sat_mul_def u64_max_def DAY_MS_def)
qed

theorem current_period_partitions_time_witness:
  "in_clock_range 1709251199999 \<and>
   current_period ''monthly'' 1709251199999 = (1706745600000, 1709251200000) \<and>
   current_period ''monthly'' 1706745600000 = (1706745600000, 1709251200000)"
proof -
  have r: "in_clock_range 1709251199999" by (simp add: in_clock_range_def DAY_MS_def u64_max_def)
  have "(1706745600000::nat) \<le> 1706745600000 \<and> (1706745600000::nat) < 1709251200000" by simp
  then show ?thesis
    using current_period_partitions_time [OF _ r _ monthly_period_example] r monthly_period_example
    by (simp add: DAY_MS_def)
qed

text \<open>
  C8: the two civil-date conversions behind the monthly window are mutually inverse: on every
  day number that does not overflow, and on every valid date of the proleptic Gregorian
  calendar (with its own leap-year rule).
\<close>

theorem civil_date_round_trip:
  assumes "no_overflow n"
  shows "(case civil_from_days n of (y, m, d) \<Rightarrow> valid_date y m d \<and> days_from_civil y m d = n)
    \<and> (\<forall>y m d. valid_date y m d \<and> days_from_civil y m d = n \<longrightarrow> civil_from_days n = (y, m, d))"
proof (intro conjI allI impI)
  show "case civil_from_days n of (y, m, d) \<Rightarrow> valid_date y m d \<and> days_from_civil y m d = n"
    using days_of_civil [OF assms] civil_valid [OF assms] by (auto split: prod.splits)
  fix y m d
  assume "valid_date y m d \<and> days_from_civil y m d = n"
  then show "civil_from_days n = (y, m, d)" using civil_of_days assms by blast
qed

theorem civil_date_round_trip_witness:
  "no_overflow 19782 \<and> civil_from_days 19782 = (2024, 2, 29)"
proof -
  have n: "no_overflow 19782" by (simp add: no_overflow_def)
  have "valid_date 2024 2 29" by (simp add: valid_date_def days_in_month_def leap_year_def)
  then show ?thesis using civil_date_round_trip [OF n] n civil_date_examples(4) by blast
qed

end
