(* ===== verification/Domain.thy ===== *)
theory Domain
  imports App_Error
begin

text \<open>
  Identifiers and the request context, \<^verbatim>\<open>src/domain.rs\<close>.  The identifier newtypes are the
  strings they wrap; a fresh UUID is a parameter.
\<close>

definition valid_tenant_identifier :: "string \<Rightarrow> bool" where
  "valid_tenant_identifier value \<longleftrightarrow>
     value \<noteq> [] \<and> length value \<le> 128
     \<and> list_all (\<lambda>c. is_alnum c \<or> c \<in> {CHR ''.'', CHR ''_'', CHR '':'', CHR ''-''}) value"

definition request_id_from_external_or_new :: "string \<Rightarrow> string option \<Rightarrow> string" where
  "request_id_from_external_or_new uuid value =
     (case value of
        None \<Rightarrow> ''req_'' @ uuid
      | Some v \<Rightarrow>
          let v = trim v in if v \<noteq> [] \<and> length v \<le> 256 then v else ''req_'' @ uuid)"

record tenant_scope =
  ts_organization_id :: string
  ts_project_id :: string
  ts_environment_id :: string

definition legacy_local :: tenant_scope where
  "legacy_local =
     \<lparr> ts_organization_id = ''org_local'', ts_project_id = ''prj_default'',
       ts_environment_id = ''env_default'' \<rparr>"

datatype client_protocol = AnthropicMessages | OpenAiChatCompletions

primrec client_protocol_as_str :: "client_protocol \<Rightarrow> string" where
  "client_protocol_as_str AnthropicMessages = ''anthropic-messages''"
| "client_protocol_as_str OpenAiChatCompletions = ''openai-chat-completions''"

record request_context =
  rc_request_id :: string
  rc_tenant :: tenant_scope
  rc_principal_id :: string
  rc_protocol :: client_protocol

lemma tenant_identifier_no_slash: "valid_tenant_identifier v \<Longrightarrow> CHR ''/'' \<notin> set v"
  by (auto simp: valid_tenant_identifier_def list_all_iff char_class_defs)

end
