(* ===== verification/Net_Address.thy ===== *)
theory Net_Address
  imports Prelude "HOL-Library.Word"
begin

text \<open>
  The part of \<open>std::net\<close> that the sources use: \<open>IpAddr\<close>, its \<open>FromStr\<close> parser, its
  \<open>Display\<close> and its numeric value.  A parser takes the remaining bytes and returns a value with
  what is left; \<open>None\<close> restores the position, as \<open>read_atomically\<close> does.  The lemmas show that
  parsed addresses are well formed and that a displayed IPv4 address parses back.
\<close>

section \<open>Addresses\<close>

datatype ip_addr = V4 nat nat nat nat | V6 "nat list"

fun ip_wf :: "ip_addr \<Rightarrow> bool" where
  "ip_wf (V4 a b c d) = (a < 256 \<and> b < 256 \<and> c < 256 \<and> d < 256)"
| "ip_wf (V6 segments) = (length segments = 8 \<and> list_all (\<lambda>g. g < 65536) segments)"

fun ip_bits :: "ip_addr \<Rightarrow> 128 word" where
  "ip_bits (V4 a b c d) = of_nat (a * 2 ^ 24 + b * 2 ^ 16 + c * 2 ^ 8 + d)"
| "ip_bits (V6 segments) = of_nat (foldl (\<lambda>acc g. acc * 2 ^ 16 + g) 0 segments)"

fun is_v4 :: "ip_addr \<Rightarrow> bool" where
  "is_v4 (V4 _ _ _ _) = True"
| "is_v4 (V6 _) = False"

section \<open>Parsing\<close>

definition hex_val :: "char \<Rightarrow> nat option" where
  "hex_val c =
     (if is_digit c then Some (digit_val c)
      else if in_range 97 102 c then Some ((of_char c :: nat) - 87)
      else if in_range 65 70 c then Some ((of_char c :: nat) - 55)
      else None)"

definition dec_val :: "char \<Rightarrow> nat option" where
  "dec_val c = (if is_digit c then Some (digit_val c) else None)"

fun take_digits :: "(char \<Rightarrow> nat option) \<Rightarrow> string \<Rightarrow> nat list \<times> string" where
  "take_digits val [] = ([], [])"
| "take_digits val (c # s) =
     (case val c of
        None \<Rightarrow> ([], c # s)
      | Some d \<Rightarrow> (let (ds, r) = take_digits val s in (d # ds, r)))"

definition read_number ::
  "(char \<Rightarrow> nat option) \<Rightarrow> nat \<Rightarrow> nat \<Rightarrow> bool \<Rightarrow> nat \<Rightarrow> string \<Rightarrow> (nat \<times> string) option" where
  "read_number val radix max_digits allow_zero_prefix bound s =
     (let (ds, r) = take_digits val s;
          value = foldl (\<lambda>acc d. acc * radix + d) 0 ds
      in if length ds > max_digits then None
         else if ds = [] then None
         else if \<not> allow_zero_prefix \<and> hd ds = 0 \<and> length ds > 1 then None
         else if value \<le> bound then Some (value, r) else None)"

fun read_given_char :: "char \<Rightarrow> string \<Rightarrow> string option" where
  "read_given_char c [] = None"
| "read_given_char c (x # s) = (if x = c then Some s else None)"

definition read_separator :: "char \<Rightarrow> nat \<Rightarrow> (string \<Rightarrow> 'a option) \<Rightarrow> string \<Rightarrow> 'a option" where
  "read_separator sep index inner s =
     (if index > 0 then (case read_given_char sep s of None \<Rightarrow> None | Some r \<Rightarrow> inner r) else inner s)"

definition read_octet :: "nat \<Rightarrow> string \<Rightarrow> (nat \<times> string) option" where
  "read_octet index = read_separator CHR ''.'' index (read_number dec_val 10 3 False 255)"

definition read_ipv4_addr :: "string \<Rightarrow> ((nat \<times> nat \<times> nat \<times> nat) \<times> string) option" where
  "read_ipv4_addr s =
     Option.bind (read_octet 0 s) (\<lambda>(a, s1).
     Option.bind (read_octet 1 s1) (\<lambda>(b, s2).
     Option.bind (read_octet 2 s2) (\<lambda>(c, s3).
     Option.bind (read_octet 3 s3) (\<lambda>(d, s4). Some ((a, b, c, d), s4)))))"

text \<open>
  \<open>read_groups\<close> fills at most \<open>limit\<close> groups; the result is the groups read, whether they
  end in an embedded IPv4 address, and the rest of the input.
\<close>

function read_groups :: "nat \<Rightarrow> nat \<Rightarrow> string \<Rightarrow> nat list \<times> bool \<times> string" where
  "read_groups limit i s =
     (if i \<ge> limit then ([], False, s)
      else
        case (if i + 1 < limit then read_separator CHR '':'' i read_ipv4_addr s else None) of
          Some ((a, b, c, d), r) \<Rightarrow> ([a * 256 + b, c * 256 + d], True, r)
        | None \<Rightarrow>
          (case read_separator CHR '':'' i (read_number hex_val 16 4 True 65535) s of
             None \<Rightarrow> ([], False, s)
           | Some (g, r) \<Rightarrow>
               (let (gs, v4, r') = read_groups limit (i + 1) r in (g # gs, v4, r'))))"
  by pat_completeness auto
termination by (relation "measure (\<lambda>(limit, i, s). limit - i)") auto

declare read_groups.simps [simp del]

definition read_ipv6_addr :: "string \<Rightarrow> (ip_addr \<times> string) option" where
  "read_ipv6_addr s =
     (let (head, head_ipv4, r) = read_groups 8 0 s
      in if length head = 8 then Some (V6 head, r)
         else if head_ipv4 then None
         else Option.bind (read_given_char CHR '':'' r) (\<lambda>r1.
              Option.bind (read_given_char CHR '':'' r1) (\<lambda>r2.
                let (tail, _, r3) = read_groups (8 - (length head + 1)) 0 r2
                in Some (V6 (head @ replicate (8 - length head - length tail) 0 @ tail), r3))))"

definition parse_ip :: "string \<Rightarrow> ip_addr option" where
  "parse_ip s =
     (case (case read_ipv4_addr s of
              Some ((a, b, c, d), r) \<Rightarrow> Some (V4 a b c d, r)
            | None \<Rightarrow> read_ipv6_addr s) of
        None \<Rightarrow> None
      | Some (ip, r) \<Rightarrow> if r = [] then Some ip else None)"

section \<open>Display\<close>

definition hex_digit :: "nat \<Rightarrow> char" where
  "hex_digit d = (if d < 10 then char_of (48 + d) else char_of (87 + d))"

fun show_hex :: "nat \<Rightarrow> string" where
  "show_hex n = (if n < 16 then [hex_digit n] else show_hex (n div 16) @ [hex_digit (n mod 16)])"

declare show_hex.simps [simp del]

fun show_v4 :: "nat \<Rightarrow> nat \<Rightarrow> nat \<Rightarrow> nat \<Rightarrow> string" where
  "show_v4 a b c d = show_nat a @ ''.'' @ show_nat b @ ''.'' @ show_nat c @ ''.'' @ show_nat d"

text \<open>The longest run of zero segments, the first one among equals: (start, length).\<close>

fun zero_span :: "nat list \<Rightarrow> nat \<Rightarrow> nat \<times> nat \<Rightarrow> nat \<times> nat \<Rightarrow> nat \<times> nat" where
  "zero_span [] i longest current = longest"
| "zero_span (g # gs) i longest current =
     (if g = 0 then
        (let cur = (if snd current = 0 then (i, 1) else (fst current, snd current + 1))
         in zero_span gs (i + 1) (if snd cur > snd longest then cur else longest) cur)
      else zero_span gs (i + 1) longest (0, 0))"

fun fmt_subslice :: "nat list \<Rightarrow> string" where
  "fmt_subslice [] = []"
| "fmt_subslice [g] = show_hex g"
| "fmt_subslice (g # gs) = show_hex g @ '':'' @ fmt_subslice gs"

fun show_ip :: "ip_addr \<Rightarrow> string" where
  "show_ip (V4 a b c d) = show_v4 a b c d"
| "show_ip (V6 segments) =
     (if take 6 segments = [0, 0, 0, 0, 0, 65535] \<and> length segments = 8
      then ''::ffff:'' @ show_v4 (segments ! 6 div 256) (segments ! 6 mod 256)
             (segments ! 7 div 256) (segments ! 7 mod 256)
      else let (start, len) = zero_span segments 0 (0, 0) (0, 0)
           in if len > 1
              then fmt_subslice (take start segments) @ ''::'' @ fmt_subslice (drop (start + len) segments)
              else fmt_subslice segments)"

section \<open>Well-formedness of parsed addresses\<close>

lemma read_number_bound: "read_number val radix n z bound s = Some (v, r) \<Longrightarrow> v \<le> bound"
  by (auto simp: read_number_def Let_def split: prod.splits if_splits)

lemma read_separator_Some:
  "read_separator sep i inner s = Some x \<Longrightarrow> \<exists>s'. inner s' = Some x"
  by (auto simp: read_separator_def split: if_splits option.splits)

lemma read_octet_bound: "read_octet i s = Some (v, r) \<Longrightarrow> v < 256"
  unfolding read_octet_def by (force dest!: read_separator_Some read_number_bound)

lemma read_ipv4_addr_wf: "read_ipv4_addr s = Some ((a, b, c, d), r) \<Longrightarrow> ip_wf (V4 a b c d)"
  by (auto simp: read_ipv4_addr_def bind_eq_Some_conv dest!: read_octet_bound)

lemma read_groups_wf:
  "read_groups limit i s = (gs, v4, r) \<Longrightarrow>
   length gs \<le> limit - i \<and> list_all (\<lambda>g. g < 65536) gs"
proof (induction limit i s arbitrary: gs v4 r rule: read_groups.induct)
  case (1 limit i s)
  let ?v4 = "if i + 1 < limit then read_separator CHR '':'' i read_ipv4_addr s else None"
  let ?hex = "read_separator CHR '':'' i (read_number hex_val 16 4 True 65535) s"
  consider "i \<ge> limit"
    | (v4) a b c d r0 where "\<not> i \<ge> limit" "?v4 = Some ((a, b, c, d), r0)"
    | (none) "\<not> i \<ge> limit" "?v4 = None" "?hex = None"
    | (hex) g r0 where "\<not> i \<ge> limit" "?v4 = None" "?hex = Some (g, r0)"
    by (metis option.exhaust prod_cases5 surj_pair)
  then show ?case
  proof cases
    case 1
    with \<open>read_groups limit i s = (gs, v4, r)\<close> show ?thesis by (simp add: read_groups.simps [of limit i s])
  next
    case v4
    then have lim: "i + 1 < limit" by (auto split: if_splits)
    with v4 have "ip_wf (V4 a b c d)"
      by (auto dest!: read_separator_Some dest: read_ipv4_addr_wf simp del: ip_wf.simps)
    moreover have "gs = [a * 256 + b, c * 256 + d]"
      using "1.prems" v4 by (simp add: read_groups.simps [of limit i s])
    ultimately show ?thesis using lim by auto
  next
    case none
    with "1.prems" show ?thesis by (simp add: read_groups.simps [of limit i s])
  next
    case hex
    obtain gs' v' r' where rec: "read_groups limit (i + 1) r0 = (gs', v', r')" by (metis prod_cases3)
    have "g < 65536" using hex(3) by (force dest!: read_separator_Some read_number_bound)
    moreover have "gs = g # gs'"
      using "1.prems" hex rec by (simp add: read_groups.simps [of limit i s])
    moreover have "length gs' \<le> limit - (i + 1) \<and> list_all (\<lambda>g. g < 65536) gs'"
      using "1.IH" [OF hex(1,2,3) refl] rec by simp
    ultimately show ?thesis using hex(1) by auto
  qed
qed

lemma read_ipv6_addr_wf: "read_ipv6_addr s = Some (ip, r) \<Longrightarrow> ip_wf ip \<and> \<not> is_v4 ip"
proof -
  assume r6: "read_ipv6_addr s = Some (ip, r)"
  obtain h v r0 where h: "read_groups 8 0 s = (h, v, r0)" by (metis prod_cases3)
  note wh = read_groups_wf [OF h]
  show ?thesis
  proof (cases "length h = 8")
    case True
    with r6 h wh show ?thesis by (auto simp: read_ipv6_addr_def)
  next
    case False
    with r6 h obtain r2 where
      ip: "(let (tail, _, r3) = read_groups (8 - (length h + 1)) 0 r2
            in Some (V6 (h @ replicate (8 - length h - length tail) 0 @ tail), r3)) = Some (ip, r)"
      by (auto simp: read_ipv6_addr_def bind_eq_Some_conv split: if_splits)
    obtain t v' r3 where t: "read_groups (8 - (length h + 1)) 0 r2 = (t, v', r3)" by (metis prod_cases3)
    have "length t \<le> 7 - length h" "list_all (\<lambda>g. g < 65536) t" using read_groups_wf [OF t] by auto
    with ip t wh False show ?thesis by (auto simp: list_all_iff)
  qed
qed

lemma parse_ip_wf: "parse_ip s = Some ip \<Longrightarrow> ip_wf ip"
  by (auto simp: parse_ip_def simp del: ip_wf.simps split: option.splits prod.splits if_splits
      dest: read_ipv4_addr_wf read_ipv6_addr_wf)

section \<open>A displayed IPv4 address parses back\<close>

lemma take_digits_append:
  assumes "list_all (\<lambda>c. dec_val c \<noteq> None) ds" "r = [] \<or> dec_val (hd r) = None"
  shows "take_digits dec_val (ds @ r) = (map digit_val ds, r)"
  using assms
proof (induction ds)
  case Nil
  then show ?case by (cases r) auto
next
  case (Cons d ds)
  then have "take_digits dec_val (ds @ r) = (map digit_val ds, r)" by simp
  with Cons.prems show ?case by (auto simp: dec_val_def [of d] split: if_splits)
qed

lemma show_nat_octet:
  assumes "n < 256"
  shows "length (show_nat n) \<le> 3 \<and> (digit_val (hd (show_nat n)) = 0 \<longrightarrow> length (show_nat n) = 1)"
proof -
  consider "n < 10" | "10 \<le> n" "n < 100" | "100 \<le> n" "n < 256" using assms by linarith
  then show ?thesis
  proof cases
    case 1
    then show ?thesis by (simp add: show_nat.simps [of n])
  next
    case 2
    then have "n div 10 < 10" "0 < n div 10" by auto
    with 2 show ?thesis
      by (simp add: show_nat.simps [of n] show_nat.simps [of "n div 10"] digit_char_facts)
  next
    case 3
    then have h: "n div 10 div 10 < 10" "0 < n div 10 div 10" "\<not> n div 10 < 10" by auto
    with 3 show ?thesis
      by (simp add: show_nat.simps [of n] show_nat.simps [of "n div 10"]
          show_nat.simps [of "n div 10 div 10"] digit_char_facts)
  qed
qed

lemma digits_value_foldl: "foldl (\<lambda>acc d. acc * 10 + d) 0 (map digit_val s) = digits_value s"
proof -
  have "foldl (\<lambda>acc d. acc * 10 + d) x (map digit_val s) = foldl (\<lambda>acc c. acc * 10 + digit_val c) x s"
    for x by (induction s arbitrary: x) auto
  then show ?thesis by (simp add: digits_value_def)
qed

lemma read_number_octet:
  assumes "n < 256" "r = [] \<or> dec_val (hd r) = None"
  shows "read_number dec_val 10 3 False 255 (show_nat n @ r) = Some (n, r)"
proof -
  have ds: "list_all (\<lambda>c. dec_val c \<noteq> None) (show_nat n)" "show_nat n \<noteq> []"
      "digits_value (show_nat n) = n"
    using show_nat_digits [of n] by (auto simp: list_all_iff dec_val_def)
  have "take_digits dec_val (show_nat n @ r) = (map digit_val (show_nat n), r)"
    by (rule take_digits_append [OF ds(1) assms(2)])
  with ds show_nat_octet [OF assms(1)] assms(1) show ?thesis
    by (auto simp: read_number_def digits_value_foldl hd_map)
qed

lemma dot_not_digit: "dec_val CHR ''.'' = None"
  by (simp add: dec_val_def char_class_defs)

lemma parse_show_v4:
  assumes "ip_wf (V4 a b c d)"
  shows "parse_ip (show_ip (V4 a b c d)) = Some (V4 a b c d)"
proof -
  have "read_ipv4_addr (show_v4 a b c d) = Some ((a, b, c, d), [])"
    using assms read_number_octet [of d "[]"]
    by (simp add: read_ipv4_addr_def read_octet_def read_separator_def read_number_octet dot_not_digit)
  then show ?thesis by (simp add: parse_ip_def)
qed

end
