(* ===== verification/F64.thy ===== *)
theory F64
  imports Complex_Main Prelude
begin

text \<open>
  Rust's \<open>f64\<close>: IEEE 754 binary64 values with round-to-nearest-even arithmetic, executable over
  the rationals.  A finite value is the rational it denotes; the two zeros are one value, since
  nothing in the modelled sources tells them apart (no reciprocal of a zero, no sign test).
  The lemmas give what clients use: small integers are exact, rounding keeps signs, and an
  order comparison with a NaN is false.
\<close>

datatype f64 = NaN | Infinite bool | Fin rat

section \<open>Rounding\<close>

fun log2_floor :: "nat \<Rightarrow> nat" where
  "log2_floor n = (if n < 2 then 0 else log2_floor (n div 2) + 1)"

declare log2_floor.simps [simp del]

definition pow2 :: "int \<Rightarrow> rat" where
  "pow2 k = (if 0 \<le> k then 2 ^ nat k else 1 / 2 ^ nat (- k))"

text \<open>The exponent \<open>k\<close> with \<open>2\<^sup>k \<le> r < 2\<^sup>k\<^sup>+\<^sup>1\<close>, for a positive rational.\<close>

definition rat_log2 :: "rat \<Rightarrow> int" where
  "rat_log2 r =
     (let (p, q) = quotient_of r;
          k = int (log2_floor (nat p)) - int (log2_floor (nat q))
      in if pow2 k \<le> r then k else k - 1)"

definition round_half_even :: "rat \<Rightarrow> int" where
  "round_half_even q =
     (let f = floor q; d = q - of_int f
      in if d < 1 / 2 then f
         else if d > 1 / 2 then f + 1
         else if even f then f else f + 1)"

definition round64 :: "rat \<Rightarrow> f64" where
  "round64 r =
     (if r = 0 then Fin 0
      else let e = max (rat_log2 \<bar>r\<bar> - 52) (- 1074);
               v = of_int (round_half_even (\<bar>r\<bar> / pow2 e)) * pow2 e
           in if v \<ge> pow2 1024 then Infinite (r < 0) else Fin (if r < 0 then - v else v))"

section \<open>Operations\<close>

definition f64_of_nat :: "nat \<Rightarrow> f64" where
  "f64_of_nat n = round64 (of_nat n)"

fun f64_neg :: "f64 \<Rightarrow> f64" where
  "f64_neg NaN = NaN"
| "f64_neg (Infinite s) = Infinite (\<not> s)"
| "f64_neg (Fin a) = Fin (- a)"

fun f64_add :: "f64 \<Rightarrow> f64 \<Rightarrow> f64" where
  "f64_add (Fin a) (Fin b) = round64 (a + b)"
| "f64_add NaN y = NaN"
| "f64_add x NaN = NaN"
| "f64_add (Infinite s) (Infinite t) = (if s = t then Infinite s else NaN)"
| "f64_add (Infinite s) (Fin b) = Infinite s"
| "f64_add (Fin a) (Infinite t) = Infinite t"

definition f64_sub :: "f64 \<Rightarrow> f64 \<Rightarrow> f64" where
  "f64_sub x y = f64_add x (f64_neg y)"

fun f64_mul :: "f64 \<Rightarrow> f64 \<Rightarrow> f64" where
  "f64_mul (Fin a) (Fin b) = round64 (a * b)"
| "f64_mul NaN y = NaN"
| "f64_mul x NaN = NaN"
| "f64_mul (Infinite s) (Infinite t) = Infinite (s \<noteq> t)"
| "f64_mul (Infinite s) (Fin b) = (if b = 0 then NaN else Infinite (s \<noteq> (b < 0)))"
| "f64_mul (Fin a) (Infinite t) = (if a = 0 then NaN else Infinite ((a < 0) \<noteq> t))"

text \<open>Division; a zero divisor is positive in every use.\<close>

fun f64_div :: "f64 \<Rightarrow> f64 \<Rightarrow> f64" where
  "f64_div (Fin a) (Fin b) =
     (if b = 0 then (if a = 0 then NaN else Infinite (a < 0)) else round64 (a / b))"
| "f64_div NaN y = NaN"
| "f64_div x NaN = NaN"
| "f64_div (Infinite s) (Infinite t) = NaN"
| "f64_div (Infinite s) (Fin b) = Infinite (s \<noteq> (b < 0))"
| "f64_div (Fin a) (Infinite t) = Fin 0"

fun f64_lt :: "f64 \<Rightarrow> f64 \<Rightarrow> bool" where
  "f64_lt NaN y = False"
| "f64_lt x NaN = False"
| "f64_lt (Fin a) (Fin b) = (a < b)"
| "f64_lt (Infinite s) (Infinite t) = (s \<and> \<not> t)"
| "f64_lt (Infinite s) (Fin b) = s"
| "f64_lt (Fin a) (Infinite t) = (\<not> t)"

fun f64_eq :: "f64 \<Rightarrow> f64 \<Rightarrow> bool" where
  "f64_eq NaN y = False"
| "f64_eq x NaN = False"
| "f64_eq x y = (x = y)"

definition f64_le :: "f64 \<Rightarrow> f64 \<Rightarrow> bool" where
  "f64_le x y \<longleftrightarrow> f64_lt x y \<or> f64_eq x y"

fun is_finite :: "f64 \<Rightarrow> bool" where
  "is_finite (Fin _) = True"
| "is_finite _ = False"

definition f64_zero :: f64 where "f64_zero = Fin 0"

text \<open>\<open>f64::max\<close> and \<open>f64::min\<close> ignore a NaN argument; \<open>clamp\<close> keeps a NaN.\<close>

definition f64_max :: "f64 \<Rightarrow> f64 \<Rightarrow> f64" where
  "f64_max x y = (if x = NaN then y else if y = NaN then x else if f64_lt x y then y else x)"

definition f64_min :: "f64 \<Rightarrow> f64 \<Rightarrow> f64" where
  "f64_min x y = (if x = NaN then y else if y = NaN then x else if f64_lt y x then y else x)"

definition f64_clamp :: "f64 \<Rightarrow> f64 \<Rightarrow> f64 \<Rightarrow> f64" where
  "f64_clamp x lo hi = (let y = (if f64_lt x lo then lo else x) in if f64_lt hi y then hi else y)"

text \<open>\<open>format!("{:.n}", x)\<close>: the exact value rounded half to even at \<open>n\<close> decimals.\<close>

definition pad_left :: "nat \<Rightarrow> string \<Rightarrow> string" where
  "pad_left n s = replicate (n - length s) CHR ''0'' @ s"

definition format_fixed :: "nat \<Rightarrow> f64 \<Rightarrow> string" where
  "format_fixed n x =
     (case x of
        NaN \<Rightarrow> ''NaN''
      | Infinite neg \<Rightarrow> (if neg then ''-inf'' else ''inf'')
      | Fin a \<Rightarrow>
          (let m = nat (round_half_even (\<bar>a\<bar> * 10 ^ n));
               whole = show_nat (m div 10 ^ n);
               frac = pad_left n (show_nat (m mod 10 ^ n))
           in (if a < 0 then ''-'' else '''') @ whole @ (if n = 0 then '''' else ''.'' @ frac)))"

section \<open>Facts\<close>

lemma round_half_even_int [simp]: "round_half_even (of_int k) = k"
  by (simp add: round_half_even_def)

lemma round_half_even_mono: "a \<le> b \<Longrightarrow> round_half_even a \<le> round_half_even b"
proof -
  assume ab: "a \<le> b"
  then have f: "floor a \<le> floor b" by (rule floor_mono)
  have bounds: "floor x \<le> round_half_even x" "round_half_even x \<le> floor x + 1" for x
    by (auto simp: round_half_even_def Let_def)
  show ?thesis
  proof (cases "floor a = floor b")
    case True
    with ab show ?thesis by (auto simp: round_half_even_def Let_def)
  next
    case False
    with f have "floor a + 1 \<le> floor b" by simp
    with bounds(2) [of a] bounds(1) [of b] show ?thesis by linarith
  qed
qed

lemma round_half_even_nonneg: "0 \<le> q \<Longrightarrow> 0 \<le> round_half_even q"
  using round_half_even_mono [of 0 q] round_half_even_int [of 0] by simp

lemma pow2_pos [simp]: "0 < pow2 k"
  by (simp add: pow2_def)

lemma pow2_nonneg [simp]: "0 \<le> pow2 k"
  using pow2_pos [of k] by linarith

lemma round64_sign:
  assumes "round64 r = Fin v"
  shows "(0 \<le> r \<longrightarrow> 0 \<le> v) \<and> (r \<le> 0 \<longrightarrow> v \<le> 0)"
proof -
  have "0 \<le> of_int (round_half_even (\<bar>r\<bar> / pow2 e)) * pow2 e" for e
    by (simp add: round_half_even_nonneg)
  with assms show ?thesis by (auto simp: round64_def Let_def split: if_splits)
qed

lemma round64_not_nan: "round64 r \<noteq> NaN"
  by (simp add: round64_def Let_def)

lemma pow2_nonneg_exp: "0 \<le> k \<Longrightarrow> pow2 k = 2 ^ nat k"
  by (simp add: pow2_def)

lemma pow2_add: "pow2 (j + k) = pow2 j * pow2 k"
proof -
  have sub: "n \<le> m \<Longrightarrow> (2::rat) ^ m = 2 ^ n * 2 ^ (m - n)" for m n :: nat
    by (simp add: power_add [symmetric])
  consider "0 \<le> j" "0 \<le> k" | "0 \<le> j" "k < 0" | "j < 0" "0 \<le> k" | "j < 0" "k < 0" by linarith
  then show ?thesis
  proof cases
    case 1
    then show ?thesis by (simp add: pow2_def nat_add_distrib power_add)
  next
    case 2
    then show ?thesis
      using sub [of "nat (- k)" "nat j"] sub [of "nat j" "nat (- k)"]
      by (auto simp: pow2_def nat_diff_distrib' [symmetric] field_simps)
  next
    case 3
    then show ?thesis
      using sub [of "nat (- j)" "nat k"] sub [of "nat k" "nat (- j)"]
      by (auto simp: pow2_def nat_diff_distrib' [symmetric] field_simps)
  next
    case 4
    then have "nat (- (j + k)) = nat (- j) + nat (- k)" by simp
    with 4 show ?thesis by (simp add: pow2_def power_add)
  qed
qed

lemma pow2_one [simp]: "pow2 1 = 2" "pow2 0 = 1"
  by (simp_all add: pow2_def)

lemma pow2_mono: "j \<le> k \<Longrightarrow> pow2 j \<le> pow2 k"
proof -
  assume "j \<le> k"
  then have "pow2 k = pow2 j * 2 ^ nat (k - j)"
    using pow2_add [of j "k - j"] by (simp add: pow2_nonneg_exp)
  moreover have "pow2 j * 1 \<le> pow2 j * 2 ^ nat (k - j)"
    by (rule mult_left_mono) simp_all
  ultimately show ?thesis by simp
qed

lemma pow2_less_imp: "pow2 j < pow2 k \<Longrightarrow> j < k"
  using pow2_mono [of k j] by linarith

lemma log2_floor_bounds: "0 < n \<Longrightarrow> 2 ^ log2_floor n \<le> n \<and> n < 2 ^ (log2_floor n + 1)"
proof (induction n rule: log2_floor.induct)
  case (1 n)
  show ?case
  proof (cases "n < 2")
    case True
    with 1 show ?thesis by (simp add: log2_floor.simps [of n])
  next
    case False
    with 1 have "2 ^ log2_floor (n div 2) \<le> n div 2" "n div 2 < 2 ^ (log2_floor (n div 2) + 1)" by auto
    with False show ?thesis by (simp add: log2_floor.simps [of n]) linarith
  qed
qed

lemma rat_log2_bounds:
  assumes "0 < r"
  shows "pow2 (rat_log2 r) \<le> r \<and> r < pow2 (rat_log2 r + 1)"
proof -
  obtain p q where pq: "quotient_of r = (p, q)" by force
  then have q: "0 < q" using quotient_of_denom_pos by blast
  have r: "r = of_int p / of_int q" using pq by (rule quotient_of_div)
  with assms q have p: "0 < p" by (simp add: zero_less_divide_iff)
  define a where "a = log2_floor (nat p)"
  define b where "b = log2_floor (nat q)"
  have pb: "(2::int) ^ a \<le> p" "p < 2 ^ (a + 1)"
    using log2_floor_bounds [of "nat p"] p by (simp_all add: a_def nat_le_iff nat_less_iff le_nat_iff)
  have qb: "(2::int) ^ b \<le> q" "q < 2 ^ (b + 1)"
    using log2_floor_bounds [of "nat q"] q by (simp_all add: b_def nat_le_iff nat_less_iff le_nat_iff)
  have pr: "(2::rat) ^ a \<le> of_int p" "of_int p < (2::rat) ^ (a + 1)"
    using pb by (metis of_int_le_iff of_int_numeral of_int_power, metis of_int_less_iff of_int_numeral of_int_power)
  have qr: "(2::rat) ^ b \<le> of_int q" "of_int q < (2::rat) ^ (b + 1)"
    using qb by (metis of_int_le_iff of_int_numeral of_int_power, metis of_int_less_iff of_int_numeral of_int_power)
  have split: "pow2 (int m - int n) = 2 ^ m / 2 ^ n" for m n
    using pow2_add [of "int m" "- int n"] by (simp add: pow2_def)
  have up: "r < pow2 (int a - int b + 1)"
  proof -
    have "of_int p / of_int q \<le> of_int p / (2::rat) ^ b"
      using qr(1) p q by (intro divide_left_mono) simp_all
    also have "\<dots> < 2 ^ (a + 1) / 2 ^ b" using pr(2) by (rule divide_strict_right_mono) simp
    also have "\<dots> = pow2 (int a - int b + 1)" using split [of "a + 1" b] by (simp add: algebra_simps)
    finally show ?thesis by (simp add: r)
  qed
  have low: "pow2 (int a - int b - 1) \<le> r"
  proof -
    have "pow2 (int a - int b - 1) = 2 ^ a / 2 ^ (b + 1)" using split [of a "b + 1"] by (simp add: algebra_simps)
    also have "\<dots> \<le> 2 ^ a / of_int q" using qr(2) q by (intro divide_left_mono) simp_all
    also have "\<dots> \<le> of_int p / of_int q" using pr(1) q by (intro divide_right_mono) simp_all
    finally show ?thesis by (simp add: r)
  qed
  have "rat_log2 r = (if pow2 (int a - int b) \<le> r then int a - int b else int a - int b - 1)"
    by (simp add: rat_log2_def pq a_def b_def)
  with up low show ?thesis by auto
qed

lemma rat_log2_mono: "0 < r \<Longrightarrow> r \<le> s \<Longrightarrow> rat_log2 r \<le> rat_log2 s"
  using rat_log2_bounds [of r] rat_log2_bounds [of s] pow2_less_imp [of "rat_log2 r" "rat_log2 s + 1"]
  by linarith

definition exp64 :: "rat \<Rightarrow> int" where
  "exp64 r = max (rat_log2 r - 52) (- 1074)"

definition grid64 :: "rat \<Rightarrow> rat" where
  "grid64 r = of_int (round_half_even (r / pow2 (exp64 r))) * pow2 (exp64 r)"

lemma round64_pos: "0 < r \<Longrightarrow> round64 r = (if grid64 r \<ge> pow2 1024 then Infinite False else Fin (grid64 r))"
  by (simp add: round64_def grid64_def exp64_def Let_def)

lemma grid64_mono:
  assumes "0 < r" "r \<le> s"
  shows "grid64 r \<le> grid64 s"
proof (cases "exp64 r = exp64 s")
  case True
  have "r / pow2 (exp64 r) \<le> s / pow2 (exp64 r)" using assms(2) by (rule divide_right_mono) simp
  then have "round_half_even (r / pow2 (exp64 r)) \<le> round_half_even (s / pow2 (exp64 s))"
    unfolding True by (rule round_half_even_mono)
  then show ?thesis unfolding grid64_def True by (intro mult_right_mono) simp_all
next
  case False
  have le: "rat_log2 r \<le> rat_log2 s" using assms by (rule rat_log2_mono)
  with False have lt: "exp64 r < exp64 s" and es: "exp64 s = rat_log2 s - 52"
    by (auto simp: exp64_def split: if_splits)
  have "rat_log2 r + 1 \<le> exp64 r + 53" by (simp add: exp64_def)
  from rat_log2_bounds [OF assms(1)] pow2_mono [OF this]
  have "r \<le> pow2 (exp64 r + 53)" by linarith
  then have "r / pow2 (exp64 r) \<le> of_int (2 ^ 53)"
    by (simp add: pow2_add pos_divide_le_eq pow2_nonneg_exp mult.commute)
  from round_half_even_mono [OF this]
  have "round_half_even (r / pow2 (exp64 r)) \<le> 2 ^ 53" by (simp only: round_half_even_int)
  then have "of_int (round_half_even (r / pow2 (exp64 r))) \<le> (2::rat) ^ 53"
    by (metis of_int_le_iff of_int_numeral of_int_power)
  then have "grid64 r \<le> 2 ^ 53 * pow2 (exp64 r)"
    unfolding grid64_def by (intro mult_right_mono) simp_all
  also have "2 ^ 53 * pow2 (exp64 r) = pow2 (exp64 r + 53)" by (simp add: pow2_add pow2_nonneg_exp)
  also have "\<dots> \<le> pow2 (exp64 s + 52)" using lt by (intro pow2_mono) simp
  also have "\<dots> \<le> grid64 s"
  proof -
    have "pow2 (exp64 s + 52) \<le> s" using rat_log2_bounds [of s] assms es by simp
    then have "of_int (2 ^ 52) \<le> s / pow2 (exp64 s)"
      by (simp add: pow2_add pos_le_divide_eq pow2_nonneg_exp mult.commute)
    from round_half_even_mono [OF this]
    have "2 ^ 52 \<le> round_half_even (s / pow2 (exp64 s))" by (simp only: round_half_even_int)
    then have "(2::rat) ^ 52 \<le> of_int (round_half_even (s / pow2 (exp64 s)))"
      by (metis of_int_le_iff of_int_numeral of_int_power)
    then have "2 ^ 52 * pow2 (exp64 s) \<le> grid64 s"
      unfolding grid64_def by (intro mult_right_mono) simp_all
    then show ?thesis by (simp add: pow2_add pow2_nonneg_exp mult.commute)
  qed
  finally show ?thesis .
qed

text \<open>Rounding is monotone on the non-negative values that prices, counts and scores are.\<close>

lemma round64_mono:
  assumes "0 \<le> r" "r \<le> s"
  shows "\<not> f64_lt (round64 s) (round64 r)"
proof (cases "r = 0")
  case True
  have z: "round64 0 = Fin 0" by (simp add: round64_def)
  show ?thesis
  proof (cases "s = 0")
    case False
    then have "0 < s" using assms by simp
    moreover have "0 \<le> grid64 s"
      using assms by (simp add: grid64_def round_half_even_nonneg)
    ultimately show ?thesis by (simp add: True z round64_pos)
  qed (simp add: True z)
next
  case False
  with assms have "0 < r" "0 < s" by simp_all
  then show ?thesis using grid64_mono [of r s] assms(2) by (simp add: round64_pos)
qed

lemma grid64_exact:
  assumes "0 < n" "n < 2 ^ 53"
  shows "grid64 (of_nat n) = of_nat n"
proof -
  have "pow2 (rat_log2 (of_nat n)) \<le> of_nat n" using rat_log2_bounds [of "of_nat n"] assms by simp
  also have "\<dots> < pow2 53" using assms(2) by (simp add: pow2_nonneg_exp)
  finally have "rat_log2 (of_nat n) < 53" by (rule pow2_less_imp)
  then have e: "exp64 (of_nat n) \<le> 0" by (simp add: exp64_def)
  define k where "k = nat (- exp64 (of_nat n))"
  have p: "pow2 (exp64 (of_nat n)) = 1 / 2 ^ k" using e by (cases "exp64 (of_nat n) = 0") (simp_all add: pow2_def k_def)
  have "of_nat n / pow2 (exp64 (of_nat n)) = of_int (int n * 2 ^ k)" by (simp add: p)
  then show ?thesis unfolding grid64_def by (simp only: round_half_even_int) (simp add: p)
qed

lemma f64_of_nat_exact: "n < 2 ^ 53 \<Longrightarrow> f64_of_nat n = Fin (of_nat n)"
proof -
  assume n: "n < 2 ^ 53"
  have "(of_nat n :: rat) < pow2 1024"
  proof -
    have "(of_nat n :: rat) < pow2 53" using n by (simp add: pow2_nonneg_exp)
    also have "\<dots> \<le> pow2 1024" by (rule pow2_mono) simp
    finally show ?thesis .
  qed
  with n show ?thesis
    by (cases "n = 0") (simp_all add: f64_of_nat_def round64_pos grid64_exact round64_def [of 0])
qed

section \<open>Non-negative values in order\<close>

fun nonneg :: "f64 \<Rightarrow> bool" where
  "nonneg NaN = False"
| "nonneg (Infinite s) = (\<not> s)"
| "nonneg (Fin a) = (0 \<le> a)"

lemma nonneg_round64: "0 \<le> r \<Longrightarrow> nonneg (round64 r)"
proof (cases "round64 r")
  case (Infinite s)
  moreover assume "0 \<le> r"
  ultimately show ?thesis by (auto simp: round64_def Let_def split: if_splits)
qed (use round64_sign [of r] round64_not_nan [of r] in auto)

lemma nonneg_le_iff: "nonneg x \<Longrightarrow> nonneg y \<Longrightarrow> f64_le x y \<longleftrightarrow> \<not> f64_lt y x"
  by (cases x; cases y) (auto simp: f64_le_def)

lemma round64_le: "0 \<le> r \<Longrightarrow> r \<le> s \<Longrightarrow> f64_le (round64 r) (round64 s)"
  using round64_mono [of r s] nonneg_le_iff [of "round64 r" "round64 s"] nonneg_round64 [of r] nonneg_round64 [of s]
  by simp

lemma f64_le_Fin [simp]: "f64_le (Fin a) (Fin b) \<longleftrightarrow> a \<le> b"
  by (auto simp: f64_le_def)

lemma f64_le_finite_bound: "nonneg x \<Longrightarrow> f64_le x (Fin b) \<Longrightarrow> is_finite x"
  by (cases x) (auto simp: f64_le_def)

lemma f64_add_nonneg: "nonneg x \<Longrightarrow> nonneg y \<Longrightarrow> nonneg (f64_add x y)"
  by (cases x; cases y) (auto simp: nonneg_round64)

lemma f64_le_Infinite: "nonneg x \<Longrightarrow> f64_le x (Infinite False)"
  by (cases x) (auto simp: f64_le_def)

lemma f64_add_mono:
  assumes "nonneg x" "nonneg y" "f64_le x x'" "f64_le y y'"
  shows "f64_le (f64_add x y) (f64_add x' y')"
proof (cases x')
  case (Fin a')
  then obtain a where a: "x = Fin a" "0 \<le> a" "a \<le> a'" using assms by (cases x) (auto simp: f64_le_def)
  show ?thesis
  proof (cases y')
    case (Fin b')
    then obtain b where "y = Fin b" "0 \<le> b" "b \<le> b'" using assms by (cases y) (auto simp: f64_le_def)
    with a Fin \<open>x' = Fin a'\<close> show ?thesis by (simp add: round64_le)
  next
    case (Infinite s)
    with assms(2,4) have "\<not> s" by (cases y) (auto simp: f64_le_def)
    with Infinite \<open>x' = Fin a'\<close> show ?thesis using f64_add_nonneg [OF assms(1,2)] by (simp add: f64_le_Infinite)
  qed (use assms in \<open>cases y; simp add: f64_le_def\<close>)
next
  case (Infinite s)
  with assms(1,3) have "\<not> s" by (cases x) (auto simp: f64_le_def)
  moreover have "nonneg y'" using assms(2,4) by (cases y; cases y') (auto simp: f64_le_def)
  ultimately have "f64_add x' y' = Infinite False" using Infinite by (cases y') auto
  then show ?thesis using f64_add_nonneg [OF assms(1,2)] by (simp add: f64_le_Infinite)
qed (use assms in \<open>cases x; simp add: f64_le_def\<close>)

lemma f64_mul_nonneg: "is_finite x \<Longrightarrow> is_finite p \<Longrightarrow> nonneg x \<Longrightarrow> nonneg p \<Longrightarrow> nonneg (f64_mul x p)"
  by (cases x; cases p) (auto simp: nonneg_round64)

lemma f64_mul_mono:
  "is_finite x' \<Longrightarrow> is_finite p \<Longrightarrow> nonneg x \<Longrightarrow> nonneg p \<Longrightarrow> f64_le x x' \<Longrightarrow> f64_le (f64_mul x p) (f64_mul x' p)"
  by (cases x; cases x'; cases p) (auto simp: f64_le_def [of "Infinite s" for s] mult_right_mono intro!: round64_le)

text \<open>Powers of two are exact, so they bound every smaller value.\<close>

lemma pow2_strict: "j < k \<Longrightarrow> pow2 j < pow2 k"
proof -
  assume "j < k"
  then have "pow2 (j + 1) \<le> pow2 k" by (intro pow2_mono) simp
  moreover have "pow2 (j + 1) = pow2 j * 2" by (simp add: pow2_add pow2_one)
  ultimately show ?thesis using pow2_pos [of j] by linarith
qed

lemma round64_pow2:
  assumes "0 \<le> k" "k < 1024"
  shows "round64 (pow2 k) = Fin (pow2 k)"
proof -
  define e where "e = exp64 (pow2 k)"
  have "pow2 (rat_log2 (pow2 k)) \<le> pow2 k" "pow2 k < pow2 (rat_log2 (pow2 k) + 1)"
    using rat_log2_bounds [of "pow2 k"] by (simp_all add: pow2_pos)
  then have "rat_log2 (pow2 k) = k"
    using pow2_less_imp [of k "rat_log2 (pow2 k) + 1"] pow2_strict [of k "rat_log2 (pow2 k)"] by linarith
  then have e: "e \<le> k" using assms by (simp add: e_def exp64_def)
  have split: "pow2 k = 2 ^ nat (k - e) * pow2 e"
    using e pow2_add [of "k - e" e] by (simp add: pow2_nonneg_exp)
  then have "pow2 k / pow2 e = of_int (2 ^ nat (k - e))" using pow2_pos [of e] by (simp add: less_imp_neq [symmetric])
  then have "grid64 (pow2 k) = 2 ^ nat (k - e) * pow2 e"
    unfolding grid64_def e_def [symmetric] by (simp only: round_half_even_int) simp
  also have "\<dots> = pow2 k" using split by simp
  finally have "grid64 (pow2 k) = pow2 k" .
  moreover have "pow2 k < pow2 1024" using assms by (intro pow2_strict) simp
  ultimately show ?thesis using pow2_pos by (simp add: round64_pos)
qed

lemma round64_below:
  assumes "0 \<le> r" "r \<le> pow2 k" "0 \<le> k" "k < 1024"
  shows "\<exists>a. round64 r = Fin a \<and> 0 \<le> a \<and> a \<le> pow2 k"
  using round64_le [OF assms(1,2)] nonneg_round64 [OF assms(1)] round64_pow2 [OF assms(3,4)]
  by (cases "round64 r") (auto simp: f64_le_def)

end
