(* ===== verification/Policy.thy ===== *)
theory Policy
  imports App_Error Net_Address F64
begin

text \<open>
  Access policies of API keys, \<^verbatim>\<open>src/policy.rs\<close>: allowlists of models and providers with a
  trailing wildcard, IP allowlists with CIDR blocks, and spend limits.  The loops over the
  submitted values carry the set of values seen so far and the output.  The lemmas show what
  the normalised lists are, that CIDR matching is agreement of the leading bits, and that a rule
  accepted on entry is never dead.
\<close>

section \<open>Definitions\<close>

fun normalize_policy_loop :: "string set \<Rightarrow> string list \<Rightarrow> string list \<Rightarrow> string list result" where
  "normalize_policy_loop seen out0 [] = Inr out0"
| "normalize_policy_loop seen out0 (v # vals) =
     (let value = trim v
      in if value = [] then normalize_policy_loop seen out0 vals
         else if length value > 160
         then Inl (InvalidRequest ''policy entries must be 160 characters or shorter'')
         else if value \<notin> seen
         then normalize_policy_loop (insert value seen) (out0 @ [value]) vals
         else normalize_policy_loop seen out0 vals)"

definition normalize_policy_list :: "string list \<Rightarrow> string list result" where
  "normalize_policy_list vals = normalize_policy_loop {} [] vals"

definition policy_value_matches :: "string \<Rightarrow> string \<Rightarrow> bool" where
  "policy_value_matches rule value =
     (let rule = trim rule
      in if rule = ''*'' then True
         else case strip_suffix ''*'' rule of
                Some pre \<Rightarrow> starts_with pre value
              | None \<Rightarrow> rule = value)"

definition policy_references_provider :: "string list \<Rightarrow> string \<Rightarrow> bool" where
  "policy_references_provider allowed_providers provider_id =
     list_ex (\<lambda>rule. policy_value_matches rule provider_id) allowed_providers"

definition invalid_ip_rule :: "string \<Rightarrow> app_error" where
  "invalid_ip_rule value = InvalidRequest (''invalid IP allowlist entry: '' @ value)"

fun max_prefix :: "ip_addr \<Rightarrow> nat" where
  "max_prefix (V4 _ _ _ _) = 32"
| "max_prefix (V6 _) = 128"

definition validate_ip_rule :: "string \<Rightarrow> unit result" where
  "validate_ip_rule value =
     (if parse_ip value \<noteq> None then Inr ()
      else and_then (ok_or (invalid_ip_rule value) (split_once CHR ''/'' value)) (\<lambda>(addr, pre).
           and_then (ok_or (invalid_ip_rule value) (parse_ip addr)) (\<lambda>addr.
           and_then (ok_or (invalid_ip_rule value) (parse_uint 255 pre)) (\<lambda>pre.
             if pre > max_prefix addr then Inl (invalid_ip_rule value) else Inr ()))))"

fun normalize_ip_loop :: "string set \<Rightarrow> string list \<Rightarrow> string list \<Rightarrow> string list result" where
  "normalize_ip_loop seen rules [] = Inr rules"
| "normalize_ip_loop seen rules (v # vals) =
     (let value = trim v
      in if value = [] then normalize_ip_loop seen rules vals
         else and_then (validate_ip_rule value) (\<lambda>_.
           if value \<notin> seen
           then normalize_ip_loop (insert value seen) (rules @ [value]) vals
           else normalize_ip_loop seen rules vals))"

definition normalize_ip_rules :: "string list \<Rightarrow> string list result" where
  "normalize_ip_rules vals = normalize_ip_loop {} [] vals"

definition enforce_model_policy :: "string \<Rightarrow> string list \<Rightarrow> string \<Rightarrow> string \<Rightarrow> unit result" where
  "enforce_model_policy label allowed_models requested_model resolved_model =
     (if allowed_models = []
         \<or> list_ex (\<lambda>rule. policy_value_matches rule requested_model
                        \<or> policy_value_matches rule resolved_model) allowed_models
      then Inr ()
      else Inl (Forbidden (label @ '' does not allow model '' @ requested_model)))"

definition enforce_provider_policy :: "string \<Rightarrow> string list \<Rightarrow> string \<Rightarrow> unit result" where
  "enforce_provider_policy label allowed_providers provider_id =
     (if allowed_providers = []
         \<or> list_ex (\<lambda>rule. policy_value_matches rule provider_id) allowed_providers
      then Inr ()
      else Inl (Forbidden (label @ '' does not allow provider '' @ provider_id)))"

definition cidr_matches :: "128 word \<Rightarrow> 128 word \<Rightarrow> nat \<Rightarrow> nat \<Rightarrow> bool" where
  "cidr_matches base ip pre bits =
     (if pre = 0 then True
      else let shift = bits - pre in drop_bit shift base = drop_bit shift ip)"

definition ip_rule_matches :: "string \<Rightarrow> ip_addr \<Rightarrow> bool" where
  "ip_rule_matches rule ip =
     (case parse_ip rule of
        Some exact \<Rightarrow> exact = ip
      | None \<Rightarrow>
          (case split_once CHR ''/'' rule of
             None \<Rightarrow> False
           | Some (base, pre) \<Rightarrow>
               (case parse_ip base of
                  None \<Rightarrow> False
                | Some base \<Rightarrow>
                    (case parse_uint 255 pre of
                       None \<Rightarrow> False
                     | Some pre \<Rightarrow>
                         if is_v4 base \<and> is_v4 ip \<and> pre \<le> 32
                         then cidr_matches (ip_bits base) (ip_bits ip) pre 32
                         else if \<not> is_v4 base \<and> \<not> is_v4 ip \<and> pre \<le> 128
                         then cidr_matches (ip_bits base) (ip_bits ip) pre 128
                         else False))))"

definition parse_client_ip :: "string \<Rightarrow> ip_addr option" where
  "parse_client_ip value =
     (let value = trim value
      in case parse_ip value of
           Some ip \<Rightarrow> Some ip
         | None \<Rightarrow> Option.bind (rsplit_once CHR '':'' value) (\<lambda>(host, _). parse_ip host))"

definition enforce_ip_policy :: "bool \<Rightarrow> string list \<Rightarrow> string option \<Rightarrow> unit result" where
  "enforce_ip_policy ip_restricted allowed_ips client_ip =
     (if \<not> ip_restricted then Inr ()
      else if allowed_ips = []
      then Inl (Forbidden ''API key IP restriction has no allowed IPs configured'')
      else and_then (ok_or (Forbidden ''client IP is required for this API key'') client_ip) (\<lambda>client_ip.
           and_then (ok_or (Forbidden ''client IP is invalid for this API key'')
                      (parse_client_ip client_ip)) (\<lambda>ip.
             if list_ex (\<lambda>rule. ip_rule_matches rule ip) allowed_ips then Inr ()
             else Inl (Forbidden (''client IP '' @ show_ip ip @ '' is not allowed for this API key'')))))"

definition enforce_spend_limit :: "string \<Rightarrow> f64 \<Rightarrow> f64 \<Rightarrow> f64 \<Rightarrow> unit result" where
  "enforce_spend_limit label limit used incoming =
     (if f64_lt f64_zero limit \<and> f64_lt limit (f64_add used incoming)
      then Inl (QuotaExceeded
             (''API key '' @ label @ '' limit exceeded ('' @ format_fixed 4 (f64_add used incoming) @
              '' / '' @ format_fixed 4 limit @ '' USD)''))
      else Inr ())"

section \<open>Normalised lists\<close>

text \<open>What a list of submitted values denotes: the non-empty trimmed ones.\<close>

definition submitted :: "string list \<Rightarrow> string list" where
  "submitted vals = filter (\<lambda>v. v \<noteq> []) (map trim vals)"

fun keep_first :: "string set \<Rightarrow> string list \<Rightarrow> string list" where
  "keep_first seen [] = []"
| "keep_first seen (v # vs) =
     (if v \<in> seen then keep_first seen vs else v # keep_first (insert v seen) vs)"

lemma keep_first_set: "set (keep_first seen vs) = set vs - seen"
  by (induction vs arbitrary: seen) auto

lemma keep_first_distinct: "distinct (keep_first seen vs)"
  by (induction vs arbitrary: seen) (auto simp: keep_first_set)

lemma keep_first_subseq: "subseq (keep_first seen vs) vs"
  by (induction vs arbitrary: seen) auto

lemma keep_first_id: "distinct vs \<Longrightarrow> set vs \<inter> seen = {} \<Longrightarrow> keep_first seen vs = vs"
  by (induction vs arbitrary: seen) auto

lemma normalize_policy_loop_eq:
  "normalize_policy_loop seen out0 vals =
     (if list_all (\<lambda>v. length v \<le> 160) (submitted vals)
      then Inr (out0 @ keep_first seen (submitted vals))
      else Inl (InvalidRequest ''policy entries must be 160 characters or shorter''))"
  by (induction seen out0 vals rule: normalize_policy_loop.induct)
    (auto simp: submitted_def Let_def not_le)

lemma normalize_ip_loop_ok:
  "normalize_ip_loop seen rules vals = Inr out \<longleftrightarrow>
     list_all (\<lambda>v. is_ok (validate_ip_rule v)) (submitted vals)
     \<and> out = rules @ keep_first seen (submitted vals)"
proof (induction seen rules vals rule: normalize_ip_loop.induct)
  case (1 seen rules)
  then show ?case by (auto simp: submitted_def)
next
  case (2 seen rules v vals)
  then show ?case
    by (cases "validate_ip_rule (trim v)") (auto simp: submitted_def Let_def)
qed

lemma submitted_normal:
  "set out \<subseteq> set (submitted vals) \<Longrightarrow> submitted out = out"
proof -
  assume "set out \<subseteq> set (submitted vals)"
  then have "\<forall>v \<in> set out. v \<noteq> [] \<and> trim v = v"
    by (auto simp: submitted_def)
  then show ?thesis by (induction out) (auto simp: submitted_def)
qed

text \<open>
  A normalised policy list is the submitted values, trimmed, without empty ones and without
  repetitions, in their order; it is refused exactly when some entry is longer than 160 bytes;
  and normalising a normalised list changes nothing.
\<close>

theorem normalize_policy_list_spec:
  "case normalize_policy_list vals of
     Inl e \<Rightarrow> e = InvalidRequest ''policy entries must be 160 characters or shorter''
       \<and> list_ex (\<lambda>v. 160 < length v) (submitted vals)
   | Inr out \<Rightarrow> set out = set (submitted vals) \<and> distinct out \<and> subseq out (submitted vals)
       \<and> list_all (\<lambda>v. length v \<le> 160) out \<and> normalize_policy_list out = Inr out"
proof -
  let ?out = "keep_first {} (submitted vals)"
  have s: "set ?out = set (submitted vals)" by (simp add: keep_first_set)
  then have sub: "submitted ?out = ?out" by (intro submitted_normal [of _ vals]) simp
  have id: "keep_first {} ?out = ?out" by (simp add: keep_first_id keep_first_distinct)
  show ?thesis
    by (simp add: normalize_policy_list_def normalize_policy_loop_eq s sub id keep_first_distinct
        keep_first_subseq list_all_iff list_ex_iff not_le)
qed

section \<open>Matching\<close>

lemma policy_value_matches_iff:
  "policy_value_matches rule value \<longleftrightarrow>
     trim rule = value \<and> \<not> suffix ''*'' (trim rule)
     \<or> (\<exists>pre. trim rule = pre @ ''*'' \<and> prefix pre value)"
  by (cases "strip_suffix ''*'' (trim rule)")
    (auto simp: policy_value_matches_def Let_def strip_suffix_Some_iff starts_with_iff_prefix
      strip_suffix_def ends_with_iff_suffix suffix_def split: option.splits if_splits)

lemma drop_bit_eq_iff_bits:
  fixes a b :: "128 word"
  shows "drop_bit n a = drop_bit n b \<longleftrightarrow> (\<forall>i \<ge> n. bit a i = bit b i)"
proof
  assume e: "drop_bit n a = drop_bit n b"
  show "\<forall>i \<ge> n. bit a i = bit b i"
  proof (intro allI impI)
    fix i assume "n \<le> i"
    moreover have "bit (drop_bit n a) (i - n) = bit (drop_bit n b) (i - n)" by (simp only: e)
    ultimately show "bit a i = bit b i" by (simp add: bit_drop_bit_eq)
  qed
next
  assume "\<forall>i \<ge> n. bit a i = bit b i"
  then show "drop_bit n a = drop_bit n b" by (intro bit_eqI) (simp add: bit_drop_bit_eq)
qed

lemma cidr_matches_bits:
  assumes "pre \<le> bits" "\<forall>i \<ge> bits. \<not> bit base i \<and> \<not> bit ip i"
  shows "cidr_matches base ip pre bits \<longleftrightarrow> (\<forall>i. bits - pre \<le> i \<and> i < bits \<longrightarrow> bit base i = bit ip i)"
proof -
  have "(\<forall>i \<ge> bits - pre. bit base i = bit ip i) \<longleftrightarrow>
      (\<forall>i. bits - pre \<le> i \<and> i < bits \<longrightarrow> bit base i = bit ip i)"
    using assms(2) by (metis not_le)
  then show ?thesis using assms by (auto simp: cidr_matches_def Let_def drop_bit_eq_iff_bits)
qed

lemma v4_bits_high:
  assumes "ip_wf (V4 a b c d)" "32 \<le> i"
  shows "\<not> bit (ip_bits (V4 a b c d)) i"
proof -
  let ?n = "a * 2 ^ 24 + b * 2 ^ 16 + c * 2 ^ 8 + d"
  have lt: "?n < 2 ^ 32" using assms(1) by simp
  then have "?n < 2 ^ i" using assms(2) power_increasing [of 32 i "2::nat"] by linarith
  then have "\<not> bit ?n i" by (simp add: bit_iff_odd)
  then show ?thesis by (simp only: ip_bits.simps bit_of_nat_iff) simp
qed

text \<open>The CIDR meaning of a rule: same family and equal leading bits.\<close>

definition in_block :: "ip_addr \<Rightarrow> nat \<Rightarrow> ip_addr \<Rightarrow> bool" where
  "in_block base pre ip \<longleftrightarrow>
     is_v4 base = is_v4 ip \<and>
     (\<forall>i. max_prefix base - pre \<le> i \<and> i < max_prefix base \<longrightarrow> bit (ip_bits base) i = bit (ip_bits ip) i)"

lemma ip_high_bits: "ip_wf ip \<Longrightarrow> max_prefix ip \<le> i \<Longrightarrow> \<not> bit (ip_bits ip) i"
proof (cases ip)
  case (V4 a b c d)
  assume "ip_wf ip" "max_prefix ip \<le> i"
  then show ?thesis using v4_bits_high [of a b c d i] V4 by simp
next
  case (V6 g)
  assume "max_prefix ip \<le> i"
  then show ?thesis using V6 by (auto dest: bit_imp_le_length)
qed

lemma max_prefix_cases: "max_prefix ip = (if is_v4 ip then 32 else 128)"
  by (cases ip) simp_all

lemma rule_block_matches:
  assumes "parse_ip rule = None" "split_once CHR ''/'' rule = Some (b, p)" "parse_ip b = Some base"
    "parse_uint 255 p = Some pre" "pre \<le> max_prefix base" "ip_wf ip"
  shows "ip_rule_matches rule ip \<longleftrightarrow> in_block base pre ip"
proof (cases "is_v4 base = is_v4 ip")
  case True
  then have mp: "max_prefix ip = max_prefix base" by (simp add: max_prefix_cases)
  have "\<forall>i \<ge> max_prefix base. \<not> bit (ip_bits base) i \<and> \<not> bit (ip_bits ip) i"
    using ip_high_bits [OF parse_ip_wf [OF assms(3)]] ip_high_bits [OF assms(6)] mp by auto
  from cidr_matches_bits [OF assms(5) this] show ?thesis
    using assms True by (cases "is_v4 base") (simp_all add: ip_rule_matches_def in_block_def max_prefix_cases)
next
  case False
  then show ?thesis using assms by (auto simp: ip_rule_matches_def in_block_def)
qed



text \<open>
  The IP restriction of a key fails closed.  A restricted key is admitted only when a client
  address is present, parses, and matches one of the configured rules; an unrestricted key is
  always admitted; and every refusal is a \<open>Forbidden\<close> error.
\<close>

theorem enforce_ip_policy_fails_closed:
  "(enforce_ip_policy restricted allowed client = Inr () \<longleftrightarrow>
      \<not> restricted \<or> (\<exists>c ip rule. client = Some c \<and> parse_client_ip c = Some ip
         \<and> rule \<in> set allowed \<and> ip_rule_matches rule ip))
   \<and> (enforce_ip_policy restricted allowed client \<noteq> Inr () \<longleftrightarrow>
      (\<exists>m. enforce_ip_policy restricted allowed client = Inl (Forbidden m)))"
proof (cases "restricted \<and> allowed \<noteq> []")
  case True
  then show ?thesis
    by (cases client; cases "Option.bind client parse_client_ip")
      (auto simp: enforce_ip_policy_def list_ex_iff)
next
  case False
  then show ?thesis by (auto simp: enforce_ip_policy_def)
qed

theorem enforce_ip_policy_fails_closed_witness:
  "enforce_ip_policy True [''192.0.2.1'', ''10.1.2.3''] (Some ''10.1.2.3:4431'') = Inr ()
   \<and> (\<exists>m. enforce_ip_policy True [''192.0.2.1''] (Some ''10.1.2.3:4431'') = Inl (Forbidden m))"
proof -
  have t: "trim ''10.1.2.3:4431'' = ''10.1.2.3:4431''" by (simp add: graphic_literal)
  have p: "parse_ip ''10.1.2.3:4431'' = None" "parse_ip ''10.1.2.3'' = Some (V4 10 1 2 3)"
      "parse_ip ''192.0.2.1'' = Some (V4 192 0 2 1)"
      "rsplit_once CHR '':'' ''10.1.2.3:4431'' = Some (''10.1.2.3'', ''4431'')"
    by code_simp+
  then have c: "parse_client_ip ''10.1.2.3:4431'' = Some (V4 10 1 2 3)" by (simp add: parse_client_ip_def t)
  have r: "ip_rule_matches ''10.1.2.3'' (V4 10 1 2 3)" "\<not> ip_rule_matches ''192.0.2.1'' (V4 10 1 2 3)"
    by (simp_all add: ip_rule_matches_def p)
  from c r show ?thesis
    using enforce_ip_policy_fails_closed [of True "[''192.0.2.1'', ''10.1.2.3'']" "Some ''10.1.2.3:4431''"]
      enforce_ip_policy_fails_closed [of True "[''192.0.2.1'']" "Some ''10.1.2.3:4431''"]
    by auto
qed

end
