(* ===== verification/Egress_Policy.thy ===== *)
theory Egress_Policy
  imports Policy "HOL-Library.Product_Lexorder"
begin

text \<open>
  Where provider requests may go, \<^verbatim>\<open>src/config.rs\<close>: the policy on provider base URLs, the
  classification of addresses as public or special-use, and the pinning of a checked DNS answer
  to the connection.  \<open>Url::parse\<close> and \<open>lookup_host\<close> are parameters; a URL is the record of what
  its accessors return.  The environment is a function from names to values.

  The lemmas show that the IPv4 test is exactly a list of CIDR blocks and that a pinned endpoint
  of an ordinary provider has public addresses only, whatever the resolver answers.
\<close>

unbundle bit_operations_syntax

section \<open>Environment flags\<close>

definition env_value :: "(string \<Rightarrow> string option) \<Rightarrow> (string \<Rightarrow> string option) \<Rightarrow> string \<Rightarrow> string option" where
  "env_value process file name =
     (case process name of Some v \<Rightarrow> Some v | None \<Rightarrow> file name)"

definition env_flag :: "(string \<Rightarrow> string option) \<Rightarrow> string \<Rightarrow> bool" where
  "env_flag env name =
     (case env name of
        Some v \<Rightarrow> v \<in> {''1'', ''true'', ''TRUE'', ''yes'', ''YES'', ''on'', ''ON''}
      | None \<Rightarrow> False)"

definition env_bool :: "(string \<Rightarrow> string option) \<Rightarrow> string \<Rightarrow> bool \<Rightarrow> bool" where
  "env_bool env name dflt =
     (case env name of
        Some v \<Rightarrow>
          if v \<in> {''1'', ''true'', ''TRUE'', ''yes'', ''YES'', ''on'', ''ON''} then True
          else if v \<in> {''0'', ''false'', ''FALSE'', ''no'', ''NO'', ''off'', ''OFF''} then False
          else dflt
      | None \<Rightarrow> dflt)"

definition strip_env_quotes :: "string \<Rightarrow> string" where
  "strip_env_quotes value =
     (if length value < 2 then value
      else if hd value \<in> {CHR 0x27, CHR 0x22} \<and> hd value = last value
      then butlast (tl value) else value)"

definition parse_env_line :: "string \<Rightarrow> (string \<times> string) option" where
  "parse_env_line raw =
     (let line = trim raw
      in if line = [] \<or> starts_with ''#'' line then None
         else let line = trim_start (case strip_prefix ''export '' line of Some r \<Rightarrow> r | None \<Rightarrow> line)
              in case split_once CHR ''='' line of
                   None \<Rightarrow> None
                 | Some (k, v) \<Rightarrow>
                     let key = trim k
                     in if key = [] then None else Some (key, strip_env_quotes (trim v)))"

definition is_placeholder_value :: "string \<Rightarrow> bool" where
  "is_placeholder_value value =
     (let value = trim value
      in value = [] \<or> starts_with ''replace-with-'' value \<or> contains ''placeholder'' value
         \<or> contains ''your-'' value \<or> value = ''changeme'' \<or> value = ''change-me'')"

section \<open>Address classes\<close>

fun private_or_metadata_ipv4 :: "nat \<Rightarrow> nat \<Rightarrow> nat \<Rightarrow> nat \<Rightarrow> bool" where
  "private_or_metadata_ipv4 first second third fourth =
     (first = 0
      \<or> first = 10
      \<or> (first = 100 \<and> 64 \<le> second \<and> second \<le> 127)
      \<or> first = 127
      \<or> (first = 169 \<and> second = 254)
      \<or> (first = 172 \<and> 16 \<le> second \<and> second \<le> 31)
      \<or> (first = 192 \<and> second = 0 \<and> third = 0)
      \<or> (first = 192 \<and> second = 0 \<and> third = 2)
      \<or> (first = 192 \<and> second = 88 \<and> third = 99)
      \<or> (first = 192 \<and> second = 168)
      \<or> (first = 198 \<and> (second = 18 \<or> second = 19))
      \<or> (first = 198 \<and> second = 51 \<and> third = 100)
      \<or> (first = 203 \<and> second = 0 \<and> third = 113)
      \<or> first \<ge> 224)"

definition special_use_ipv6 :: "nat list \<Rightarrow> bool" where
  "special_use_ipv6 segments =
     (let global_unicast = (segments ! 0 AND 0xe000) = 0x2000;
          ietf_special_use = (segments ! 0 = 0x2001 \<and> (segments ! 1 AND 0xfe00) = 0);
          documentation = ((segments ! 0 = 0x2001 \<and> segments ! 1 = 0x0db8)
                           \<or> (segments ! 0 = 0x3fff \<and> (segments ! 1 AND 0xf000) = 0));
          ipv4_compatible = list_all (\<lambda>s. s = 0) (take 6 segments);
          nat64_well_known = (segments ! 0 = 0x0064 \<and> segments ! 1 = 0xff9b
                              \<and> list_all (\<lambda>s. s = 0) (take 4 (drop 2 segments)));
          nat64_local = (segments ! 0 = 0x0064 \<and> segments ! 1 = 0xff9b \<and> segments ! 2 = 1)
      in \<not> global_unicast \<or> ietf_special_use \<or> documentation \<or> segments ! 0 = 0x2002
         \<or> segments ! 0 = 0x5f00 \<or> ipv4_compatible \<or> nat64_well_known \<or> nat64_local)"

definition to_ipv4_mapped :: "nat list \<Rightarrow> (nat \<times> nat \<times> nat \<times> nat) option" where
  "to_ipv4_mapped segments =
     (if take 6 segments = [0, 0, 0, 0, 0, 65535]
      then Some (segments ! 6 div 256, segments ! 6 mod 256, segments ! 7 div 256, segments ! 7 mod 256)
      else None)"

fun private_or_metadata_ip :: "ip_addr \<Rightarrow> bool" where
  "private_or_metadata_ip (V4 a b c d) = private_or_metadata_ipv4 a b c d"
| "private_or_metadata_ip (V6 segments) =
     (case to_ipv4_mapped segments of
        Some (a, b, c, d) \<Rightarrow> private_or_metadata_ipv4 a b c d
      | None \<Rightarrow> special_use_ipv6 segments)"

fun is_loopback :: "ip_addr \<Rightarrow> bool" where
  "is_loopback (V4 a b c d) = (a = 127)"
| "is_loopback (V6 segments) = (segments = [0, 0, 0, 0, 0, 0, 0, 1])"

fun is_unspecified :: "ip_addr \<Rightarrow> bool" where
  "is_unspecified (V4 a b c d) = (a = 0 \<and> b = 0 \<and> c = 0 \<and> d = 0)"
| "is_unspecified (V6 segments) = (segments = [0, 0, 0, 0, 0, 0, 0, 0])"

section \<open>Base URLs\<close>

record url =
  url_scheme :: string
  url_username :: string
  url_password :: "string option"
  url_fragment :: "string option"
  url_query :: "string option"
  url_host_str :: "string option"
  url_port_or_known_default :: "nat option"
  url_path :: string

definition trim_brackets :: "string \<Rightarrow> string" where
  "trim_brackets s =
     (let b = (\<lambda>c. c = CHR ''['' \<or> c = CHR '']'') in rev (dropWhile b (rev (dropWhile b s))))"

definition trim_end_dots :: "string \<Rightarrow> string" where
  "trim_end_dots s = rev (dropWhile (\<lambda>c. c = CHR ''.'') (rev s))"

definition host_ip_is :: "(ip_addr \<Rightarrow> bool) \<Rightarrow> string \<Rightarrow> bool" where
  "host_ip_is P host = (case parse_ip host of Some ip \<Rightarrow> P ip | None \<Rightarrow> False)"

definition provider_allows_loopback_base_url :: "string \<Rightarrow> bool" where
  "provider_allows_loopback_base_url provider_id \<longleftrightarrow>
     starts_with ''local_'' provider_id
     \<or> provider_id \<in> {''custom'', ''ollama'', ''local_sglang'', ''local_vllm'', ''local_llamacpp''}"

definition provider_allows_trusted_internal_http :: "string \<Rightarrow> string \<Rightarrow> bool" where
  "provider_allows_trusted_internal_http provider_id host \<longleftrightarrow>
     starts_with ''cpa_'' provider_id
     \<and> (eq_ignore_ascii_case host ''localhost''
        \<or> eq_ignore_ascii_case host ''host.docker.internal''
        \<or> host_ip_is is_loopback host
        \<or> CHR ''.'' \<notin> set host)"

definition validate_provider_base_url_policy ::
  "(string \<Rightarrow> string + url) \<Rightarrow> (string \<Rightarrow> string option) \<Rightarrow> string \<Rightarrow> string \<Rightarrow> bool \<Rightarrow> string + unit" where
  "validate_provider_base_url_policy parse_url env provider_id base_url allow_private_provider_urls =
     (case parse_url base_url of
        Inl err \<Rightarrow> Inl (''invalid URL: '' @ err)
      | Inr u \<Rightarrow>
     if url_scheme u \<notin> {''http'', ''https''} then Inl ''URL scheme must be http or https''
     else if url_username u \<noteq> [] \<or> url_password u \<noteq> None then Inl ''URL userinfo is not allowed''
     else if url_fragment u \<noteq> None then Inl ''URL fragments are not allowed''
     else if url_query u \<noteq> None
     then Inl ''URL query parameters are not allowed; provider credentials must use headers''
     else case url_host_str u of
        None \<Rightarrow> Inl ''URL host is required''
      | Some h \<Rightarrow>
     (let host = trim_end_dots (trim_brackets h)
      in if host = [] then Inl ''URL host is required''
         else
     let private_literal_host =
           (eq_ignore_ascii_case host ''localhost'' \<or> host_ip_is private_or_metadata_ip host)
     in if url_scheme u = ''http''
           \<and> \<not> provider_allows_loopback_base_url provider_id
           \<and> \<not> provider_allows_trusted_internal_http provider_id host
           \<and> (\<not> allow_private_provider_urls \<or> \<not> private_literal_host)
           \<and> \<not> env_flag env ''MODELPORT_ALLOW_INSECURE_PROVIDER_HTTP''
        then Inl ''remote provider URLs must use https; set MODELPORT_ALLOW_INSECURE_PROVIDER_HTTP=1 only for a trusted internal HTTP upstream''
        else if allow_private_provider_urls then Inr ()
        else if eq_ignore_ascii_case host ''localhost''
        then (if provider_allows_loopback_base_url provider_id
                 \<or> provider_allows_trusted_internal_http provider_id host
              then Inr ()
              else Inl ''localhost base URLs are only allowed for local/custom/CPA providers'')
        else case parse_ip host of
               None \<Rightarrow> Inr ()
             | Some ip \<Rightarrow>
                 if is_loopback ip
                    \<and> (provider_allows_loopback_base_url provider_id
                       \<or> provider_allows_trusted_internal_http provider_id host)
                 then Inr ()
                 else if private_or_metadata_ip ip
                 then Inl (''non-public or special-use IP `'' @ show_ip ip @
                           ''` requires MODELPORT_ALLOW_PRIVATE_PROVIDER_URLS=1'')
                 else Inr ()))"

definition validate_provider_base_url_for_request ::
  "(string \<Rightarrow> string + url) \<Rightarrow> (string \<Rightarrow> string option) \<Rightarrow> string \<Rightarrow> string \<Rightarrow> bool \<Rightarrow> unit result" where
  "validate_provider_base_url_for_request parse_url env provider_id base_url allow =
     (case validate_provider_base_url_policy parse_url env provider_id base_url allow of
        Inl m \<Rightarrow> Inl (InvalidRequest m)
      | Inr u \<Rightarrow> Inr u)"

section \<open>Pinning the resolved endpoint\<close>

record endpoint_pin =
  pin_dns_name :: "string option"
  pin_addresses :: "(ip_addr \<times> nat) list"

definition validate_provider_resolved_ips :: "ip_addr list \<Rightarrow> unit result" where
  "validate_provider_resolved_ips addresses =
     (if list_ex private_or_metadata_ip addresses
      then Inl (Forbidden ''provider endpoint DNS resolved to a non-public or special-use address'')
      else Inr ())"

text \<open>The derived order of \<open>SocketAddr\<close>: IPv4 before IPv6, then address, then port.\<close>

definition addr_key :: "ip_addr \<times> nat \<Rightarrow> bool \<times> nat \<times> nat" where
  "addr_key a = (\<not> is_v4 (fst a), unat (ip_bits (fst a)), snd a)"

definition sort_dedup :: "(ip_addr \<times> nat) list \<Rightarrow> (ip_addr \<times> nat) list" where
  "sort_dedup addresses = remdups_adj (sort_key addr_key addresses)"

definition resolve_provider_base_url_for_connection ::
  "(string \<Rightarrow> string + url) \<Rightarrow> (string \<Rightarrow> string option) \<Rightarrow>
   (string \<Rightarrow> nat \<Rightarrow> (ip_addr \<times> nat) list option) \<Rightarrow> string \<Rightarrow> string \<Rightarrow> bool \<Rightarrow> endpoint_pin result" where
  "resolve_provider_base_url_for_connection parse_url env lookup_host provider_id base_url allow =
     and_then (validate_provider_base_url_for_request parse_url env provider_id base_url allow) (\<lambda>_.
     and_then (case parse_url base_url of
                 Inl _ \<Rightarrow> Inl (InvalidRequest ''provider endpoint URL is invalid'')
               | Inr u \<Rightarrow> Inr u) (\<lambda>u.
     and_then (ok_or (InvalidRequest ''provider endpoint host is missing'') (url_host_str u)) (\<lambda>h.
     let dns_host = trim_brackets h;
         host = trim_end_dots dns_host
     in and_then (ok_or (InvalidRequest ''provider endpoint port could not be determined'')
                    (url_port_or_known_default u)) (\<lambda>port.
     let literal_ip = parse_ip host
     in and_then (case literal_ip of
                    Some ip \<Rightarrow> Inr [(ip, port)]
                  | None \<Rightarrow> ok_or (Transport ''provider endpoint DNS resolution failed'') (lookup_host host port))
          (\<lambda>found.
     if found = [] then Inl (Transport ''provider endpoint DNS returned no addresses'')
     else let addresses = sort_dedup found;
              private_addresses_allowed =
                (allow \<or> provider_allows_loopback_base_url provider_id
                 \<or> provider_allows_trusted_internal_http provider_id host)
          in and_then (if \<not> private_addresses_allowed
                       then validate_provider_resolved_ips (map fst addresses) else Inr ()) (\<lambda>_.
               Inr \<lparr> pin_dns_name = (if literal_ip = None then Some dns_host else None),
                     pin_addresses = addresses \<rparr>))))))"

definition openai_base_url_targets_modelport_listener ::
  "(string \<Rightarrow> string + url) \<Rightarrow> string \<Rightarrow> ip_addr \<times> nat \<Rightarrow> bool" where
  "openai_base_url_targets_modelport_listener parse_url base_url bind_addr =
     (case parse_url base_url of
        Inl _ \<Rightarrow> False
      | Inr u \<Rightarrow>
          if url_port_or_known_default u \<noteq> Some (snd bind_addr) then False
          else if rev (dropWhile (\<lambda>c. c = CHR ''/'') (rev (dropWhile (\<lambda>c. c = CHR ''/'') (url_path u)))) \<noteq> ''v1''
          then False
          else case url_host_str u of
                 None \<Rightarrow> False
               | Some h \<Rightarrow>
                   let host = trim_end_dots (trim_brackets h); bind = fst bind_addr
                   in if eq_ignore_ascii_case host ''localhost''
                      then is_loopback bind \<or> is_unspecified bind
                      else case parse_ip host of
                             None \<Rightarrow> False
                           | Some host_ip \<Rightarrow>
                               if \<not> is_loopback host_ip \<and> \<not> is_unspecified host_ip then False
                               else if is_unspecified bind then True
                               else is_v4 host_ip = is_v4 bind \<and> (is_unspecified host_ip \<or> host_ip = bind))"

section \<open>The IPv4 test as CIDR blocks\<close>

definition v4_value :: "nat \<Rightarrow> nat \<Rightarrow> nat \<Rightarrow> nat \<Rightarrow> nat" where
  "v4_value a b c d = a * 2 ^ 24 + b * 2 ^ 16 + c * 2 ^ 8 + d"

lemma ip_bits_v4: "ip_bits (V4 a b c d) = of_nat (v4_value a b c d)"
  by (simp add: v4_value_def)

lemma bit_v4_value:
  assumes "ip_wf (V4 a b c d)" "i < 32"
  shows "bit (ip_bits (V4 a b c d)) i = bit (v4_value a b c d) i"
  using assms(2) by (simp only: ip_bits_v4 bit_of_nat_iff) simp

lemma nat_drop_bits_eq:
  fixes m n :: nat
  shows "m div 2 ^ k = n div 2 ^ k \<longleftrightarrow> (\<forall>i \<ge> k. bit m i = bit n i)"
proof
  assume e: "m div 2 ^ k = n div 2 ^ k"
  show "\<forall>i \<ge> k. bit m i = bit n i"
  proof (intro allI impI)
    fix i assume "k \<le> i"
    then have "bit x i = bit (x div 2 ^ k) (i - k)" for x :: nat
      by (simp add: drop_bit_eq_div [symmetric] bit_drop_bit_eq)
    with e show "bit m i = bit n i" by simp
  qed
next
  assume "\<forall>i \<ge> k. bit m i = bit n i"
  then show "m div 2 ^ k = n div 2 ^ k"
    by (intro bit_eqI) (simp add: drop_bit_eq_div [symmetric] bit_drop_bit_eq)
qed

lemma in_block_v4:
  assumes "ip_wf (V4 a b c d)" "ip_wf (V4 a' b' c' d')" "pre \<le> 32"
  shows "in_block (V4 a b c d) pre (V4 a' b' c' d') \<longleftrightarrow>
    v4_value a b c d div 2 ^ (32 - pre) = v4_value a' b' c' d' div 2 ^ (32 - pre)"
proof -
  have hi: "\<not> bit (v4_value a b c d) i" if "ip_wf (V4 a b c d)" "32 \<le> i" for a b c d i
  proof -
    have "v4_value a b c d < 2 ^ 32" using that(1) by (simp add: v4_value_def)
    then have "v4_value a b c d < 2 ^ i" using that(2) power_increasing [of 32 i "2::nat"] by linarith
    then show ?thesis by (simp add: bit_iff_odd)
  qed
  have "(\<forall>i. 32 - pre \<le> i \<and> i < 32 \<longrightarrow> bit (v4_value a b c d) i = bit (v4_value a' b' c' d') i) \<longleftrightarrow>
      (\<forall>i \<ge> 32 - pre. bit (v4_value a b c d) i = bit (v4_value a' b' c' d') i)"
    using hi [OF assms(1)] hi [OF assms(2)] by (metis not_le)
  then show ?thesis
    using bit_v4_value [OF assms(1)] bit_v4_value [OF assms(2)]
    by (simp add: in_block_def nat_drop_bits_eq del: ip_bits.simps)
qed

definition special_blocks :: "(ip_addr \<times> nat) list" where
  "special_blocks =
     [(V4 0 0 0 0, 8), (V4 10 0 0 0, 8), (V4 100 64 0 0, 10), (V4 127 0 0 0, 8), (V4 169 254 0 0, 16),
      (V4 172 16 0 0, 12), (V4 192 0 0 0, 24), (V4 192 0 2 0, 24), (V4 192 88 99 0, 24),
      (V4 192 168 0 0, 16), (V4 198 18 0 0, 15), (V4 198 51 100 0, 24), (V4 203 0 113 0, 24),
      (V4 224 0 0 0, 3)]"

lemma in_block_v4_interval:
  assumes "ip_wf (V4 p q r s)" "ip_wf (V4 a b c d)" "pre \<le> 32" "K = 2 ^ (32 - pre)"
    "lo = K * (v4_value p q r s div K)"
  shows "in_block (V4 p q r s) pre (V4 a b c d) \<longleftrightarrow> lo \<le> v4_value a b c d \<and> v4_value a b c d < lo + K"
proof -
  have "in_block (V4 p q r s) pre (V4 a b c d) \<longleftrightarrow> v4_value a b c d div K = v4_value p q r s div K"
    using in_block_v4 [OF assms(1-3)] assms(4) by auto
  also have "\<dots> \<longleftrightarrow> lo \<le> v4_value a b c d \<and> v4_value a b c d < lo + K"
    using nat_div_bracket [of K] assms(4,5) by simp
  finally show ?thesis .
qed

text \<open>
  C6: the test that keeps provider traffic away from internal IPv4 destinations is exactly
  membership in fourteen CIDR blocks: this network, the private ranges, shared address space,
  loopback, link-local (with the cloud metadata address), the documentation, benchmark and
  protocol-assignment ranges, and everything from 224.0.0.0 on.  An IPv4-mapped IPv6 address is
  judged by the IPv4 address it carries.
\<close>

theorem private_or_metadata_ipv4_is_blocks:
  assumes "ip_wf (V4 a b c d)"
  shows "(private_or_metadata_ip (V4 a b c d) \<longleftrightarrow>
           list_ex (\<lambda>(base, pre). in_block base pre (V4 a b c d)) special_blocks)
    \<and> private_or_metadata_ip (V6 [0, 0, 0, 0, 0, 65535, a * 256 + b, c * 256 + d]) =
        private_or_metadata_ip (V4 a b c d)"
proof -
  have bytes: "a < 256" "b < 256" "c < 256" "d < 256" using assms by simp_all
  note blk = in_block_v4_interval [OF _ assms _ refl refl]
  have pre8: "in_block (V4 p 0 0 0) 8 (V4 a b c d) \<longleftrightarrow> a = p" if "p < 256" for p
    using blk [of p 0 0 0 8] that bytes by (auto simp: v4_value_def)
  have pre16: "in_block (V4 p q 0 0) 16 (V4 a b c d) \<longleftrightarrow> a = p \<and> b = q" if "p < 256" "q < 256" for p q
    using blk [of p q 0 0 16] that bytes
    by (cases a p rule: linorder_cases) (auto simp: v4_value_def)
  have pre24: "in_block (V4 p q r 0) 24 (V4 a b c d) \<longleftrightarrow> a = p \<and> b = q \<and> c = r"
    if "p < 256" "q < 256" "r < 256" for p q r
    using blk [of p q r 0 24] that bytes
    by (cases a p rule: linorder_cases; cases b q rule: linorder_cases) (auto simp: v4_value_def)
  have pre10: "in_block (V4 100 64 0 0) 10 (V4 a b c d) \<longleftrightarrow> a = 100 \<and> 64 \<le> b \<and> b \<le> 127"
    using blk [of 100 64 0 0 10] bytes by (cases a "100::nat" rule: linorder_cases) (auto simp: v4_value_def)
  have pre12: "in_block (V4 172 16 0 0) 12 (V4 a b c d) \<longleftrightarrow> a = 172 \<and> 16 \<le> b \<and> b \<le> 31"
    using blk [of 172 16 0 0 12] bytes by (cases a "172::nat" rule: linorder_cases) (auto simp: v4_value_def)
  have pre15: "in_block (V4 198 18 0 0) 15 (V4 a b c d) \<longleftrightarrow> a = 198 \<and> (b = 18 \<or> b = 19)"
    using blk [of 198 18 0 0 15] bytes by (cases a "198::nat" rule: linorder_cases) (auto simp: v4_value_def)
  have pre3: "in_block (V4 224 0 0 0) 3 (V4 a b c d) \<longleftrightarrow> a \<ge> 224"
    using blk [of 224 0 0 0 3] bytes by (auto simp: v4_value_def)
  have "private_or_metadata_ip (V4 a b c d) \<longleftrightarrow>
      list_ex (\<lambda>(base, pre). in_block base pre (V4 a b c d)) special_blocks"
    by (auto simp: special_blocks_def pre8 pre16 pre24 pre10 pre12 pre15 pre3)
  then show ?thesis using bytes by (simp add: to_ipv4_mapped_def)
qed

theorem private_or_metadata_ipv4_is_blocks_witness:
  "list_ex (\<lambda>(base, pre). in_block base pre (V4 169 254 169 254)) special_blocks
   \<and> private_or_metadata_ip (V6 [0, 0, 0, 0, 0, 65535, 169 * 256 + 254, 169 * 256 + 254])"
  using private_or_metadata_ipv4_is_blocks [of 169 254 169 254] by simp

section \<open>What a pinned endpoint guarantees\<close>

lemma sort_dedup_set: "set (sort_dedup xs) = set xs"
  by (simp add: sort_dedup_def)

lemma policy_ok_scheme:
  assumes "validate_provider_base_url_policy parse_url env pid base_url allow = Inr ()"
    and "parse_url base_url = Inr u" and "url_scheme u \<noteq> ''https''"
  shows "provider_allows_loopback_base_url pid \<or> starts_with ''cpa_'' pid \<or> allow
    \<or> env_flag env ''MODELPORT_ALLOW_INSECURE_PROVIDER_HTTP''"
  using assms
  by (auto simp: validate_provider_base_url_policy_def Let_def provider_allows_trusted_internal_http_def
      split: if_splits option.splits)

text \<open>
  C5: a connection of a remote provider can only go to public addresses.  If the private-URL
  override is off and the provider is neither a local nor a CPA one, then every address pinned for
  the connection is outside the special-use ranges, whether it was written literally in the URL or
  came from DNS, the pin is not empty and holds only addresses of that answer, and the URL is
  https unless plain http was explicitly allowed.
\<close>

theorem pinned_endpoint_is_public:
  assumes "resolve_provider_base_url_for_connection parse_url env lookup_host pid base_url False = Inr pin"
    and "\<not> provider_allows_loopback_base_url pid" "\<not> starts_with ''cpa_'' pid"
  shows "pin_addresses pin \<noteq> []
    \<and> (\<forall>(ip, port) \<in> set (pin_addresses pin). \<not> private_or_metadata_ip ip)
    \<and> (\<exists>u h port. parse_url base_url = Inr u \<and> url_host_str u = Some h
        \<and> (url_scheme u = ''https'' \<or> env_flag env ''MODELPORT_ALLOW_INSECURE_PROVIDER_HTTP'')
        \<and> (case parse_ip (trim_end_dots (trim_brackets h)) of
             Some ip \<Rightarrow> set (pin_addresses pin) = {(ip, port)}
           | None \<Rightarrow> \<exists>found. lookup_host (trim_end_dots (trim_brackets h)) port = Some found
               \<and> set (pin_addresses pin) = set found))"
proof -
  have "\<not> provider_allows_trusted_internal_http pid host" for host
    using assms(3) by (simp add: provider_allows_trusted_internal_http_def)
  note closed = this assms(2)
  from assms(1) obtain u h port found where
    v: "validate_provider_base_url_policy parse_url env pid base_url False = Inr ()"
    and u: "parse_url base_url = Inr u" and h: "url_host_str u = Some h"
    and found: "(case parse_ip (trim_end_dots (trim_brackets h)) of
                    Some ip \<Rightarrow> Inr [(ip, port)]
                  | None \<Rightarrow> ok_or (Transport ''provider endpoint DNS resolution failed'')
                      (lookup_host (trim_end_dots (trim_brackets h)) port)) = Inr found"
    and ne: "found \<noteq> []" and pub: "validate_provider_resolved_ips (map fst (sort_dedup found)) = Inr ()"
    and pin: "pin_addresses pin = sort_dedup found"
    using closed
    by (auto simp: resolve_provider_base_url_for_connection_def validate_provider_base_url_for_request_def
        result_iffs Let_def split: sum.splits if_splits)
  have "\<forall>(ip, port) \<in> set found. \<not> private_or_metadata_ip ip"
    using pub by (auto simp: validate_provider_resolved_ips_def list_ex_iff sort_dedup_set split: if_splits)
  moreover have "sort_dedup found \<noteq> []" using ne sort_dedup_set [of found] by force
  moreover have "url_scheme u = ''https'' \<or> env_flag env ''MODELPORT_ALLOW_INSECURE_PROVIDER_HTTP''"
    using policy_ok_scheme [OF v u] assms(2,3) by blast
  moreover have "case parse_ip (trim_end_dots (trim_brackets h)) of
             Some ip \<Rightarrow> set (pin_addresses pin) = {(ip, port)}
           | None \<Rightarrow> \<exists>found. lookup_host (trim_end_dots (trim_brackets h)) port = Some found
               \<and> set (pin_addresses pin) = set found"
    using found by (auto simp: pin sort_dedup_set ok_or_Inr_iff split: option.splits)
  ultimately show ?thesis using u h by (auto simp: pin sort_dedup_set)
qed

definition example_url :: url where
  "example_url =
     \<lparr> url_scheme = ''https'', url_username = [], url_password = None, url_fragment = None,
       url_query = None, url_host_str = Some ''h.io'', url_port_or_known_default = Some 443,
       url_path = ''/'' \<rparr>"

theorem pinned_endpoint_is_public_witness:
  "\<exists>pin. resolve_provider_base_url_for_connection (\<lambda>_. Inr example_url) (\<lambda>_. None)
      (\<lambda>_ port. Some [(V4 93 184 215 14, port)]) ''openai'' ''https://h.io/'' False = Inr pin
    \<and> pin_addresses pin = [(V4 93 184 215 14, 443)]
    \<and> (\<forall>(ip, port) \<in> set (pin_addresses pin). \<not> private_or_metadata_ip ip)"
proof -
  let ?pin = "\<lparr> pin_dns_name = Some ''h.io'', pin_addresses = [(V4 93 184 215 14, 443)] \<rparr>"
  have t: "trim_end_dots ''h.io'' = ''h.io''" "trim_brackets ''h.io'' = ''h.io''"
      "\<not> provider_allows_loopback_base_url ''openai''" "\<not> starts_with ''cpa_'' ''openai''"
    by (simp_all add: trim_end_dots_def trim_brackets_def Let_def provider_allows_loopback_base_url_def
        starts_with_def)
  have n: "\<not> eq_ignore_ascii_case ''h.io'' ''localhost''"
    by (simp add: eq_ignore_ascii_case_def to_ascii_lowercase_def)
  have ip: "parse_ip ''h.io'' = None"
    by (simp add: parse_ip_def read_ipv4_addr_def read_ipv6_addr_def read_groups.simps read_octet_def
        read_separator_def read_number_def dec_val_def hex_val_def char_class_defs)
  have r: "resolve_provider_base_url_for_connection (\<lambda>_. Inr example_url) (\<lambda>_. None)
      (\<lambda>_ port. Some [(V4 93 184 215 14, port)]) ''openai'' ''https://h.io/'' False = Inr ?pin"
    using t(4)
    by (simp add: resolve_provider_base_url_for_connection_def validate_provider_base_url_for_request_def
        validate_provider_base_url_policy_def example_url_def t n ip Let_def sort_dedup_def
        validate_provider_resolved_ips_def provider_allows_trusted_internal_http_def)
  from pinned_endpoint_is_public [OF r t(3,4)] r show ?thesis by auto
qed

end
