(* ===== verification/Provider_Config.thy ===== *)
theory Provider_Config
  imports App_Error
begin

text \<open>
  Provider configuration and model resolution, \<^verbatim>\<open>src/config.rs\<close>.  A requested model name is
  resolved to a provider and an upstream model through an explicit \<open>provider:model\<close> form, aliases
  (which may chain), exact and prefix matches, and the default provider.  \<open>HashMap\<close>s that are only
  looked up are maps.  Of \<open>ProviderConfig\<close> the record keeps the fields that routing, governance and
  credential handling read; tuning of the upstream request is not part of it.

  The lemmas show that resolution always ends, names only configured providers, and never yields
  an alias as an upstream model by accident of depth.
\<close>

section \<open>Definitions\<close>

datatype provider_protocol = Anthropic | OpenaiCompat

datatype tool_argument_mode = Native | Delta | Cumulative | BestEffortArguments

datatype tool_response_validation = BestEffortValidation | StrictValidation

record tool_use_config =
  tu_supported :: bool
  tu_tool_choice :: bool
  tu_parallel_tool_calls :: bool
  tu_streaming_arguments :: tool_argument_mode
  tu_response_validation :: tool_response_validation
  tu_repair_invalid_arguments :: bool

record provider_config =
  pc_display_name :: string
  pc_protocol :: provider_protocol
  pc_base_url :: string
  pc_api_key_env :: "string option"
  pc_api_key :: "string option"
  pc_api_key_required :: bool
  pc_default_model :: string
  pc_models :: "string list"
  pc_model_prefixes :: "string list"
  pc_passthrough_unknown_models :: bool
  pc_deduplicate_stream_text :: bool
  pc_buffer_stream_text :: bool
  pc_tool_use :: tool_use_config

record resolved_provider =
  rp_provider_id :: string
  rp_provider :: provider_config
  rp_model :: string

record app_config =
  ac_auth_token :: "string option"
  ac_default_provider :: string
  ac_provider_order :: "string list"
  ac_providers :: "string \<Rightarrow> provider_config option"
  ac_aliases :: "string \<Rightarrow> string option"

definition resolve_for_provider :: "app_config \<Rightarrow> string \<Rightarrow> string option \<Rightarrow> resolved_provider result" where
  "resolve_for_provider cfg provider_id model =
     and_then (ok_or (ProviderNotFound provider_id) (ac_providers cfg provider_id)) (\<lambda>provider.
       let model = (case model of
                      Some m \<Rightarrow> if trim m \<noteq> [] then m else pc_default_model provider
                    | None \<Rightarrow> pc_default_model provider)
       in Inr \<lparr> rp_provider_id = provider_id, rp_provider = provider, rp_model = model \<rparr>)"

definition parse_provider_model :: "app_config \<Rightarrow> string \<Rightarrow> (string \<times> string) option" where
  "parse_provider_model cfg value =
     (case split_once CHR '':'' value of
        None \<Rightarrow> None
      | Some (provider_id, model) \<Rightarrow>
          if ac_providers cfg provider_id \<noteq> None then Some (provider_id, trim model) else None)"

fun find_in_order ::
  "app_config \<Rightarrow> (provider_config \<Rightarrow> bool) \<Rightarrow> string list \<Rightarrow> (string \<times> provider_config) option" where
  "find_in_order cfg P [] = None"
| "find_in_order cfg P (i # ids) =
     (case ac_providers cfg i of
        Some provider \<Rightarrow> if P provider then Some (i, provider) else find_in_order cfg P ids
      | None \<Rightarrow> find_in_order cfg P ids)"

definition find_provider_by_exact_model ::
  "app_config \<Rightarrow> string \<Rightarrow> (string \<times> provider_config) option" where
  "find_provider_by_exact_model cfg model =
     find_in_order cfg (\<lambda>provider. model \<in> set (pc_models provider)) (ac_provider_order cfg)"

definition find_provider_by_model_prefix ::
  "app_config \<Rightarrow> string \<Rightarrow> (string \<times> provider_config) option" where
  "find_provider_by_model_prefix cfg model =
     find_in_order cfg (\<lambda>provider. list_ex (\<lambda>p. starts_with p model) (pc_model_prefixes provider))
       (ac_provider_order cfg)"

text \<open>\<open>resolve_inner\<close> and \<open>resolve_alias_target\<close> call each other; the depth bounds the recursion.\<close>

function resolve_inner :: "app_config \<Rightarrow> string \<Rightarrow> nat \<Rightarrow> resolved_provider result"
  and resolve_alias_target :: "app_config \<Rightarrow> string \<Rightarrow> string \<Rightarrow> nat \<Rightarrow> resolved_provider result" where
  "resolve_inner cfg requested_model depth =
     (if depth > 8 then Inl (InvalidRequest ''model alias chain is too deep or cyclic'')
      else if requested_model = [] then resolve_for_provider cfg (ac_default_provider cfg) None
      else case parse_provider_model cfg requested_model of
        Some (provider_id, model) \<Rightarrow> resolve_for_provider cfg provider_id (Some model)
      | None \<Rightarrow>
      (case ac_aliases cfg requested_model of
        Some target \<Rightarrow> resolve_alias_target cfg requested_model target (depth + 1)
      | None \<Rightarrow>
      (case find_provider_by_exact_model cfg requested_model of
        Some (provider_id, provider) \<Rightarrow>
          Inr \<lparr> rp_provider_id = provider_id, rp_provider = provider, rp_model = requested_model \<rparr>
      | None \<Rightarrow>
      (case find_provider_by_model_prefix cfg requested_model of
        Some (provider_id, provider) \<Rightarrow>
          Inr \<lparr> rp_provider_id = provider_id, rp_provider = provider, rp_model = requested_model \<rparr>
      | None \<Rightarrow>
          and_then (ok_or (ProviderNotFound (ac_default_provider cfg))
                     (ac_providers cfg (ac_default_provider cfg))) (\<lambda>provider.
            Inr \<lparr> rp_provider_id = ac_default_provider cfg, rp_provider = provider,
                  rp_model = (if pc_passthrough_unknown_models provider then requested_model
                              else pc_default_model provider) \<rparr>)))))"
| "resolve_alias_target cfg alias target depth =
     (case split_once CHR '':'' target of
        Some (provider_id, model) \<Rightarrow>
          if ac_providers cfg provider_id = None then Inl (ProviderNotFound provider_id)
          else resolve_for_provider cfg provider_id (Some model)
      | None \<Rightarrow>
          (case ac_providers cfg target of
             Some provider \<Rightarrow>
               Inr \<lparr> rp_provider_id = target, rp_provider = provider,
                     rp_model = (if alias \<in> set (pc_models provider) then alias
                                 else pc_default_model provider) \<rparr>
           | None \<Rightarrow> resolve_inner cfg target depth))"
  by pat_completeness auto
termination
  by (relation "measure (\<lambda>x. case x of Inl (cfg, r, d) \<Rightarrow> 2 * (10 - d)
                                     | Inr (cfg, a, t, d) \<Rightarrow> 2 * (10 - d) + 1)") auto

declare resolve_inner.simps [simp del] resolve_alias_target.simps [simp del]

definition resolve :: "app_config \<Rightarrow> string \<Rightarrow> resolved_provider result" where
  "resolve cfg requested_model = resolve_inner cfg (trim requested_model) 0"

text \<open>Unicode upper-casing of the display name is a parameter.\<close>

definition api_key :: "(string \<Rightarrow> string) \<Rightarrow> provider_config \<Rightarrow> string option result" where
  "api_key to_uppercase p =
     (case pc_api_key p of
        Some k \<Rightarrow> Inr (Some k)
      | None \<Rightarrow>
          if pc_api_key_required p
          then Inl (MissingSecret (case pc_api_key_env p of
                  Some name \<Rightarrow> name
                | None \<Rightarrow> to_uppercase (pc_display_name p) @ ''_API_KEY''))
          else Inr None)"

fun trim_end_char :: "char \<Rightarrow> string \<Rightarrow> string" where
  "trim_end_char c s = rev (dropWhile (\<lambda>x. x = c) (rev s))"

definition endpoint :: "provider_config \<Rightarrow> string \<Rightarrow> string" where
  "endpoint p path =
     trim_end_char CHR ''/'' (pc_base_url p) @ ''/'' @ dropWhile (\<lambda>x. x = CHR ''/'') path"

definition validate_client_auth :: "app_config \<Rightarrow> string option \<Rightarrow> string option \<Rightarrow> unit result" where
  "validate_client_auth cfg x_api_key authorization =
     (case ac_auth_token cfg of
        None \<Rightarrow> Inr ()
      | Some expected \<Rightarrow>
          (let bearer = Option.bind authorization (strip_prefix ''Bearer '')
           in if x_api_key = Some expected \<or> bearer = Some expected then Inr () else Inl Auth))"

definition is_single_tool_runtime :: "string \<Rightarrow> bool" where
  "is_single_tool_runtime provider_id \<longleftrightarrow>
     provider_id \<in> {''ollama'', ''local_sglang'', ''local_vllm'', ''local_llamacpp''}"

definition is_unknown_tool_runtime :: "string \<Rightarrow> bool" where
  "is_unknown_tool_runtime provider_id \<longleftrightarrow>
     provider_id \<in> {''custom'', ''ollama'', ''local_sglang'', ''local_vllm'', ''local_llamacpp''}"

definition default_tool_use_config :: "string \<Rightarrow> provider_protocol \<Rightarrow> bool \<Rightarrow> tool_use_config" where
  "default_tool_use_config provider_id protocol deduplicate_stream_text =
     \<lparr> tu_supported = True, tu_tool_choice = True,
       tu_parallel_tool_calls = (\<not> is_single_tool_runtime provider_id),
       tu_streaming_arguments =
         (case protocol of
            Anthropic \<Rightarrow> Native
          | OpenaiCompat \<Rightarrow>
              if deduplicate_stream_text then Cumulative
              else if is_unknown_tool_runtime provider_id then BestEffortArguments
              else Delta),
       tu_response_validation = BestEffortValidation,
       tu_repair_invalid_arguments = False \<rparr>"

section \<open>Resolution\<close>

lemma resolve_for_provider_ok:
  "resolve_for_provider cfg i m = Inr r \<Longrightarrow>
   rp_provider_id r = i \<and> ac_providers cfg i = Some (rp_provider r)"
  by (auto simp: resolve_for_provider_def result_iffs Let_def)

lemma find_in_order_Some:
  "find_in_order cfg P ids = Some (i, p) \<Longrightarrow> i \<in> set ids \<and> ac_providers cfg i = Some p \<and> P p"
  by (induction ids) (auto split: option.splits if_splits)

lemma parse_provider_model_Some:
  "parse_provider_model cfg v = Some (i, m) \<Longrightarrow> ac_providers cfg i \<noteq> None"
  by (auto simp: parse_provider_model_def split: option.splits if_splits)

lemmas find_provider_defs = find_provider_by_exact_model_def find_provider_by_model_prefix_def

definition names_configured :: "app_config \<Rightarrow> resolved_provider result \<Rightarrow> bool" where
  "names_configured cfg res \<longleftrightarrow>
     (case res of Inr r \<Rightarrow> ac_providers cfg (rp_provider_id r) = Some (rp_provider r) | Inl _ \<Rightarrow> True)"

lemma names_configured_simps [simp]:
  "names_configured cfg (Inl e)"
  "names_configured cfg (Inr r) \<longleftrightarrow> ac_providers cfg (rp_provider_id r) = Some (rp_provider r)"
  by (simp_all add: names_configured_def)

lemma names_configured_for_provider: "names_configured cfg (resolve_for_provider cfg i m)"
  by (cases "resolve_for_provider cfg i m") (auto dest: resolve_for_provider_ok)

lemma resolve_names_configured:
  "names_configured cfg (resolve_inner cfg v d)"
  "names_configured cfg (resolve_alias_target cfg a t d)"
proof (induction cfg v d and cfg a t d rule: resolve_inner_resolve_alias_target.induct)
  case (1 cfg v d)
  then show ?case
    by (subst resolve_inner.simps)
      (auto simp: names_configured_for_provider find_provider_defs result_iffs and_then_def ok_or_def
        dest: find_in_order_Some split: option.splits)
next
  case (2 cfg a t d)
  then show ?case
    by (subst resolve_alias_target.simps) (auto simp: names_configured_for_provider split: option.splits)
qed

lemma resolve_for_provider_error:
  "resolve_for_provider cfg i m = Inl e \<Longrightarrow> e = ProviderNotFound i \<and> ac_providers cfg i = None"
  by (auto simp: resolve_for_provider_def and_then_Inl_iff ok_or_def Let_def split: option.splits)

definition resolution_error :: "app_config \<Rightarrow> app_error \<Rightarrow> bool" where
  "resolution_error cfg e \<longleftrightarrow>
     e = InvalidRequest ''model alias chain is too deep or cyclic'' \<or>
     (\<exists>p. e = ProviderNotFound p \<and> ac_providers cfg p = None)"

lemma resolve_errors:
  "resolve_inner cfg v d = Inl e \<Longrightarrow> resolution_error cfg e"
  "resolve_alias_target cfg a t d = Inl e \<Longrightarrow> resolution_error cfg e"
proof (induction cfg v d and cfg a t d arbitrary: e and e rule: resolve_inner_resolve_alias_target.induct)
  case (1 cfg v d)
  then show ?case
    by (subst (asm) resolve_inner.simps)
      (auto simp: ok_or_def resolution_error_def dest!: resolve_for_provider_error
        split: option.splits if_splits prod.splits)
next
  case (2 cfg a t d)
  then show ?case
    by (subst (asm) resolve_alias_target.simps)
      (auto simp: resolution_error_def dest!: resolve_for_provider_error
        split: option.splits if_splits prod.splits)
qed


text \<open>
  A cycle of aliases is reported and never followed for ever.  If the target of every alias
  of a set is again an alias of the set, and none is empty, has the \<open>provider:model\<close> form or
  names a provider, then resolving any of them gives the error for cyclic chains.
\<close>

theorem alias_cycle_detected:
  assumes closed: "\<And>a. a \<in> S \<Longrightarrow> \<exists>t \<in> S. ac_aliases cfg a = Some t"
    and plain: "\<And>a. a \<in> S \<Longrightarrow> a \<noteq> [] \<and> CHR '':'' \<notin> set a \<and> ac_providers cfg a = None"
    and "trim name \<in> S"
  shows "resolve cfg name = Inl (InvalidRequest ''model alias chain is too deep or cyclic'')"
proof -
  have "resolve_inner cfg a d = Inl (InvalidRequest ''model alias chain is too deep or cyclic'')"
    if "a \<in> S" for a d
    using that
  proof (induction "9 - d" arbitrary: a d)
    case 0
    then show ?case by (simp add: resolve_inner.simps)
  next
    case (Suc n)
    obtain t where t: "t \<in> S" "ac_aliases cfg a = Some t" using closed [OF Suc.prems] by blast
    have "resolve_inner cfg t (d + 1) = Inl (InvalidRequest ''model alias chain is too deep or cyclic'')"
      using Suc.hyps(1) [of "d + 1" t] Suc.hyps(2) t(1) by simp
    moreover have "split_once CHR '':'' t = None" "split_once CHR '':'' a = None"
      using plain [OF t(1)] plain [OF Suc.prems] by (simp_all add: split_once_None)
    ultimately show ?case
      using plain [OF t(1)] plain [OF Suc.prems] t(2)
      by (simp add: resolve_inner.simps [of cfg a d] resolve_alias_target.simps [of cfg a t]
          parse_provider_model_def)
  qed
  with assms(3) show ?thesis by (simp add: resolve_def)
qed

definition cyclic_config :: app_config where
  "cyclic_config =
     \<lparr> ac_auth_token = None, ac_default_provider = ''p'', ac_provider_order = [],
       ac_providers = (\<lambda>_. None), ac_aliases = (\<lambda>a. if a = ''x'' then Some ''y'' else if a = ''y'' then Some ''x'' else None) \<rparr>"

theorem alias_cycle_detected_witness:
  "resolve cyclic_config ''x'' = Inl (InvalidRequest ''model alias chain is too deep or cyclic'')"
proof -
  have "trim ''x'' = ''x''" by code_simp
  then show ?thesis
    by (intro alias_cycle_detected [where S = "{''x'', ''y''}"]) (auto simp: cyclic_config_def)
qed

end
