(* ===== verification/State_Store.thy ===== *)
theory State_Store
  imports App_Error
begin

text \<open>
  Durable state, \<^verbatim>\<open>src/storage.rs\<close>, and the way every stateful component uses it
  (\<open>save_or_restore\<close> of \<^verbatim>\<open>src/governance.rs\<close>, \<^verbatim>\<open>src/control.rs\<close>, \<^verbatim>\<open>src/auth.rs\<close>): a table
  of documents with revisions, written only by compare-and-swap.  A row holds the document its
  JSON encodes.  A fault is what a call to the database meets: nothing, a failure before the
  statement takes effect, or a failure after it did, so that the answer is lost.

  The locale \<open>persistent\<close> states what a component supplies (what of its state is written, and how
  it is read back) and proves once that no acknowledged write is lost between instances.
\<close>

section \<open>The table\<close>

definition i64_limit :: nat where "i64_limit = 9223372036854775807"

record 'f versioned_value =
  vv_value :: "'f option"
  vv_revision :: u64

type_synonym 'f state_table = "string \<Rightarrow> ('f \<times> nat) option"

datatype fault = NoFault | FailBefore string | FailAfter string

definition state_conflict :: "string \<Rightarrow> nat \<Rightarrow> app_error" where
  "state_conflict namespace expected_revision =
     StateConflict (namespace @ '' state changed after revision '' @ show_nat expected_revision @
       ''; reload the latest state before retrying'')"

definition read_postgres_value :: "'f state_table \<Rightarrow> string \<Rightarrow> 'f versioned_value" where
  "read_postgres_value table namespace =
     (case table namespace of
        None \<Rightarrow> \<lparr> vv_value = None, vv_revision = 0 \<rparr>
      | Some (f, revision) \<Rightarrow> \<lparr> vv_value = Some f, vv_revision = revision \<rparr>)"

text \<open>
  The statement: update the row when its revision is the expected one, insert it at revision 1
  when it is absent and 0 is expected, and return the new revision if either happened.
\<close>

definition cas_statement ::
  "'f state_table \<Rightarrow> string \<Rightarrow> nat \<Rightarrow> 'f \<Rightarrow> 'f state_table \<times> (string + nat option)" where
  "cas_statement table namespace expected f =
     (case table namespace of
        Some (_, revision) \<Rightarrow>
          if revision = expected
          then if revision + 1 \<le> i64_limit
               then (table(namespace \<mapsto> (f, revision + 1)), Inr (Some (revision + 1)))
               else (table, Inl ''bigint out of range'')
          else (table, Inr None)
      | None \<Rightarrow>
          if expected = 0 then (table(namespace \<mapsto> (f, 1)), Inr (Some 1)) else (table, Inr None))"

definition compare_and_swap_postgres_value ::
  "'f state_table \<Rightarrow> string \<Rightarrow> nat \<Rightarrow> 'f \<Rightarrow> 'f state_table \<times> nat result" where
  "compare_and_swap_postgres_value table namespace expected_revision f =
     (if expected_revision > i64_limit
      then (table, Inl (Database ''state revision exceeds PostgreSQL BIGINT''))
      else case cas_statement table namespace expected_revision f of
             (table', Inl m) \<Rightarrow> (table', Inl (Database m))
           | (table', Inr None) \<Rightarrow> (table', Inl (state_conflict namespace expected_revision))
           | (table', Inr (Some revision)) \<Rightarrow> (table', Inr revision))"

definition compare_and_swap_value ::
  "fault \<Rightarrow> 'f state_table \<Rightarrow> string \<Rightarrow> nat \<Rightarrow> 'f \<Rightarrow> 'f state_table \<times> nat result" where
  "compare_and_swap_value fault table namespace expected_revision f =
     (case fault of
        NoFault \<Rightarrow> compare_and_swap_postgres_value table namespace expected_revision f
      | FailBefore m \<Rightarrow> (table, Inl (Database m))
      | FailAfter m \<Rightarrow>
          (fst (compare_and_swap_postgres_value table namespace expected_revision f), Inl (Database m)))"

text \<open>One transaction over several rows: the first failure rolls everything back.\<close>

record 'f state_write =
  sw_namespace :: string
  sw_expected_revision :: nat
  sw_value :: 'f

fun cas_all :: "'f state_table \<Rightarrow> 'f state_write list \<Rightarrow> 'f state_table \<times> nat list result" where
  "cas_all table [] = (table, Inr [])"
| "cas_all table (w # ws) =
     (case compare_and_swap_postgres_value table (sw_namespace w) (sw_expected_revision w) (sw_value w) of
        (table', Inl e) \<Rightarrow> (table', Inl e)
      | (table', Inr revision) \<Rightarrow>
          (case cas_all table' ws of
             (table'', Inl e) \<Rightarrow> (table'', Inl e)
           | (table'', Inr revisions) \<Rightarrow> (table'', Inr (revision # revisions))))"

definition compare_and_swap_postgres_values ::
  "fault \<Rightarrow> 'f state_table \<Rightarrow> 'f state_write list \<Rightarrow> 'f state_table \<times> nat list result" where
  "compare_and_swap_postgres_values fault table ws =
     (case fault of
        FailBefore m \<Rightarrow> (table, Inl (Database m))
      | _ \<Rightarrow>
          (case cas_all table ws of
             (_, Inl e) \<Rightarrow> (table, Inl e)
           | (table', Inr revisions) \<Rightarrow>
               (case fault of FailAfter m \<Rightarrow> (table', Inl (Database m)) | _ \<Rightarrow> (table', Inr revisions))))"

definition compare_and_swap_pair ::
  "fault \<Rightarrow> 'f state_table \<Rightarrow> string \<times> string \<times> nat \<times> 'f \<Rightarrow> string \<times> string \<times> nat \<times> 'f \<Rightarrow>
   'f state_table \<times> (nat \<times> nat) result" where
  "compare_and_swap_pair fault table first second =
     (let (first_url, first_ns, first_rev, first_value) = first;
          (second_url, second_ns, second_rev, second_value) = second
      in if first_url \<noteq> second_url
         then (table, Inl (Config ''atomic state restore requires auth and control to use the same PostgreSQL database''))
         else if first_ns = second_ns
         then (table, Inl (InvalidRequest ''atomic state restore requires distinct namespaces''))
         else
           (case compare_and_swap_postgres_values fault table
                   [\<lparr> sw_namespace = first_ns, sw_expected_revision = first_rev, sw_value = first_value \<rparr>,
                    \<lparr> sw_namespace = second_ns, sw_expected_revision = second_rev, sw_value = second_value \<rparr>] of
              (table', Inl e) \<Rightarrow> (table', Inl e)
            | (table', Inr revisions) \<Rightarrow>
                (case revisions of
                   [r1, r2] \<Rightarrow> (table', Inr (r1, r2))
                 | _ \<Rightarrow> (table', Inl (Database ''atomic state restore returned an invalid revision count'')))))"

section \<open>A component and its row\<close>

text \<open>
  The in-process side: the document under the component's lock, the revision it was read or last
  written at, and the degraded flag.  \<open>persist\<close> is what of the document is written.
\<close>

record 'i cell =
  cell_doc :: 'i
  cell_revision :: u64
  cell_degraded :: bool

definition save_or_restore ::
  "('i \<Rightarrow> 'f) \<Rightarrow> string \<Rightarrow> fault \<Rightarrow> 'f state_table \<Rightarrow> 'i cell \<Rightarrow> 'i \<Rightarrow>
   'f state_table \<times> 'i cell \<times> unit result" where
  "save_or_restore persist namespace fault table previous inner =
     (case compare_and_swap_value fault table namespace (cell_revision previous) (persist inner) of
        (table', Inr revision) \<Rightarrow>
          (table', \<lparr> cell_doc = inner, cell_revision = revision, cell_degraded = False \<rparr>, Inr ())
      | (table', Inl e) \<Rightarrow> (table', previous\<lparr> cell_degraded := True \<rparr>, Inl e))"

text \<open>
  The shape of every state-changing operation: compute on a copy under the lock, return early on
  a refusal, otherwise save or restore.
\<close>

definition transact ::
  "('i \<Rightarrow> 'f) \<Rightarrow> string \<Rightarrow> fault \<Rightarrow> ('i \<Rightarrow> ('r \<times> 'i) result) \<Rightarrow> 'f state_table \<Rightarrow> 'i cell \<Rightarrow>
   'f state_table \<times> 'i cell \<times> 'r result" where
  "transact persist namespace fault operation table cell =
     (case operation (cell_doc cell) of
        Inl e \<Rightarrow> (table, cell, Inl e)
      | Inr (r, inner) \<Rightarrow>
          (case save_or_restore persist namespace fault table cell inner of
             (table', cell', Inl e) \<Rightarrow> (table', cell', Inl e)
           | (table', cell', Inr _) \<Rightarrow> (table', cell', Inr r)))"

definition health_check :: "string \<Rightarrow> 'f state_table \<Rightarrow> string \<Rightarrow> 'i cell \<Rightarrow> 'i cell \<times> unit result" where
  "health_check label table namespace cell =
     (if cell_degraded cell
      then (cell, Inl (NotReady (label @ '' persistence is degraded after a failed write'')))
      else let persisted_revision = vv_revision (read_postgres_value table namespace);
               local_revision = cell_revision cell
           in if persisted_revision \<noteq> local_revision
              then (cell\<lparr> cell_degraded := True \<rparr>,
                    Inl (NotReady (label @ '' state is stale at revision '' @ show_nat local_revision @
                      ''; PostgreSQL is at revision '' @ show_nat persisted_revision)))
              else (cell, Inr ()))"

section \<open>Facts about one write\<close>

definition row_revision :: "'f state_table \<Rightarrow> string \<Rightarrow> nat" where
  "row_revision table namespace = vv_revision (read_postgres_value table namespace)"

lemma row_revision_simps [simp]:
  "table ns = None \<Longrightarrow> row_revision table ns = 0"
  "table ns = Some (f, r) \<Longrightarrow> row_revision table ns = r"
  by (simp_all add: row_revision_def read_postgres_value_def)

lemmas cas_defs = compare_and_swap_value_def compare_and_swap_postgres_value_def cas_statement_def

lemma cas_value_cases:
  assumes "compare_and_swap_value fault table ns expected f = (table', r)"
  obtains (unchanged) e where "table' = table" "r = Inl e"
  | (written) rev where "table' = table(ns \<mapsto> (f, row_revision table ns + 1))"
      "row_revision table ns = expected" "rev = row_revision table ns + 1" "fault = NoFault" "r = Inr rev"
  | (lost) e where "table' = table(ns \<mapsto> (f, row_revision table ns + 1))"
      "row_revision table ns = expected" "r = Inl e"
  using assms by (cases "table ns"; cases fault) (auto simp: cas_defs split: if_splits)

lemma transact_cases:
  assumes "transact persist ns fault operation table cell = (table', cell', r)"
  obtains (refused) e where "operation (cell_doc cell) = Inl e" "table' = table" "cell' = cell" "r = Inl e"
  | (failed) e x inner where "operation (cell_doc cell) = Inr (x, inner)" "r = Inl e"
      "cell' = cell\<lparr> cell_degraded := True \<rparr>"
      "table' = table \<or>
       row_revision table ns = cell_revision cell \<and>
       table' = table(ns \<mapsto> (persist inner, row_revision table ns + 1))"
  | (saved) x inner where "operation (cell_doc cell) = Inr (x, inner)" "r = Inr x"
      "row_revision table ns = cell_revision cell"
      "table' = table(ns \<mapsto> (persist inner, row_revision table ns + 1))"
      "cell' = \<lparr> cell_doc = inner, cell_revision = row_revision table ns + 1, cell_degraded = False \<rparr>"
proof (cases "operation (cell_doc cell)")
  case (Inl e)
  with assms show thesis by (intro refused [of e]) (auto simp: transact_def)
next
  case (Inr xi)
  obtain x inner where xi: "xi = (x, inner)" by force
  obtain t0 r0 where cas: "compare_and_swap_value fault table ns (cell_revision cell) (persist inner) = (t0, r0)"
    by force
  from cas show thesis
  proof (cases rule: cas_value_cases)
    case (unchanged e)
    with assms Inr xi cas show thesis
      by (intro failed [of x inner e]) (auto simp: transact_def save_or_restore_def)
  next
    case (written rev)
    with assms Inr xi cas show thesis
      by (intro saved [of x inner]) (auto simp: transact_def save_or_restore_def)
  next
    case (lost e)
    with assms Inr xi cas show thesis
      by (intro failed [of x inner e]) (auto simp: transact_def save_or_restore_def)
  qed
qed

section \<open>Several instances over one table\<close>

text \<open>
  Every replica of the service holds a cell per component.  A replica loads its cell at start-up
  and then runs operations; the database and the scheduler decide order and faults.
\<close>

record ('i, 'f) cluster =
  cl_table :: "'f state_table"
  cl_cells :: "nat \<Rightarrow> 'i cell"

definition load_cell :: "('f \<Rightarrow> 'i) \<Rightarrow> 'i \<Rightarrow> string \<Rightarrow> 'f state_table \<Rightarrow> 'i cell" where
  "load_cell restore initial namespace table =
     (let document = read_postgres_value table namespace
      in \<lparr> cell_doc = (case vv_value document of Some f \<Rightarrow> restore f | None \<Rightarrow> initial),
           cell_revision = vv_revision document, cell_degraded = False \<rparr>)"

inductive cluster_step ::
  "('i \<Rightarrow> 'f) \<Rightarrow> ('f \<Rightarrow> 'i) \<Rightarrow> 'i \<Rightarrow> string \<Rightarrow> ('i \<Rightarrow> ('r \<times> 'i) result) set \<Rightarrow>
   ('i, 'f) cluster \<Rightarrow> ('i, 'f) cluster \<Rightarrow> bool"
  for persist :: "'i \<Rightarrow> 'f" and restore :: "'f \<Rightarrow> 'i" and initial :: 'i and ns :: string
    and operations :: "('i \<Rightarrow> ('r \<times> 'i) result) set" where
  load: "cluster_step persist restore initial ns operations s
           (s\<lparr> cl_cells := (cl_cells s)(k := load_cell restore initial ns (cl_table s)) \<rparr>)"
| run: "operation \<in> operations \<Longrightarrow>
        transact persist ns fault operation (cl_table s) (cl_cells s k) = (table', cell', r) \<Longrightarrow>
        cluster_step persist restore initial ns operations s
          (s\<lparr> cl_table := table', cl_cells := (cl_cells s)(k := cell') \<rparr>)"
| check: "health_check label (cl_table s) ns (cl_cells s k) = (cell', r) \<Longrightarrow>
        cluster_step persist restore initial ns operations s
          (s\<lparr> cl_cells := (cl_cells s)(k := cell') \<rparr>)"

inductive_cases cluster_stepE [consumes 1, case_names load run check]: "cluster_step persist restore initial ns operations s t"

definition cluster_init :: "('f \<Rightarrow> 'i) \<Rightarrow> 'i \<Rightarrow> string \<Rightarrow> ('i, 'f) cluster \<Rightarrow> bool" where
  "cluster_init restore initial ns s \<longleftrightarrow>
     cl_table s ns = None \<and> (\<forall>k. cl_cells s k = load_cell restore initial ns (cl_table s))"

definition stored :: "('i \<Rightarrow> 'f) \<Rightarrow> 'i \<Rightarrow> string \<Rightarrow> 'f state_table \<Rightarrow> 'f" where
  "stored persist initial ns table =
     (case table ns of None \<Rightarrow> persist initial | Some (f, _) \<Rightarrow> f)"

definition coherent_cell :: "('i \<Rightarrow> 'f) \<Rightarrow> 'i \<Rightarrow> string \<Rightarrow> 'f state_table \<Rightarrow> 'i cell \<Rightarrow> bool" where
  "coherent_cell persist initial ns table c \<longleftrightarrow>
     cell_revision c \<le> row_revision table ns
     \<and> (cell_revision c = row_revision table ns \<longrightarrow> persist (cell_doc c) = stored persist initial ns table)"

definition coherent :: "('i \<Rightarrow> 'f) \<Rightarrow> 'i \<Rightarrow> string \<Rightarrow> ('i, 'f) cluster \<Rightarrow> bool" where
  "coherent persist initial ns s \<longleftrightarrow> (\<forall>k. coherent_cell persist initial ns (cl_table s) (cl_cells s k))"

lemma health_check_cell:
  "health_check label table ns c = (c', r) \<Longrightarrow> cell_doc c' = cell_doc c \<and> cell_revision c' = cell_revision c"
  by (auto simp: health_check_def Let_def split: if_splits)

lemma coherent_cell_health:
  "health_check label table ns c = (c', r) \<Longrightarrow>
   coherent_cell persist initial ns table c' = coherent_cell persist initial ns table c"
  by (simp add: coherent_cell_def health_check_cell)

lemma coherent_cell_written:
  "coherent_cell persist initial ns table c \<Longrightarrow>
   coherent_cell persist initial ns (table(ns \<mapsto> (f, row_revision table ns + 1))) c"
  by (auto simp: coherent_cell_def)

lemma coherent_cell_degraded [simp]:
  "coherent_cell persist initial ns table (c\<lparr> cell_degraded := b \<rparr>) = coherent_cell persist initial ns table c"
  by (simp add: coherent_cell_def)

locale persistent =
  fixes persist :: "'i \<Rightarrow> 'f"
    and restore :: "'f \<Rightarrow> 'i"
    and initial :: 'i
    and ns :: string
    and operations :: "('i \<Rightarrow> ('r \<times> 'i) result) set"
    and doc_inv :: "'i \<Rightarrow> bool"
  assumes persist_restore: "persist (restore f) = f"
    and inv_initial: "doc_inv initial"
    and inv_restore: "doc_inv d \<Longrightarrow> doc_inv (restore (persist d))"
    and inv_operation: "operation \<in> operations \<Longrightarrow> doc_inv d \<Longrightarrow> operation d = Inr (x, d') \<Longrightarrow> doc_inv d'"
begin

lemma coherent_load: "coherent_cell persist initial ns table (load_cell restore initial ns table)"
  by (cases "table ns")
    (auto simp: coherent_cell_def load_cell_def stored_def read_postgres_value_def persist_restore)

lemma coherent_step:
  assumes "cluster_step persist restore initial ns operations s t" "coherent persist initial ns s"
  shows "coherent persist initial ns t"
  using assms(1)
proof (cases rule: cluster_stepE)
  case (load k)
  with assms(2) show ?thesis by (auto simp: coherent_def coherent_load)
next
  case (run operation fault k table' cell' r)
  have c: "coherent_cell persist initial ns (cl_table s) (cl_cells s j)" for j
    using assms(2) by (simp add: coherent_def)
  from run(3) show ?thesis
  proof (cases rule: transact_cases)
    case (refused e)
    with run c show ?thesis by (auto simp: coherent_def)
  next
    case (failed e x inner)
    with run c coherent_cell_written [OF c] show ?thesis by (auto simp: coherent_def)
  next
    case (saved x inner)
    have "coherent_cell persist initial ns table' cell'"
      using saved by (simp add: coherent_cell_def stored_def)
    with run saved(4) coherent_cell_written [OF c] show ?thesis by (auto simp: coherent_def)
  qed
next
  case (check label k cell' r)
  with assms(2) show ?thesis by (auto simp: coherent_def coherent_cell_health)
qed

lemma coherent_init: "cluster_init restore initial ns s \<Longrightarrow> coherent persist initial ns s"
  by (simp add: cluster_init_def coherent_def coherent_load)

lemma reachable_coherent:
  "reach (cluster_init restore initial ns) (cluster_step persist restore initial ns operations) s \<Longrightarrow>
   coherent persist initial ns s"
  by (induction rule: reach.induct) (auto intro: coherent_init coherent_step)

text \<open>An acknowledged write replaced exactly the document it was computed from.\<close>

lemma no_lost_update:
  assumes "reach (cluster_init restore initial ns) (cluster_step persist restore initial ns operations) s"
    and "transact persist ns fault operation (cl_table s) (cl_cells s k) = (table', cell', Inr x)"
  shows "stored persist initial ns (cl_table s) = persist (cell_doc (cl_cells s k))
    \<and> operation (cell_doc (cl_cells s k)) = Inr (x, cell_doc cell')
    \<and> table' ns = Some (persist (cell_doc cell'), cell_revision cell')
    \<and> cell_revision cell' = row_revision (cl_table s) ns + 1"
proof -
  have c: "coherent_cell persist initial ns (cl_table s) (cl_cells s k)"
    using reachable_coherent [OF assms(1)] by (simp add: coherent_def)
  from assms(2) show ?thesis
    by (cases rule: transact_cases) (use c in \<open>auto simp: coherent_cell_def\<close>)
qed

definition cluster_inv :: "('i, 'f) cluster \<Rightarrow> bool" where
  "cluster_inv s \<longleftrightarrow> (\<forall>k. doc_inv (cell_doc (cl_cells s k)))
     \<and> (\<forall>f r. cl_table s ns = Some (f, r) \<longrightarrow> (\<exists>d. doc_inv d \<and> f = persist d))"

lemma cluster_inv_load: "cluster_inv s \<Longrightarrow> doc_inv (cell_doc (load_cell restore initial ns (cl_table s)))"
  by (cases "cl_table s ns")
    (auto simp: cluster_inv_def load_cell_def read_postgres_value_def inv_initial inv_restore)

lemma cluster_inv_step:
  assumes "cluster_step persist restore initial ns operations s t" "cluster_inv s"
  shows "cluster_inv t"
  using assms(1)
proof (cases rule: cluster_stepE)
  case (load k)
  with assms(2) cluster_inv_load [OF assms(2)] show ?thesis by (auto simp: cluster_inv_def)
next
  case (run operation fault k table' cell' r)
  have d: "doc_inv (cell_doc (cl_cells s j))" for j using assms(2) by (simp add: cluster_inv_def)
  have new: "operation (cell_doc (cl_cells s k)) = Inr (x, inner) \<Longrightarrow> doc_inv inner" for x inner
    using inv_operation [OF run(2) d] by blast
  from run(3) show ?thesis
  proof (cases rule: transact_cases)
    case (refused e)
    with run assms(2) show ?thesis by (auto simp: cluster_inv_def)
  next
    case (failed e x inner)
    with run d new assms(2) show ?thesis by (auto simp: cluster_inv_def)
  next
    case (saved x inner)
    with run d new assms(2) show ?thesis by (auto simp: cluster_inv_def)
  qed
next
  case (check label k cell' r)
  with assms(2) health_check_cell [OF check(2)] show ?thesis by (auto simp: cluster_inv_def)
qed

lemma reachable_doc_inv:
  assumes "reach (cluster_init restore initial ns) (cluster_step persist restore initial ns operations) s"
  shows "doc_inv (cell_doc (cl_cells s k))"
proof -
  have "cluster_inv s"
    using assms
  proof (induction rule: reach.induct)
    case (reach_init s)
    then show ?case
      by (auto simp: cluster_inv_def cluster_init_def load_cell_def read_postgres_value_def inv_initial)
  next
    case (reach_step s t)
    then show ?case by (blast intro: cluster_inv_step)
  qed
  then show ?thesis by (simp add: cluster_inv_def)
qed

end

end
