(* ===== verification/Json.thy ===== *)
theory Json
  imports F64
begin

text \<open>
  \<open>serde_json::Value\<close> as data.  An object is \<open>serde_json::Map\<close>, which without the
  \<open>preserve_order\<close> feature is a \<open>BTreeMap\<close>: a key-sorted list.  \<open>json_wf\<close> says that every
  object is sorted, which holds of every \<open>Value\<close> the program can hold.  Text parsing and
  printing belong to the crate and are parameters where they are used.
\<close>

datatype json_num = PosInt nat | NegInt int | Float f64

datatype json =
    JNull
  | JBool bool
  | JNum json_num
  | JStr string
  | JArr "json list"
  | JObj "(string \<times> json) list"

fun json_get :: "json \<Rightarrow> string \<Rightarrow> json option" where
  "json_get (JObj m) k = bt_get m k"
| "json_get _ k = None"

fun as_str :: "json \<Rightarrow> string option" where
  "as_str (JStr s) = Some s"
| "as_str _ = None"

fun as_array :: "json \<Rightarrow> json list option" where
  "as_array (JArr xs) = Some xs"
| "as_array _ = None"

fun as_object :: "json \<Rightarrow> (string \<times> json) list option" where
  "as_object (JObj m) = Some m"
| "as_object _ = None"

fun as_bool :: "json \<Rightarrow> bool option" where
  "as_bool (JBool b) = Some b"
| "as_bool _ = None"

fun as_u64 :: "json \<Rightarrow> nat option" where
  "as_u64 (JNum (PosInt n)) = Some n"
| "as_u64 _ = None"

fun as_f64 :: "json \<Rightarrow> f64 option" where
  "as_f64 (JNum (PosInt n)) = Some (f64_of_nat n)"
| "as_f64 (JNum (NegInt i)) = Some (round64 (of_int i))"
| "as_f64 (JNum (Float x)) = Some x"
| "as_f64 _ = None"

fun json_wf :: "json \<Rightarrow> bool" where
  "json_wf (JArr xs) = list_all json_wf xs"
| "json_wf (JObj m) = (bt_wf m \<and> list_all (\<lambda>(k, v). json_wf v) m)"
| "json_wf _ = True"

text \<open>Collecting key-value pairs into a map, in order: a later pair replaces an earlier one.\<close>

definition bt_of_list :: "('k::linorder \<times> 'v) list \<Rightarrow> ('k, 'v) btree" where
  "bt_of_list kvs = foldl (\<lambda>m (k, v). bt_insert k v m) [] kvs"

lemma bt_insert_snoc: "bt_wf m \<Longrightarrow> list_all (\<lambda>(k', _). k' < k) m \<Longrightarrow> bt_insert k v m = m @ [(k, v)]"
  by (induction m) (auto simp: bt_wf_def)

lemma bt_of_list_sorted: "bt_wf kvs \<Longrightarrow> bt_of_list kvs = kvs"
proof (induction kvs rule: rev_induct)
  case Nil
  then show ?case by (simp add: bt_of_list_def)
next
  case (snoc kv kvs)
  then have wf: "bt_wf kvs" and lt: "list_all (\<lambda>(k', _). k' < fst kv) kvs"
    by (auto simp: bt_wf_def sorted_wrt_append list_all_iff)
  have "bt_of_list (kvs @ [kv]) = bt_insert (fst kv) (snd kv) (bt_of_list kvs)"
    by (simp add: bt_of_list_def split_def)
  with snoc.IH [OF wf] bt_insert_snoc [OF wf lt] show ?case by simp
qed

lemma bt_wf_of_list: "bt_wf (bt_of_list kvs)"
proof -
  have "bt_wf m \<Longrightarrow> bt_wf (foldl (\<lambda>m (k, v). bt_insert k v m) m kvs)" for m :: "('a \<times> 'b) list"
    by (induction kvs arbitrary: m) auto
  then show ?thesis by (simp add: bt_of_list_def)
qed

text \<open>The values inside a JSON value, itself included.\<close>

inductive inside :: "json \<Rightarrow> json \<Rightarrow> bool" where
  inside_self: "inside v v"
| inside_member: "inside w v \<Longrightarrow> (k, v) \<in> set members \<Longrightarrow> inside w (JObj members)"
| inside_item: "inside w v \<Longrightarrow> v \<in> set items \<Longrightarrow> inside w (JArr items)"

inductive_simps inside_simps:
  "inside w JNull" "inside w (JBool b)" "inside w (JNum n)" "inside w (JStr s)"
  "inside w (JObj members)" "inside w (JArr items)"

end
