(* ===== verification/Governance.thy ===== *)
theory Governance
  imports Domain Egress_Policy Provider_Config State_Store Json
begin

text \<open>
  Project governance, \<^verbatim>\<open>src/governance.rs\<close>: routing modes and data classes, project policies
  and their enforcement, and high-risk changes that need administrator approvals.  Operations on the
  governance document are functions from the document to a result and a new document; they run
  inside \<open>transact\<close> of \<open>State_Store\<close>.  JSON serialisation, SHA-256, the UUID source, the clock and
  \<open>serde\<close> decoding are parameters.

  \<open>apply_project_policy\<close> takes the document lock twice: once to check the request, once to apply
  it.  It is the pair \<open>apply_check\<close>, \<open>apply_commit\<close>, and the step relation lets any other
  operation run between the two.
\<close>

section \<open>Modes, classes, boundaries\<close>

datatype hybrid_mode = LocalStrict | LocalFirst | Balanced | CloudFirst

primrec mode_as_str :: "hybrid_mode \<Rightarrow> string" where
  "mode_as_str LocalStrict = ''local_strict''"
| "mode_as_str LocalFirst = ''local_first''"
| "mode_as_str Balanced = ''balanced''"
| "mode_as_str CloudFirst = ''cloud_first''"

definition mode_parse :: "string \<Rightarrow> hybrid_mode option" where
  "mode_parse value =
     (let v = to_ascii_lowercase (trim value)
      in if v = ''local_strict'' then Some LocalStrict
         else if v = ''local_first'' then Some LocalFirst
         else if v = ''balanced'' then Some Balanced
         else if v = ''cloud_first'' then Some CloudFirst
         else None)"

primrec egress_rank :: "hybrid_mode \<Rightarrow> nat" where
  "egress_rank LocalStrict = 0"
| "egress_rank LocalFirst = 1"
| "egress_rank Balanced = 2"
| "egress_rank CloudFirst = 3"

definition restrict_to :: "hybrid_mode \<Rightarrow> hybrid_mode \<Rightarrow> hybrid_mode result" where
  "restrict_to mode maximum =
     (if egress_rank mode \<le> egress_rank maximum then Inr mode
      else Inl (Forbidden (''requested routing mode '' @ mode_as_str mode @
                 '' exceeds project maximum '' @ mode_as_str maximum)))"

datatype data_classification = Unknown | Sensitive | Internal | Public

definition classification_parse :: "string \<Rightarrow> data_classification option" where
  "classification_parse value =
     (let v = to_ascii_lowercase (trim value)
      in if v = ''unknown'' then Some Unknown
         else if v = ''sensitive'' then Some Sensitive
         else if v = ''internal'' then Some Internal
         else if v = ''public'' then Some Public
         else None)"

primrec forces_local :: "data_classification \<Rightarrow> bool" where
  "forces_local Unknown = True"
| "forces_local Sensitive = True"
| "forces_local Internal = False"
| "forces_local Public = False"

datatype workload_class = Interactive | Batch

definition workload_parse :: "string \<Rightarrow> workload_class option" where
  "workload_parse value =
     (let v = to_ascii_lowercase (trim value)
      in if v \<in> {''interactive'', ''business'', ''diagnostic'', ''synthetic''} then Some Interactive
         else if v = ''batch'' then Some Batch
         else None)"

datatype provider_boundary = Local | Cloud

fun is_local_address :: "ip_addr \<Rightarrow> bool" where
  "is_local_address (V4 a b c d) =
     (a = 127 \<or> (a = 10 \<or> (a = 172 \<and> 16 \<le> b \<and> b \<le> 31) \<or> (a = 192 \<and> b = 168))
      \<or> (a = 169 \<and> b = 254) \<or> (a = 0 \<and> b = 0 \<and> c = 0 \<and> d = 0))"
| "is_local_address (V6 segments) =
     (segments = [0, 0, 0, 0, 0, 0, 0, 1] \<or> (segments ! 0 AND 0xfe00) = 0xfc00
      \<or> (segments ! 0 AND 0xffc0) = 0xfe80)"

text \<open>\<open>url_host\<close> is \<open>Url::parse(..).ok().and_then(host_str)\<close>.\<close>

definition for_resolved :: "(string \<Rightarrow> string option) \<Rightarrow> resolved_provider \<Rightarrow> provider_boundary" where
  "for_resolved url_host p =
     (if starts_with ''local_'' (rp_provider_id p)
         \<or> starts_with ''cpa_'' (rp_provider_id p)
         \<or> rp_provider_id p = ''ollama''
         \<or> (case url_host (pc_base_url (rp_provider p)) of
              None \<Rightarrow> False
            | Some host \<Rightarrow> eq_ignore_ascii_case host ''localhost'' \<or> host_ip_is is_local_address host)
      then Local else Cloud)"

definition provider_governance_metadata ::
  "(string \<Rightarrow> string option) \<Rightarrow> resolved_provider \<Rightarrow> string \<times> string" where
  "provider_governance_metadata url_host p =
     (if for_resolved url_host p = Local then (''local'', ''openai-compatible-v1'')
      else let host = (case url_host (pc_base_url (rp_provider p)) of Some h \<Rightarrow> h | None \<Rightarrow> []);
               region = (if ends_with ''.cn'' host \<or> contains ''cn-'' host then ''cn''
                         else if contains ''eu-'' host \<or> ends_with ''.eu'' host then ''eu''
                         else if contains ''us-'' host \<or> ends_with ''.us'' host then ''us''
                         else ''global'');
               api_version = (case pc_protocol (rp_provider p) of
                                Anthropic \<Rightarrow> ''anthropic-v1''
                              | OpenaiCompat \<Rightarrow> ''openai-compatible-v1'')
           in (region, api_version))"

section \<open>Project policies\<close>

record project_policy =
  pp_organization_id :: string
  pp_project_id :: string
  pp_environment_id :: string
  pp_maximum_mode :: hybrid_mode
  pp_default_classification :: data_classification
  pp_allowed_providers :: "string list"
  pp_allowed_models :: "string list"
  pp_allowed_regions :: "string list"
  pp_allowed_api_versions :: "string list"
  pp_cloud_enabled :: bool
  pp_updated_by :: string
  pp_updated_at_ms :: u64

definition fail_closed :: "tenant_scope \<Rightarrow> project_policy" where
  "fail_closed tenant =
     \<lparr> pp_organization_id = ts_organization_id tenant, pp_project_id = ts_project_id tenant,
       pp_environment_id = ts_environment_id tenant, pp_maximum_mode = LocalStrict,
       pp_default_classification = Unknown, pp_allowed_providers = [], pp_allowed_models = [],
       pp_allowed_regions = [''local''], pp_allowed_api_versions = [], pp_cloud_enabled = False,
       pp_updated_by = ''builtin-fail-closed'', pp_updated_at_ms = 0 \<rparr>"

definition policy_key :: "string \<Rightarrow> string \<Rightarrow> string \<Rightarrow> string" where
  "policy_key organization_id project_id environment_id =
     organization_id @ ''/'' @ project_id @ ''/'' @ environment_id"

definition policy_own_key :: "project_policy \<Rightarrow> string" where
  "policy_own_key p = policy_key (pp_organization_id p) (pp_project_id p) (pp_environment_id p)"

definition effective_mode ::
  "project_policy \<Rightarrow> hybrid_mode option \<Rightarrow> data_classification \<Rightarrow> hybrid_mode result" where
  "effective_mode policy requested classification =
     (if forces_local classification then Inr LocalStrict
      else restrict_to (case requested of Some m \<Rightarrow> m | None \<Rightarrow> pp_maximum_mode policy)
             (pp_maximum_mode policy))"

definition matches_policy :: "string list \<Rightarrow> string \<Rightarrow> bool" where
  "matches_policy rules value =
     list_ex (\<lambda>rule. rule = ''*'' \<or> rule = value
                \<or> (case strip_suffix ''*'' rule of Some pre \<Rightarrow> starts_with pre value | None \<Rightarrow> False)) rules"

definition enforce_attempt ::
  "(string \<Rightarrow> string option) \<Rightarrow> project_policy \<Rightarrow> resolved_provider \<Rightarrow> unit result" where
  "enforce_attempt url_host policy p =
     (let boundary = for_resolved url_host p;
          (region, api_version) = provider_governance_metadata url_host p
      in if boundary = Cloud \<and> \<not> pp_cloud_enabled policy
         then Inl (Forbidden ''project policy does not enable cloud routing'')
         else if pp_allowed_providers policy \<noteq> []
              \<and> \<not> matches_policy (pp_allowed_providers policy) (rp_provider_id p)
         then Inl (Forbidden (''project policy does not allow provider '' @ rp_provider_id p))
         else if pp_allowed_models policy \<noteq> [] \<and> \<not> matches_policy (pp_allowed_models policy) (rp_model p)
         then Inl (Forbidden (''project policy does not allow model '' @ rp_model p))
         else if pp_allowed_regions policy \<noteq> [] \<and> \<not> matches_policy (pp_allowed_regions policy) region
         then Inl (Forbidden (''project policy does not allow provider region '' @ region))
         else if pp_allowed_api_versions policy \<noteq> []
              \<and> \<not> matches_policy (pp_allowed_api_versions policy) api_version
         then Inl (Forbidden (''project policy does not allow provider API version '' @ api_version))
         else Inr ())"

definition invalid_allowlist :: "string list \<Rightarrow> bool" where
  "invalid_allowlist l \<longleftrightarrow> length l > 256 \<or> list_ex (\<lambda>v. trim v = [] \<or> length v > 160) l"

definition validate_project_policy :: "project_policy \<Rightarrow> unit result" where
  "validate_project_policy p =
     (if list_ex (\<lambda>v. \<not> valid_tenant_identifier v)
           [pp_organization_id p, pp_project_id p, pp_environment_id p]
      then Inl (InvalidRequest ''project policy contains an invalid tenant identifier'')
      else if \<not> pp_cloud_enabled p \<and> pp_maximum_mode p \<noteq> LocalStrict
      then Inl (InvalidRequest ''cloud-disabled project policy must use local_strict maximum mode'')
      else if list_ex invalid_allowlist
                [pp_allowed_providers p, pp_allowed_models p, pp_allowed_regions p, pp_allowed_api_versions p]
      then Inl (InvalidRequest ''project policy allowlists contain invalid entries'')
      else Inr ())"

fun split_boundary ::
  "(string \<Rightarrow> string option) \<Rightarrow> resolved_provider list \<Rightarrow> resolved_provider list \<times> resolved_provider list" where
  "split_boundary url_host [] = ([], [])"
| "split_boundary url_host (p # ps) =
     (let (local, cloud) = split_boundary url_host ps
      in case for_resolved url_host p of Local \<Rightarrow> (p # local, cloud) | Cloud \<Rightarrow> (local, p # cloud))"

definition order_attempts ::
  "(string \<Rightarrow> string option) \<Rightarrow> resolved_provider list \<Rightarrow> hybrid_mode \<Rightarrow> resolved_provider list" where
  "order_attempts url_host attempts mode =
     (let (local, cloud) = split_boundary url_host attempts
      in case mode of
           LocalStrict \<Rightarrow> local
         | LocalFirst \<Rightarrow> local @ cloud
         | Balanced \<Rightarrow> local @ cloud
         | CloudFirst \<Rightarrow> cloud @ local)"

section \<open>Change requests\<close>

record change_request_input =
  ci_action :: string
  ci_target :: string
  ci_payload :: json
  ci_reason :: string

record change_approval =
  ca_actor_id :: string
  ca_actor_name :: string
  ca_approved_at_ms :: u64

record change_request =
  cr_id :: string
  cr_action :: string
  cr_target :: string
  cr_payload :: json
  cr_payload_sha256 :: string
  cr_reason :: string
  cr_risk :: string
  cr_status :: string
  cr_requested_by :: string
  cr_requested_by_name :: string
  cr_approvals :: "change_approval list"
  cr_created_at_ms :: u64
  cr_updated_at_ms :: u64
  cr_applied_at_ms :: "u64 option"

record governance_document =
  gd_project_policies :: "(string, project_policy) btree"
  gd_change_requests :: "(string, change_request) btree"

definition empty_document :: governance_document where
  "empty_document = \<lparr> gd_project_policies = [], gd_change_requests = [] \<rparr>"

definition supported_actions :: "string list" where
  "supported_actions =
     [''project_policy.upsert'', ''provider.allowlist_change'', ''routing.cloud_first'',
      ''budget.hard_limit'', ''identity.permission'', ''model.production_promotion'',
      ''data_egress.change'', ''database.major_migration'', ''secret.rotation'']"

definition validate_change_input :: "(json \<Rightarrow> string result) \<Rightarrow> change_request_input \<Rightarrow> unit result" where
  "validate_change_input to_vec input =
     (if ci_action input \<notin> set supported_actions
      then Inl (InvalidRequest ''unsupported high-risk change action'')
      else if trim (ci_target input) = [] \<or> length (ci_target input) > 240
      then Inl (InvalidRequest ''change request target must contain 1-240 characters'')
      else if length (trim (ci_reason input)) < 8 \<or> length (ci_reason input) > 1000
      then Inl (InvalidRequest ''change request reason must contain 8-1000 characters'')
      else and_then (to_vec (ci_payload input)) (\<lambda>bytes.
        if length bytes > 64 * 1024
        then Inl (InvalidRequest ''change request payload exceeds 64 KiB'')
        else Inr ()))"

fun canonical_json :: "json \<Rightarrow> json" where
  "canonical_json (JObj m) = JObj (bt_of_list (map (\<lambda>(k, v). (k, canonical_json v)) m))"
| "canonical_json (JArr vs) = JArr (map canonical_json vs)"
| "canonical_json other = other"

definition payload_sha256 :: "(json \<Rightarrow> string result) \<Rightarrow> (string \<Rightarrow> string) \<Rightarrow> json \<Rightarrow> string result" where
  "payload_sha256 to_vec sha256_hex payload =
     and_then (to_vec (canonical_json payload)) (\<lambda>bytes. Inr (sha256_hex bytes))"

definition create_change_request ::
  "(json \<Rightarrow> string result) \<Rightarrow> (string \<Rightarrow> string) \<Rightarrow> string \<Rightarrow> u64 \<Rightarrow> string \<Rightarrow> string \<Rightarrow>
   change_request_input \<Rightarrow> governance_document \<Rightarrow> (change_request \<times> governance_document) result" where
  "create_change_request to_vec sha256_hex uuid now actor_id actor_name input doc =
     and_then (validate_change_input to_vec input) (\<lambda>_.
     and_then (payload_sha256 to_vec sha256_hex (ci_payload input)) (\<lambda>digest.
       let request =
             \<lparr> cr_id = ''chg_'' @ uuid, cr_action = ci_action input, cr_target = ci_target input,
               cr_payload = ci_payload input, cr_payload_sha256 = digest,
               cr_reason = trim (ci_reason input), cr_risk = ''high'',
               cr_status = ''pending_second_approval'', cr_requested_by = actor_id,
               cr_requested_by_name = actor_name,
               cr_approvals = [\<lparr> ca_actor_id = actor_id, ca_actor_name = actor_name, ca_approved_at_ms = now \<rparr>],
               cr_created_at_ms = now, cr_updated_at_ms = now, cr_applied_at_ms = None \<rparr>
       in Inr (request,
               doc\<lparr> gd_change_requests := bt_insert (cr_id request) request (gd_change_requests doc) \<rparr>)))"

definition approve_change_request ::
  "u64 \<Rightarrow> u64 \<Rightarrow> string \<Rightarrow> string \<Rightarrow> string \<Rightarrow> governance_document \<Rightarrow>
   (change_request \<times> governance_document) result" where
  "approve_change_request now now' request_id actor_id actor_name doc =
     and_then (ok_or (NotFound ''change request not found'') (bt_get (gd_change_requests doc) request_id))
       (\<lambda>request.
        if cr_status request = ''applied''
        then Inl (StateConflict ''change request has already been applied'')
        else if list_ex (\<lambda>approval. ca_actor_id approval = actor_id) (cr_approvals request)
        then Inl (InvalidRequest ''the same administrator cannot provide both approvals'')
        else let request' = request\<lparr>
                   cr_approvals := cr_approvals request @
                     [\<lparr> ca_actor_id = actor_id, ca_actor_name = actor_name, ca_approved_at_ms = now \<rparr>],
                   cr_status := ''approved'', cr_updated_at_ms := now' \<rparr>
             in Inr (request',
                     doc\<lparr> gd_change_requests := bt_insert request_id request' (gd_change_requests doc) \<rparr>))"

definition application_allowed :: "bool \<Rightarrow> change_request \<Rightarrow> bool" where
  "application_allowed require_dual_approval request \<longleftrightarrow>
     (let minimum_approvals = (if require_dual_approval then 2 else 1);
          status_allows_application =
            (cr_status request = ''approved''
             \<or> \<not> require_dual_approval \<and> cr_status request = ''pending_second_approval'')
      in status_allows_application \<and> length (cr_approvals request) \<ge> minimum_approvals)"

definition application_refused :: "bool \<Rightarrow> app_error" where
  "application_refused require_dual_approval =
     Forbidden (if require_dual_approval
                then ''high-risk change requires two distinct administrator approvals''
                else ''change request requires an administrator approval before application'')"

definition change_for_application ::
  "string \<Rightarrow> bool \<Rightarrow> governance_document \<Rightarrow> change_request result" where
  "change_for_application request_id require_dual_approval doc =
     and_then (ok_or (NotFound ''change request not found'') (bt_get (gd_change_requests doc) request_id))
       (\<lambda>request. if application_allowed require_dual_approval request then Inr request
                  else Inl (application_refused require_dual_approval))"

definition verify_approved_change ::
  "(json \<Rightarrow> string result) \<Rightarrow> (string \<Rightarrow> string) \<Rightarrow> string \<Rightarrow> string \<Rightarrow> string \<Rightarrow> json \<Rightarrow>
   governance_document \<Rightarrow> change_request result" where
  "verify_approved_change to_vec sha256_hex request_id action target payload doc =
     and_then (change_for_application request_id True doc) (\<lambda>request.
       if cr_action request \<noteq> action \<or> cr_target request \<noteq> target
       then Inl (Forbidden ''approved change request does not match this action, target, and payload'')
       else and_then (payload_sha256 to_vec sha256_hex payload) (\<lambda>digest.
         if cr_payload_sha256 request \<noteq> digest
         then Inl (Forbidden ''approved change request does not match this action, target, and payload'')
         else Inr request))"

definition mark_change_applied_for_mode ::
  "u64 \<Rightarrow> u64 \<Rightarrow> string \<Rightarrow> bool \<Rightarrow> governance_document \<Rightarrow> (unit \<times> governance_document) result" where
  "mark_change_applied_for_mode now now' request_id require_dual_approval doc =
     and_then (ok_or (NotFound ''change request not found'') (bt_get (gd_change_requests doc) request_id))
       (\<lambda>request.
        if \<not> application_allowed require_dual_approval request
        then Inl (application_refused require_dual_approval)
        else Inr ((), doc\<lparr> gd_change_requests := bt_insert request_id
               (request\<lparr> cr_status := ''applied'', cr_applied_at_ms := Some now, cr_updated_at_ms := now' \<rparr>)
               (gd_change_requests doc) \<rparr>))"

definition apply_check ::
  "(json \<Rightarrow> project_policy result) \<Rightarrow> u64 \<Rightarrow> string \<Rightarrow> string \<Rightarrow> bool \<Rightarrow> governance_document \<Rightarrow>
   project_policy result" where
  "apply_check from_value now request_id actor_id require_dual_approval doc =
     and_then (change_for_application request_id require_dual_approval doc) (\<lambda>request.
       if cr_action request \<noteq> ''project_policy.upsert''
       then Inl (InvalidRequest ''change request is not a project policy update'')
       else and_then (from_value (cr_payload request)) (\<lambda>policy.
         and_then (validate_project_policy policy) (\<lambda>_.
           Inr (policy\<lparr> pp_updated_by := actor_id, pp_updated_at_ms := now \<rparr>))))"

text \<open>
  The second locked section.  The policy is inserted before the request is looked up again, so a
  missing request leaves the insertion in memory: the error carries the changed document.
\<close>

definition apply_commit ::
  "u64 \<Rightarrow> u64 \<Rightarrow> string \<Rightarrow> project_policy \<Rightarrow> governance_document \<Rightarrow>
   (app_error \<times> governance_document) + governance_document" where
  "apply_commit now now' request_id policy doc =
     (let inserted = doc\<lparr> gd_project_policies :=
                       bt_insert (policy_own_key policy) policy (gd_project_policies doc) \<rparr>
      in case bt_get (gd_change_requests doc) request_id of
           None \<Rightarrow> Inl (NotFound ''change request not found'', inserted)
         | Some change \<Rightarrow>
             Inr (inserted\<lparr> gd_change_requests := bt_insert request_id
               (change\<lparr> cr_status := ''applied'', cr_applied_at_ms := Some now, cr_updated_at_ms := now' \<rparr>)
               (gd_change_requests doc) \<rparr>))"

section \<open>Queries\<close>

definition effective_policy :: "governance_document \<Rightarrow> tenant_scope \<Rightarrow> project_policy" where
  "effective_policy doc tenant =
     (case bt_get (gd_project_policies doc)
             (policy_key (ts_organization_id tenant) (ts_project_id tenant) (ts_environment_id tenant)) of
        Some p \<Rightarrow> p
      | None \<Rightarrow> fail_closed tenant)"

definition has_policy :: "governance_document \<Rightarrow> tenant_scope \<Rightarrow> bool" where
  "has_policy doc tenant \<longleftrightarrow>
     bt_get (gd_project_policies doc)
       (policy_key (ts_organization_id tenant) (ts_project_id tenant) (ts_environment_id tenant)) \<noteq> None"

definition list_policies :: "governance_document \<Rightarrow> project_policy list" where
  "list_policies doc = bt_values (gd_project_policies doc)"

definition list_change_requests :: "governance_document \<Rightarrow> change_request list" where
  "list_change_requests doc = rev (bt_values (gd_change_requests doc))"

section \<open>Egress\<close>

lemma split_boundary_eq:
  "split_boundary url_host ps =
     (filter (\<lambda>p. for_resolved url_host p = Local) ps, filter (\<lambda>p. for_resolved url_host p = Cloud) ps)"
  by (induction ps) (auto split: provider_boundary.splits)

lemma order_attempts_set:
  "set (order_attempts url_host ps mode) =
     {p \<in> set ps. mode = LocalStrict \<longrightarrow> for_resolved url_host p = Local}"
  by (cases mode) (auto simp: order_attempts_def split_boundary_eq intro: provider_boundary.exhaust)

lemma effective_mode_rank:
  "effective_mode policy requested c = Inr mode \<Longrightarrow> egress_rank mode \<le> egress_rank (pp_maximum_mode policy)"
  by (auto simp: effective_mode_def restrict_to_def split: if_splits)

lemma rank_zero: "egress_rank mode = 0 \<longleftrightarrow> mode = LocalStrict"
  by (cases mode) auto

text \<open>
  C4: data that must stay local stays local.  When the request carries data of unknown or
  sensitive class, or the project's policy does not enable the cloud, every attempt that is left
  after ordering is a local one from the given list, whatever mode was asked for; and a mode the
  policy grants never exceeds the project's maximum.
\<close>

theorem local_data_stays_local:
  assumes "validate_project_policy policy = Inr ()"
    and "effective_mode policy requested c = Inr mode"
    and "forces_local c \<or> \<not> pp_cloud_enabled policy"
  shows "egress_rank mode \<le> egress_rank (pp_maximum_mode policy)
    \<and> (\<forall>p \<in> set (order_attempts url_host attempts mode). p \<in> set attempts \<and> for_resolved url_host p = Local)"
proof -
  have "mode = LocalStrict"
  proof (cases "forces_local c")
    case True
    with assms(2) show ?thesis by (simp add: effective_mode_def)
  next
    case False
    with assms have "pp_maximum_mode policy = LocalStrict"
      by (auto simp: validate_project_policy_def split: if_splits)
    then show ?thesis using effective_mode_rank [OF assms(2)] rank_zero [of mode] by simp
  qed
  then show ?thesis using effective_mode_rank [OF assms(2)] by (simp add: order_attempts_set)
qed

definition cloud_provider :: resolved_provider where
  "cloud_provider =
     \<lparr> rp_provider_id = ''openai'', rp_provider =
         \<lparr> pc_display_name = ''o'', pc_protocol = OpenaiCompat, pc_base_url = ''https://h.io'',
           pc_api_key_env = None, pc_api_key = None, pc_api_key_required = False,
           pc_default_model = ''m'', pc_models = [''m''], pc_model_prefixes = [],
           pc_passthrough_unknown_models = False, pc_deduplicate_stream_text = False,
           pc_buffer_stream_text = False,
           pc_tool_use = default_tool_use_config ''openai'' OpenaiCompat False \<rparr>, rp_model = ''m'' \<rparr>"

definition local_provider :: resolved_provider where
  "local_provider = cloud_provider\<lparr> rp_provider_id := ''ollama'' \<rparr>"

theorem local_data_stays_local_witness:
  "effective_mode (fail_closed legacy_local) None Sensitive = Inr LocalStrict
   \<and> order_attempts (\<lambda>_. None) [cloud_provider, local_provider] LocalStrict = [local_provider]
   \<and> for_resolved (\<lambda>_. None) local_provider = Local"
proof -
  have "trim ''local'' = ''local''" by (simp add: graphic_literal)
  then have v: "validate_project_policy (fail_closed legacy_local) = Inr ()"
    by (simp add: validate_project_policy_def fail_closed_def legacy_local_def valid_tenant_identifier_def
        char_class_defs invalid_allowlist_def)
  have m: "effective_mode (fail_closed legacy_local) None Sensitive = Inr LocalStrict"
    by (simp add: effective_mode_def)
  have o: "order_attempts (\<lambda>_. None) [cloud_provider, local_provider] LocalStrict = [local_provider]"
    by (simp add: order_attempts_def for_resolved_def cloud_provider_def local_provider_def starts_with_def)
  show ?thesis
    using local_data_stays_local [OF v m, of "\<lambda>_. None" "[cloud_provider, local_provider]"] m o by simp
qed

text \<open>
  A project without cloud access never reaches a cloud provider, and a tenant for which no
  policy was stored has no cloud access: the built-in policy refuses every cloud attempt and
  grants local routing only.
\<close>

theorem no_cloud_without_policy:
  assumes "\<not> has_policy doc tenant" "for_resolved url_host p = Cloud"
  shows "enforce_attempt url_host (effective_policy doc tenant) p =
           Inl (Forbidden ''project policy does not enable cloud routing'')
    \<and> pp_maximum_mode (effective_policy doc tenant) = LocalStrict
    \<and> forces_local (pp_default_classification (effective_policy doc tenant))"
  using assms
  by (auto simp: has_policy_def effective_policy_def enforce_attempt_def fail_closed_def Let_def split_def)

theorem no_cloud_without_policy_witness:
  "enforce_attempt (\<lambda>_. None) (effective_policy empty_document legacy_local) cloud_provider =
     Inl (Forbidden ''project policy does not enable cloud routing'')"
  using no_cloud_without_policy [of empty_document legacy_local "\<lambda>_. None" cloud_provider]
  by (simp add: has_policy_def empty_document_def for_resolved_def cloud_provider_def starts_with_def)

section \<open>Keys\<close>

lemma policy_key_inj:
  assumes "CHR ''/'' \<notin> set o1" "CHR ''/'' \<notin> set p1" "CHR ''/'' \<notin> set o2" "CHR ''/'' \<notin> set p2"
    and "policy_key o1 p1 e1 = policy_key o2 p2 e2"
  shows "o1 = o2 \<and> p1 = p2 \<and> e1 = e2"
proof -
  have k: "split_once CHR ''/'' (policy_key org p e) = Some (org, p @ ''/'' @ e)"
    if "CHR ''/'' \<notin> set org" for org p e
    using split_once_append [OF that, of "p @ ''/'' @ e"] by (simp add: policy_key_def)
  have eq: "o1 = o2" "p1 @ CHR ''/'' # e1 = p2 @ CHR ''/'' # e2"
    using k [OF assms(1), of p1 e1] k [OF assms(3), of p2 e2] assms(5) by simp_all
  have "Some (p1, e1) = split_once CHR ''/'' (p1 @ CHR ''/'' # e1)"
    by (simp only: split_once_append [OF assms(2)])
  also have "\<dots> = Some (p2, e2)" by (simp only: eq(2) split_once_append [OF assms(4)])
  finally show ?thesis using eq(1) by simp
qed

lemma canonical_json_wf: "json_wf j \<Longrightarrow> canonical_json j = j"
proof (induction j rule: canonical_json.induct)
  case (1 m)
  then have "map (\<lambda>(k, v). (k, canonical_json v)) m = m"
    by (auto simp: list_all_iff intro!: map_idI)
  with 1 show ?case by (simp add: bt_of_list_sorted)
next
  case (2 vs)
  then show ?case by (auto simp: list_all_iff intro!: map_idI)
qed auto

end
