(* ===== verification/Change_Control.thy ===== *)
theory Change_Control
  imports Governance
begin

text \<open>
  Approval of high-risk changes, \<^verbatim>\<open>src/governance.rs\<close>.  The step relation interleaves the
  locked sections of every governance operation; an application in flight is a ticket between its
  check and its commit.  The invariant says what the approvals of a request mean and that every
  stored policy comes from an applied request.  The same operations, run by several replicas over
  the shared table, are an instance of the persistence interface.
\<close>

section \<open>Steps\<close>

record gov_system =
  gs_doc :: governance_document
  gs_tickets :: "(string \<times> project_policy) list"

inductive gov_step ::
  "(json \<Rightarrow> string result) \<Rightarrow> (string \<Rightarrow> string) \<Rightarrow> (json \<Rightarrow> project_policy result) \<Rightarrow> bool \<Rightarrow>
   gov_system \<Rightarrow> gov_system \<Rightarrow> bool"
  for to_vec sha256_hex from_value dual where
  create: "create_change_request to_vec sha256_hex uuid now a n input (gs_doc s) = Inr (r, d) \<Longrightarrow>
     bt_get (gd_change_requests (gs_doc s)) (''chg_'' @ uuid) = None \<Longrightarrow>
     gov_step to_vec sha256_hex from_value dual s (s\<lparr> gs_doc := d \<rparr>)"
| approve: "approve_change_request now now' i a n (gs_doc s) = Inr (r, d) \<Longrightarrow>
     gov_step to_vec sha256_hex from_value dual s (s\<lparr> gs_doc := d \<rparr>)"
| mark: "mark_change_applied_for_mode now now' i dual (gs_doc s) = Inr (u, d) \<Longrightarrow>
     gov_step to_vec sha256_hex from_value dual s (s\<lparr> gs_doc := d \<rparr>)"
| check: "apply_check from_value now i a dual (gs_doc s) = Inr p \<Longrightarrow>
     gov_step to_vec sha256_hex from_value dual s (s\<lparr> gs_tickets := (i, p) # gs_tickets s \<rparr>)"
| commit: "(i, p) \<in> set (gs_tickets s) \<Longrightarrow> apply_commit now now' i p (gs_doc s) = Inr d \<Longrightarrow>
     gov_step to_vec sha256_hex from_value dual s
       \<lparr> gs_doc = d, gs_tickets = remove1 (i, p) (gs_tickets s) \<rparr>"
| commit_missing: "(i, p) \<in> set (gs_tickets s) \<Longrightarrow> apply_commit now now' i p (gs_doc s) = Inl (e, d) \<Longrightarrow>
     gov_step to_vec sha256_hex from_value dual s
       \<lparr> gs_doc = d, gs_tickets = remove1 (i, p) (gs_tickets s) \<rparr>"
| abandon: "(i, p) \<in> set (gs_tickets s) \<Longrightarrow>
     gov_step to_vec sha256_hex from_value dual s (s\<lparr> gs_tickets := remove1 (i, p) (gs_tickets s) \<rparr>)"

inductive_cases gov_stepE [consumes 1, case_names create approve mark check commit commit_missing abandon]:
  "gov_step to_vec sha256_hex from_value dual s t"

definition gov_init :: "gov_system \<Rightarrow> bool" where
  "gov_init s \<longleftrightarrow> s = \<lparr> gs_doc = empty_document, gs_tickets = [] \<rparr>"

section \<open>Invariant\<close>

definition approvers :: "change_request \<Rightarrow> string list" where
  "approvers r = map ca_actor_id (cr_approvals r)"

text \<open>
  A request is first approved by its author; approvers are distinct; with one approval it is
  pending, with more it is approved, until it is applied.
\<close>

definition change_wf :: "bool \<Rightarrow> change_request \<Rightarrow> bool" where
  "change_wf dual r \<longleftrightarrow>
     distinct (approvers r) \<and> approvers r \<noteq> [] \<and> hd (approvers r) = cr_requested_by r
     \<and> (cr_status r = ''pending_second_approval'' \<and> length (cr_approvals r) = 1
        \<or> cr_status r = ''approved'' \<and> length (cr_approvals r) \<ge> 2
        \<or> cr_status r = ''applied'' \<and> (dual \<longrightarrow> length (cr_approvals r) \<ge> 2))"

definition changes_wf :: "bool \<Rightarrow> governance_document \<Rightarrow> bool" where
  "changes_wf dual doc \<longleftrightarrow> (\<forall>i r. bt_get (gd_change_requests doc) i = Some r \<longrightarrow> change_wf dual r)"

text \<open>The policy \<open>p\<close> is what the payload of the update request \<open>r\<close> says, stamped on application.\<close>

definition policy_of_change :: "(json \<Rightarrow> project_policy result) \<Rightarrow> project_policy \<Rightarrow> change_request \<Rightarrow> bool" where
  "policy_of_change from_value p r \<longleftrightarrow>
     cr_action r = ''project_policy.upsert''
     \<and> (\<exists>p0 actor stamp. from_value (cr_payload r) = Inr p0 \<and> validate_project_policy p0 = Inr ()
          \<and> p = p0\<lparr> pp_updated_by := actor, pp_updated_at_ms := stamp \<rparr>)"

definition ticket_wf ::
  "(json \<Rightarrow> project_policy result) \<Rightarrow> bool \<Rightarrow> governance_document \<Rightarrow> string \<times> project_policy \<Rightarrow> bool" where
  "ticket_wf from_value dual doc t \<longleftrightarrow>
     (\<exists>r. bt_get (gd_change_requests doc) (fst t) = Some r \<and> policy_of_change from_value (snd t) r
        \<and> (dual \<longrightarrow> length (cr_approvals r) \<ge> 2))"

definition policies_wf :: "(json \<Rightarrow> project_policy result) \<Rightarrow> governance_document \<Rightarrow> bool" where
  "policies_wf from_value doc \<longleftrightarrow>
     (\<forall>k p. bt_get (gd_project_policies doc) k = Some p \<longrightarrow>
        k = policy_own_key p \<and>
        (\<exists>i r. bt_get (gd_change_requests doc) i = Some r \<and> cr_status r = ''applied''
           \<and> policy_of_change from_value p r))"

definition gov_inv :: "(json \<Rightarrow> project_policy result) \<Rightarrow> bool \<Rightarrow> gov_system \<Rightarrow> bool" where
  "gov_inv from_value dual s \<longleftrightarrow>
     changes_wf dual (gs_doc s) \<and> policies_wf from_value (gs_doc s)
     \<and> list_all (ticket_wf from_value dual (gs_doc s)) (gs_tickets s)"

text \<open>
  What every operation keeps: a request stays in the document, its action and payload do not
  change, its approvals only grow, and once applied it stays applied.
\<close>

definition change_le :: "change_request \<Rightarrow> change_request \<Rightarrow> bool" where
  "change_le r r' \<longleftrightarrow>
     cr_action r' = cr_action r \<and> cr_payload r' = cr_payload r
     \<and> prefix (cr_approvals r) (cr_approvals r')
     \<and> (cr_status r = ''applied'' \<longrightarrow> cr_status r' = ''applied'')"

definition doc_le :: "governance_document \<Rightarrow> governance_document \<Rightarrow> bool" where
  "doc_le d d' \<longleftrightarrow>
     (\<forall>i r. bt_get (gd_change_requests d) i = Some r \<longrightarrow>
        (\<exists>r'. bt_get (gd_change_requests d') i = Some r' \<and> change_le r r'))"

lemma change_le_refl [simp]: "change_le r r"
  by (simp add: change_le_def)

lemma policy_of_change_le: "change_le r r' \<Longrightarrow> policy_of_change f p r' = policy_of_change f p r"
  by (simp add: change_le_def policy_of_change_def)

lemma ticket_wf_le:
  assumes "doc_le d d'" "ticket_wf f dual d t"
  shows "ticket_wf f dual d' t"
proof -
  from assms(2) obtain r where r: "bt_get (gd_change_requests d) (fst t) = Some r"
      "policy_of_change f (snd t) r" "dual \<longrightarrow> length (cr_approvals r) \<ge> 2"
    by (auto simp: ticket_wf_def)
  with assms(1) obtain r' where r': "bt_get (gd_change_requests d') (fst t) = Some r'" "change_le r r'"
    by (auto simp: doc_le_def)
  have "length (cr_approvals r) \<le> length (cr_approvals r')"
    using r'(2) by (simp add: change_le_def prefix_length_le)
  with r r' show ?thesis by (auto simp: ticket_wf_def policy_of_change_le)
qed

lemma policies_wf_le:
  assumes "doc_le d d'" "policies_wf f d" "gd_project_policies d' = gd_project_policies d"
  shows "policies_wf f d'"
  unfolding policies_wf_def assms(3)
proof (intro allI impI)
  fix k p assume "bt_get (gd_project_policies d) k = Some p"
  with assms(2) obtain i r where r: "k = policy_own_key p" "bt_get (gd_change_requests d) i = Some r"
      "cr_status r = ''applied''" "policy_of_change f p r"
    unfolding policies_wf_def by blast
  with assms(1) obtain r' where r': "bt_get (gd_change_requests d') i = Some r'" "change_le r r'"
    by (auto simp: doc_le_def)
  have "cr_status r' = ''applied'' \<and> policy_of_change f p r'"
    using r r'(2) policy_of_change_le [OF r'(2), of f p] by (simp add: change_le_def)
  with r(1) r'(1) show "k = policy_own_key p \<and> (\<exists>i r. bt_get (gd_change_requests d') i = Some r
      \<and> cr_status r = ''applied'' \<and> policy_of_change f p r)"
    by blast
qed

text \<open>One request is replaced by a larger one: the shape of every update of the document.\<close>

lemma doc_le_replace:
  assumes "gd_change_requests d' = bt_insert i r' (gd_change_requests d)"
    and "\<And>r. bt_get (gd_change_requests d) i = Some r \<Longrightarrow> change_le r r'"
  shows "doc_le d d'"
  using assms by (auto simp: doc_le_def)

lemma changes_wf_replace:
  assumes "gd_change_requests d' = bt_insert i r' (gd_change_requests d)" "changes_wf dual d" "change_wf dual r'"
  shows "changes_wf dual d'"
  using assms by (auto simp: changes_wf_def)

section \<open>Every operation keeps it\<close>

lemma create_keeps:
  assumes "create_change_request to_vec sha uuid now a n input d = Inr (r, d')" "changes_wf dual d"
  shows "changes_wf dual d' \<and> gd_project_policies d' = gd_project_policies d
    \<and> (bt_get (gd_change_requests d) (''chg_'' @ uuid) = None \<longrightarrow> doc_le d d')"
proof -
  from assms(1) have d': "gd_change_requests d' = bt_insert (''chg_'' @ uuid) r (gd_change_requests d)"
      "gd_project_policies d' = gd_project_policies d"
    and r: "cr_approvals r = [\<lparr> ca_actor_id = a, ca_actor_name = n, ca_approved_at_ms = now \<rparr>]"
      "cr_requested_by r = a" "cr_status r = ''pending_second_approval''"
    by (auto simp: create_change_request_def result_iffs Let_def)
  have "change_wf dual r" using r by (simp add: change_wf_def approvers_def)
  with changes_wf_replace [OF d'(1) assms(2)] doc_le_replace [OF d'(1)] d'(2) show ?thesis by auto
qed

lemma approve_keeps:
  assumes "approve_change_request now now' i a n d = Inr (r, d')" "changes_wf dual d"
  shows "changes_wf dual d' \<and> gd_project_policies d' = gd_project_policies d \<and> doc_le d d'"
proof -
  from assms(1) obtain r0 where r0: "bt_get (gd_change_requests d) i = Some r0" "cr_status r0 \<noteq> ''applied''"
      "\<not> list_ex (\<lambda>approval. ca_actor_id approval = a) (cr_approvals r0)"
    and r: "r = r0\<lparr> cr_approvals := cr_approvals r0 @
              [\<lparr> ca_actor_id = a, ca_actor_name = n, ca_approved_at_ms = now \<rparr>],
              cr_status := ''approved'', cr_updated_at_ms := now' \<rparr>"
    and d: "d' = d\<lparr> gd_change_requests := bt_insert i r (gd_change_requests d) \<rparr>"
    unfolding approve_change_request_def and_then_Inr_iff ok_or_Inr_iff Let_def
    by (auto split: if_splits)
  then have d': "gd_change_requests d' = bt_insert i r (gd_change_requests d)"
      "gd_project_policies d' = gd_project_policies d" and fresh: "a \<notin> set (approvers r0)"
    by (auto simp: approvers_def list_ex_iff)
  have "change_wf dual r0" using assms(2) r0(1) by (simp add: changes_wf_def)
  then have "change_wf dual r" using fresh by (auto simp: change_wf_def approvers_def r Suc_le_eq)
  moreover have "change_le r0 r" using r0(2) by (simp add: change_le_def r)
  ultimately show ?thesis
    using changes_wf_replace [OF d'(1) assms(2)] doc_le_replace [OF d'(1)] r0(1) d'(2) by auto
qed

lemma applied_keeps:
  assumes "bt_get (gd_change_requests d) i = Some r0"
    and "gd_change_requests d' = bt_insert i
      (r0\<lparr> cr_status := ''applied'', cr_applied_at_ms := stamp, cr_updated_at_ms := now \<rparr>) (gd_change_requests d)"
    and "changes_wf dual d" "dual \<longrightarrow> length (cr_approvals r0) \<ge> 2"
  shows "changes_wf dual d' \<and> doc_le d d'"
proof -
  let ?r = "r0\<lparr> cr_status := ''applied'', cr_applied_at_ms := stamp, cr_updated_at_ms := now \<rparr>"
  have "change_wf dual r0" using assms(1,3) by (simp add: changes_wf_def)
  then have "change_wf dual ?r" using assms(4) by (simp add: change_wf_def approvers_def)
  moreover have "change_le r0 ?r" by (simp add: change_le_def)
  ultimately show ?thesis
    using changes_wf_replace [OF assms(2,3)] doc_le_replace [OF assms(2)] assms(1) by auto
qed

lemma application_allowed_dual: "application_allowed dual r \<Longrightarrow> dual \<longrightarrow> length (cr_approvals r) \<ge> 2"
  by (auto simp: application_allowed_def Let_def)

lemma mark_keeps:
  assumes "mark_change_applied_for_mode now now' i dual d = Inr (u, d')" "changes_wf dual d"
  shows "changes_wf dual d' \<and> gd_project_policies d' = gd_project_policies d \<and> doc_le d d'"
proof -
  from assms(1) obtain r0 where r0: "bt_get (gd_change_requests d) i = Some r0" "application_allowed dual r0"
    and d': "gd_change_requests d' = bt_insert i
        (r0\<lparr> cr_status := ''applied'', cr_applied_at_ms := Some now, cr_updated_at_ms := now' \<rparr>)
        (gd_change_requests d)" "gd_project_policies d' = gd_project_policies d"
    by (auto simp: mark_change_applied_for_mode_def result_iffs split: if_splits)
  with applied_keeps [OF r0(1) d'(1) assms(2) application_allowed_dual [OF r0(2)]] show ?thesis by simp
qed

lemma check_ticket:
  assumes "apply_check from_value now i a dual d = Inr p"
  shows "ticket_wf from_value dual d (i, p)"
  using assms
  by (auto simp: apply_check_def change_for_application_def result_iffs ticket_wf_def policy_of_change_def
      dest!: application_allowed_dual split: if_splits)

lemma commit_keeps:
  assumes "apply_commit now now' i p d = Inr d'" "ticket_wf from_value dual d (i, p)"
    and "changes_wf dual d" "policies_wf from_value d"
  shows "changes_wf dual d' \<and> policies_wf from_value d' \<and> doc_le d d'"
proof -
  from assms(2) obtain r0 where r0: "bt_get (gd_change_requests d) i = Some r0"
      "policy_of_change from_value p r0" "dual \<longrightarrow> length (cr_approvals r0) \<ge> 2"
    by (auto simp: ticket_wf_def)
  let ?r = "r0\<lparr> cr_status := ''applied'', cr_applied_at_ms := Some now, cr_updated_at_ms := now' \<rparr>"
  from assms(1) r0(1) have d': "gd_change_requests d' = bt_insert i ?r (gd_change_requests d)"
      "gd_project_policies d' = bt_insert (policy_own_key p) p (gd_project_policies d)"
    by (auto simp: apply_commit_def Let_def)
  have le: "changes_wf dual d' \<and> doc_le d d'" by (rule applied_keeps [OF r0(1) d'(1) assms(3) r0(3)])
  have "policies_wf from_value (d'\<lparr> gd_project_policies := gd_project_policies d \<rparr>)"
    by (rule policies_wf_le [OF _ assms(4)]) (use le in \<open>auto simp: doc_le_def\<close>)
  moreover have "policy_of_change from_value p ?r" using r0(2) by (simp add: policy_of_change_def)
  ultimately have "policies_wf from_value d'" by (auto simp: policies_wf_def d')
  with le show ?thesis by simp
qed

lemma commit_finds_request:
  "ticket_wf from_value dual d (i, p) \<Longrightarrow> apply_commit now now' i p d \<noteq> Inl x"
  by (auto simp: ticket_wf_def apply_commit_def Let_def)

lemma gov_inv_step:
  assumes inv: "gov_inv from_value dual s" and step: "gov_step to_vec sha256_hex from_value dual s t"
  shows "gov_inv from_value dual t"
proof -
  have wf: "changes_wf dual (gs_doc s)" "policies_wf from_value (gs_doc s)"
    and tk: "\<And>x. x \<in> set (gs_tickets s) \<Longrightarrow> ticket_wf from_value dual (gs_doc s) x"
    using inv by (auto simp: gov_inv_def list_all_iff)
  have doc: "gov_inv from_value dual (s\<lparr> gs_doc := d \<rparr>)"
    if "changes_wf dual d \<and> gd_project_policies d = gd_project_policies (gs_doc s) \<and> doc_le (gs_doc s) d" for d
    using that wf(2) tk by (auto simp: gov_inv_def list_all_iff intro: policies_wf_le ticket_wf_le)
  from step show ?thesis
  proof (cases rule: gov_stepE)
    case (create uuid now a n input r d)
    with create_keeps [OF create(2) wf(1)] doc [of d] show ?thesis by simp
  next
    case (approve now now' i a n r d)
    with approve_keeps [OF approve(2) wf(1)] doc [of d] show ?thesis by simp
  next
    case (mark now now' i d)
    with mark_keeps [OF mark(2) wf(1)] doc [of d] show ?thesis by simp
  next
    case (check now i a p)
    with check_ticket [OF check(2)] wf tk show ?thesis by (auto simp: gov_inv_def list_all_iff)
  next
    case (commit i p now now' d)
    with commit_keeps [OF commit(3) tk [OF commit(2)] wf] tk show ?thesis
      by (auto simp: gov_inv_def list_all_iff dest!: set_remove1_subset [THEN subsetD] intro: ticket_wf_le)
  next
    case (commit_missing i p now now' e d)
    then show ?thesis using commit_finds_request [OF tk [OF commit_missing(2)]] by simp
  next
    case (abandon i p)
    with wf tk show ?thesis
      by (auto simp: gov_inv_def list_all_iff dest!: set_remove1_subset [THEN subsetD])
  qed
qed

lemma gov_inv_init: "gov_init s \<Longrightarrow> gov_inv from_value dual s"
  by (simp add: gov_init_def gov_inv_def changes_wf_def policies_wf_def empty_document_def)

interpretation gov: inductive_invariant gov_init "gov_step to_vec sha256_hex from_value dual"
  "gov_inv from_value dual" for to_vec sha256_hex from_value dual
  by unfold_locales (blast intro: gov_inv_init gov_inv_step)+

section \<open>What an applied change and a policy in force mean\<close>

lemma validate_stamped [simp]:
  "validate_project_policy (p\<lparr> pp_updated_by := actor, pp_updated_at_ms := stamp \<rparr>) = validate_project_policy p"
  by (simp add: validate_project_policy_def)

lemma two_approvers:
  assumes "change_wf True r" "cr_status r = ''applied''"
  shows "\<exists>b. b \<noteq> cr_requested_by r \<and> {cr_requested_by r, b} \<subseteq> set (approvers r)"
proof -
  from assms have "length (approvers r) \<ge> 2" "distinct (approvers r)" "hd (approvers r) = cr_requested_by r"
    by (auto simp: change_wf_def approvers_def)
  then obtain b rest where "approvers r = cr_requested_by r # b # rest"
    by (cases "approvers r"; cases "tl (approvers r)") auto
  with \<open>distinct (approvers r)\<close> show ?thesis by (intro exI [of _ b]) auto
qed

text \<open>
  C1: when dual approval is required, no high-risk change is applied on one person's word.  In
  every state reachable by any interleaving of requests, approvals and applications, a change with
  status \<open>applied\<close> was approved by its author and by a different administrator.
\<close>

theorem applied_change_has_two_approvers:
  assumes "reach gov_init (gov_step to_vec sha256_hex from_value True) s"
    and "bt_get (gd_change_requests (gs_doc s)) i = Some r" and "cr_status r = ''applied''"
  shows "\<exists>b. b \<noteq> cr_requested_by r \<and> {cr_requested_by r, b} \<subseteq> set (approvers r)"
proof -
  have "changes_wf True (gs_doc s)" using gov.reach_inv [OF assms(1)] by (simp add: gov_inv_def)
  with assms(2,3) show ?thesis by (intro two_approvers) (auto simp: changes_wf_def)
qed

definition sample_input :: change_request_input where
  "sample_input =
     \<lparr> ci_action = ''project_policy.upsert'', ci_target = ''prj'', ci_payload = JNull,
       ci_reason = ''new project'' \<rparr>"

abbreviation sample_from_value :: "json \<Rightarrow> project_policy result" where
  "sample_from_value \<equiv> \<lambda>_. Inr (fail_closed legacy_local)"

abbreviation sample_step :: "gov_system \<Rightarrow> gov_system \<Rightarrow> bool" where
  "sample_step \<equiv> gov_step (\<lambda>_. Inr []) (\<lambda>b. b) sample_from_value True"

definition sample_request :: change_request where
  "sample_request =
     \<lparr> cr_id = ''chg_1'', cr_action = ''project_policy.upsert'', cr_target = ''prj'', cr_payload = JNull,
       cr_payload_sha256 = [], cr_reason = ''new project'', cr_risk = ''high'',
       cr_status = ''pending_second_approval'', cr_requested_by = ''alice'', cr_requested_by_name = ''A'',
       cr_approvals = [\<lparr> ca_actor_id = ''alice'', ca_actor_name = ''A'', ca_approved_at_ms = 1 \<rparr>],
       cr_created_at_ms = 1, cr_updated_at_ms = 1, cr_applied_at_ms = None \<rparr>"

definition sample_approved :: change_request where
  "sample_approved = sample_request\<lparr> cr_status := ''approved'', cr_updated_at_ms := 2,
     cr_approvals := [\<lparr> ca_actor_id = ''alice'', ca_actor_name = ''A'', ca_approved_at_ms = 1 \<rparr>,
                      \<lparr> ca_actor_id = ''bob'', ca_actor_name = ''B'', ca_approved_at_ms = 2 \<rparr>] \<rparr>"

definition sample_policy :: project_policy where
  "sample_policy = (fail_closed legacy_local)\<lparr> pp_updated_by := ''bob'', pp_updated_at_ms := 3 \<rparr>"

definition sample_applied :: gov_system where
  "sample_applied =
     \<lparr> gs_doc = \<lparr> gd_project_policies = [(policy_own_key sample_policy, sample_policy)],
                  gd_change_requests = [(''chg_1'', sample_approved\<lparr> cr_status := ''applied'',
                    cr_applied_at_ms := Some 4, cr_updated_at_ms := 4 \<rparr>)] \<rparr>,
       gs_tickets = [] \<rparr>"

lemma legacy_policy_valid: "validate_project_policy (fail_closed legacy_local) = Inr ()"
proof -
  have "trim ''local'' = ''local''" by (simp add: graphic_literal)
  then show ?thesis
    by (simp add: validate_project_policy_def fail_closed_def legacy_local_def valid_tenant_identifier_def
        char_class_defs invalid_allowlist_def)
qed

lemma sample_create:
  "create_change_request (\<lambda>_. Inr []) (\<lambda>b. b) ''1'' 1 ''alice'' ''A'' sample_input empty_document
     = Inr (sample_request, \<lparr> gd_project_policies = [], gd_change_requests = [(''chg_1'', sample_request)] \<rparr>)"
proof -
  have "trim ''prj'' = ''prj''" "trim ''new project'' = ''new project''" by (simp_all add: graphic_literal)
  then show ?thesis
    by (simp add: create_change_request_def validate_change_input_def payload_sha256_def sample_input_def
        supported_actions_def sample_request_def empty_document_def Let_def)
qed

lemma sample_applied_reachable: "reach gov_init sample_step sample_applied"
proof -
  let ?doc = "\<lambda>r. \<lparr> gd_project_policies = [], gd_change_requests = [(''chg_1'', r)] \<rparr>"
  let ?s0 = "\<lparr> gs_doc = empty_document, gs_tickets = [] \<rparr>"
  let ?s1 = "\<lparr> gs_doc = ?doc sample_request, gs_tickets = [] \<rparr>"
  let ?s2 = "\<lparr> gs_doc = ?doc sample_approved, gs_tickets = [] \<rparr>"
  let ?s3 = "\<lparr> gs_doc = ?doc sample_approved, gs_tickets = [(''chg_1'', sample_policy)] \<rparr>"
  have s0: "reach gov_init sample_step ?s0" by (rule reach_init) (simp add: gov_init_def)
  have c1: "create_change_request (\<lambda>_. Inr []) (\<lambda>b. b) ''1'' 1 ''alice'' ''A'' sample_input (gs_doc ?s0)
      = Inr (sample_request, ?doc sample_request)"
    by (simp only: sample_create gov_system.select_convs)
  have n1: "bt_get (gd_change_requests (gs_doc ?s0)) (''chg_'' @ ''1'') = None" by (simp add: empty_document_def)
  have "sample_step ?s0 (?s0\<lparr> gs_doc := ?doc sample_request \<rparr>)" by (rule gov_step.create [OF c1 n1])
  then have "sample_step ?s0 ?s1" by (simp only: gov_system.update_convs)
  with s0 have s1: "reach gov_init sample_step ?s1" by (rule reach_step)
  have "approve_change_request 2 2 ''chg_1'' ''bob'' ''B'' (gs_doc ?s1) = Inr (sample_approved, ?doc sample_approved)"
    by (simp add: approve_change_request_def sample_request_def sample_approved_def bt_get_def Let_def)
  then have "sample_step ?s1 (?s1\<lparr> gs_doc := ?doc sample_approved \<rparr>)" by (rule gov_step.approve)
  then have "sample_step ?s1 ?s2" by (simp only: gov_system.update_convs)
  with s1 have s2: "reach gov_init sample_step ?s2" by (rule reach_step)
  have "apply_check sample_from_value 3 ''chg_1'' ''bob'' True (gs_doc ?s2) = Inr sample_policy"
    by (simp add: apply_check_def change_for_application_def application_allowed_def sample_approved_def
        sample_request_def bt_get_def sample_policy_def legacy_policy_valid)
  then have "sample_step ?s2 (?s2\<lparr> gs_tickets := (''chg_1'', sample_policy) # gs_tickets ?s2 \<rparr>)"
    by (rule gov_step.check)
  then have "sample_step ?s2 ?s3" by (simp only: gov_system.update_convs gov_system.select_convs)
  with s2 have s3: "reach gov_init sample_step ?s3" by (rule reach_step)
  have t: "(''chg_1'', sample_policy) \<in> set (gs_tickets ?s3)" by simp
  have "apply_commit 4 4 ''chg_1'' sample_policy (gs_doc ?s3) = Inr (gs_doc sample_applied)"
    by (simp add: apply_commit_def bt_get_def sample_applied_def)
  from gov_step.commit [OF t this] have "sample_step ?s3 sample_applied"
    by (simp add: sample_applied_def)
  with s3 show ?thesis by (rule reach_step)
qed

theorem applied_change_has_two_approvers_witness:
  "\<exists>s r. reach gov_init sample_step s \<and> bt_get (gd_change_requests (gs_doc s)) ''chg_1'' = Some r
     \<and> cr_status r = ''applied'' \<and> (\<exists>b. b \<noteq> cr_requested_by r \<and> {cr_requested_by r, b} \<subseteq> set (approvers r))"
proof -
  let ?r = "sample_approved\<lparr> cr_status := ''applied'', cr_applied_at_ms := Some 4, cr_updated_at_ms := 4 \<rparr>"
  have g: "bt_get (gd_change_requests (gs_doc sample_applied)) ''chg_1'' = Some ?r"
    by (simp add: sample_applied_def bt_get_def)
  show ?thesis
    using applied_change_has_two_approvers [OF sample_applied_reachable g] sample_applied_reachable g
    by (intro exI [of _ sample_applied] exI [of _ ?r]) simp
qed



section \<open>Several replicas\<close>

text \<open>The operations as functions of the document alone; \<open>apply\<close> is the uninterrupted one.\<close>

definition apply_project_policy ::
  "(json \<Rightarrow> project_policy result) \<Rightarrow> u64 \<Rightarrow> u64 \<Rightarrow> u64 \<Rightarrow> string \<Rightarrow> string \<Rightarrow> bool \<Rightarrow>
   governance_document \<Rightarrow> (project_policy \<times> governance_document) result" where
  "apply_project_policy from_value now now' now'' request_id actor_id require_dual_approval doc =
     and_then (apply_check from_value now request_id actor_id require_dual_approval doc) (\<lambda>policy.
       case apply_commit now' now'' request_id policy doc of
         Inl (e, _) \<Rightarrow> Inl e
       | Inr doc' \<Rightarrow> Inr (policy, doc'))"

definition forget :: "('a \<times> 'd) result \<Rightarrow> (unit \<times> 'd) result" where
  "forget m = and_then m (\<lambda>(_, d). Inr ((), d))"

definition governance_operations ::
  "(json \<Rightarrow> string result) \<Rightarrow> (string \<Rightarrow> string) \<Rightarrow> (json \<Rightarrow> project_policy result) \<Rightarrow> bool \<Rightarrow>
   (governance_document \<Rightarrow> (unit \<times> governance_document) result) set" where
  "governance_operations to_vec sha256_hex from_value dual =
     {\<lambda>d. forget (create_change_request to_vec sha256_hex uuid now a n input d) | uuid now a n input. True}
     \<union> {\<lambda>d. forget (approve_change_request now now' i a n d) | now now' i a n. True}
     \<union> {mark_change_applied_for_mode now now' i dual | now now' i. True}
     \<union> {\<lambda>d. forget (apply_project_policy from_value now now' now'' i a dual d) | now now' now'' i a. True}"

lemma forget_Inr_iff: "forget m = Inr (u, d) \<longleftrightarrow> (\<exists>x. m = Inr (x, d))"
  by (auto simp: forget_def and_then_Inr_iff)

lemma apply_keeps:
  assumes "apply_project_policy from_value now now' now'' i a dual d = Inr (p, d')" "changes_wf dual d"
  shows "changes_wf dual d'"
proof -
  from assms(1) obtain x where x: "apply_check from_value now i a dual d = Inr x"
      "(case apply_commit now' now'' i x d of Inl (e, _) \<Rightarrow> Inl e | Inr doc' \<Rightarrow> Inr (x, doc')) = Inr (p, d')"
    unfolding apply_project_policy_def and_then_Inr_iff by blast
  then have c: "apply_check from_value now i a dual d = Inr p" "apply_commit now' now'' i p d = Inr d'"
    by (cases "apply_commit now' now'' i x d"; force)+
  from check_ticket [OF c(1)] obtain r0 where r0: "bt_get (gd_change_requests d) i = Some r0"
      "dual \<longrightarrow> length (cr_approvals r0) \<ge> 2"
    by (auto simp: ticket_wf_def)
  with c(2) have "gd_change_requests d' = bt_insert i (r0\<lparr> cr_status := ''applied'',
      cr_applied_at_ms := Some now', cr_updated_at_ms := now'' \<rparr>) (gd_change_requests d)"
    by (auto simp: apply_commit_def Let_def)
  from applied_keeps [OF r0(1) this assms(2) r0(2)] show ?thesis by simp
qed

lemma changes_wf_empty: "changes_wf dual empty_document"
  by (simp add: changes_wf_def empty_document_def)

lemma operations_keep:
  assumes "operation \<in> governance_operations to_vec sha256_hex from_value dual"
    and "changes_wf dual d" "operation d = Inr (u, d')"
  shows "changes_wf dual d'"
  using assms
  by (auto simp: governance_operations_def forget_Inr_iff dest: create_keeps approve_keeps mark_keeps apply_keeps)

interpretation gov_store: persistent "\<lambda>d. d" "\<lambda>d. d" empty_document "''governance''"
  "governance_operations to_vec sha256_hex from_value dual" "changes_wf dual"
  for to_vec sha256_hex from_value dual
  by unfold_locales (auto simp: changes_wf_empty intro: operations_keep)

text \<open>
  C3: replicas that share the database never overwrite each other's governance changes.  Whatever
  the interleaving of replicas and whatever database calls fail, an operation that is acknowledged
  was computed from the document that was stored at that moment, its result is the one now stored,
  under the next revision; and every replica's document satisfies the approval rules.
\<close>

theorem governance_replicas_no_lost_update:
  fixes operation :: "governance_document \<Rightarrow> (unit \<times> governance_document) result"
  assumes "reach (cluster_init (\<lambda>d. d) empty_document ''governance'')
      (cluster_step (\<lambda>d. d) (\<lambda>d. d) empty_document ''governance''
        (governance_operations to_vec sha256_hex from_value dual)) s"
    and "transact (\<lambda>d. d) ''governance'' fault operation (cl_table s) (cl_cells s k) = (table', cell', Inr ())"
  shows "stored (\<lambda>d. d) empty_document ''governance'' (cl_table s) = cell_doc (cl_cells s k)
    \<and> operation (cell_doc (cl_cells s k)) = Inr ((), cell_doc cell')
    \<and> table' ''governance'' = Some (cell_doc cell', cell_revision cell')
    \<and> cell_revision cell' = row_revision (cl_table s) ''governance'' + 1
    \<and> changes_wf dual (cell_doc (cl_cells s j))"
  using gov_store.no_lost_update [OF assms] gov_store.reachable_doc_inv [OF assms(1)] by simp

theorem governance_replicas_no_lost_update_witness:
  "\<exists>s table' cell'. reach (cluster_init (\<lambda>d. d) empty_document ''governance'')
      (cluster_step (\<lambda>d. d) (\<lambda>d. d) empty_document ''governance''
        (governance_operations (\<lambda>_. Inr []) (\<lambda>b. b) sample_from_value True)) s
    \<and> transact (\<lambda>d. d) ''governance'' NoFault
        (\<lambda>d. forget (create_change_request (\<lambda>_. Inr []) (\<lambda>b. b) ''1'' 1 ''alice'' ''A'' sample_input d))
        (cl_table s) (cl_cells s 0) = (table', cell', Inr ())
    \<and> table' ''governance'' = Some (cell_doc cell', 1)"
proof -
  let ?s = "\<lparr> cl_table = (\<lambda>_. None), cl_cells =
      (\<lambda>_. \<lparr> cell_doc = empty_document, cell_revision = 0, cell_degraded = False \<rparr>) \<rparr>
      :: (governance_document, governance_document) cluster"
  let ?op = "\<lambda>d. forget (create_change_request (\<lambda>_. Inr []) (\<lambda>b. b) ''1'' 1 ''alice'' ''A'' sample_input d)"
  have r: "reach (cluster_init (\<lambda>d. d) empty_document ''governance'')
      (cluster_step (\<lambda>d. d) (\<lambda>d. d) empty_document ''governance''
        (governance_operations (\<lambda>_. Inr []) (\<lambda>b. b) sample_from_value True)) ?s"
    by (rule reach_init) (simp add: cluster_init_def load_cell_def read_postgres_value_def)
  have "?op empty_document = Inr ((), \<lparr> gd_project_policies = [], gd_change_requests = [(''chg_1'', sample_request)] \<rparr>)"
    by (simp only: forget_def sample_create) simp
  then obtain table' cell' where x: "transact (\<lambda>d. d) ''governance'' NoFault ?op (cl_table ?s) (cl_cells ?s 0)
      = (table', cell', Inr ())"
    by (simp add: transact_def save_or_restore_def cas_defs i64_limit_def)
  have "table' ''governance'' = Some (cell_doc cell', cell_revision cell')
      \<and> cell_revision cell' = row_revision (cl_table ?s) ''governance'' + 1"
    using governance_replicas_no_lost_update [where s = ?s and k = 0 and operation = ?op, OF r x] by blast
  then have "table' ''governance'' = Some (cell_doc cell', 1)" by simp
  with r x show ?thesis by (intro exI [of _ ?s] exI [of _ table'] exI [of _ cell']) (intro conjI)
qed

end
