(* ===== verification/Local_Scheduler.thy ===== *)
theory Local_Scheduler
  imports Governance
begin

text \<open>
  The scheduler of local execution, \<^verbatim>\<open>src/governance.rs\<close> from \<open>LocalSchedulerConfig\<close> to the
  \<open>Drop\<close> of \<open>LocalLease\<close>: one execution permit, two bounded queues and per-user limits.

  Each section of \<open>acquire\<close> that runs under the state lock, and each access to the semaphore, is one
  atomic step.  A task is one call of \<open>acquire\<close> followed by the life of the lease it returns; its
  constructors are the points between two such steps.  \<open>advance\<close> is the next step of one task,
  \<open>sched_step\<close> interleaves the tasks of a system, with new calls at any time.  A call suspends only
  at its \<open>await\<close>, and the runtime may drop the future there: the step \<open>cancel\<close>.

  Times are milliseconds.  A \<open>Notify\<close> is the index of the task that waits on it, with the flag that
  \<open>notify_one\<close> stores and \<open>notified\<close> consumes.
\<close>

section \<open>Configuration\<close>

record local_scheduler_config =
  executing_per_user :: nat
  queued_per_user :: nat
  global_interactive_queue :: nat
  global_batch_queue :: nat
  overflow_after :: nat
  strict_wait :: nat

definition env_usize :: "(string \<Rightarrow> string option) \<Rightarrow> string \<Rightarrow> nat \<Rightarrow> nat" where
  "env_usize env name dflt =
     (case Option.bind (env name) (parse_uint u64_max) of Some n \<Rightarrow> n | None \<Rightarrow> dflt)"

definition env_u64 :: "(string \<Rightarrow> string option) \<Rightarrow> string \<Rightarrow> nat \<Rightarrow> nat" where
  "env_u64 env name dflt =
     (case Option.bind (env name) (parse_uint u64_max) of Some n \<Rightarrow> n | None \<Rightarrow> dflt)"

definition scheduler_from_env :: "(string \<Rightarrow> string option) \<Rightarrow> local_scheduler_config result" where
  "scheduler_from_env env =
     (let config =
        \<lparr> executing_per_user = env_usize env ''MODELPORT_LOCAL_EXECUTING_PER_USER'' 1,
          queued_per_user = env_usize env ''MODELPORT_LOCAL_QUEUED_PER_USER'' 2,
          global_interactive_queue = env_usize env ''MODELPORT_LOCAL_QUEUE_GLOBAL'' 16,
          global_batch_queue = env_usize env ''MODELPORT_BATCH_QUEUE_GLOBAL'' 16,
          overflow_after = env_u64 env ''MODELPORT_LOCAL_OVERFLOW_AFTER_SECONDS'' 5 * 1000,
          strict_wait = env_u64 env ''MODELPORT_LOCAL_STRICT_WAIT_SECONDS'' 60 * 1000 \<rparr>
      in if executing_per_user config \<noteq> 1 \<or> queued_per_user config \<noteq> 2
            \<or> global_interactive_queue config \<noteq> 16 \<or> overflow_after config \<noteq> 5 * 1000
            \<or> strict_wait config \<noteq> 60 * 1000
         then Inl (Config (''the 40-user baseline requires local limits 1 executing / 2 queued per user, '' @
                     ''global queue 16, overflow 5s, strict wait 60s''))
         else Inr config)"

section \<open>The locked state\<close>

record queued_request =
  qr_id :: u64
  qr_enqueued :: nat
  qr_notify :: nat

record scheduler_state =
  running_by_user :: "(string, nat) btree"
  queued_by_user :: "(string, nat) btree"
  interactive :: "queued_request list"
  batch :: "queued_request list"
  next_id :: u64
  service_time_ms :: u64

definition new_scheduler :: scheduler_state where
  "new_scheduler = \<lparr> running_by_user = [], queued_by_user = [], interactive = [], batch = [],
                     next_id = 0, service_time_ms = 5000 \<rparr>"

definition retry_after_seconds :: "u64 \<Rightarrow> u64" where
  "retry_after_seconds ms = min 60 (max 1 ((ms + 999) div 1000))"

text \<open>The counters: \<open>entry(user).or_default()\<close>, and the decrement that removes a counter at zero.\<close>

definition tally :: "(string, nat) btree \<Rightarrow> string \<Rightarrow> nat" where
  "tally m u = (case bt_get m u of Some n \<Rightarrow> n | None \<Rightarrow> 0)"

definition tally_incr :: "string \<Rightarrow> (string, nat) btree \<Rightarrow> (string, nat) btree" where
  "tally_incr u m = bt_insert u (tally m u + 1) m"

definition tally_decr :: "string \<Rightarrow> (string, nat) btree \<Rightarrow> (string, nat) btree" where
  "tally_decr u m =
     (case bt_get m u of
        None \<Rightarrow> m
      | Some n \<Rightarrow> if n - 1 = 0 then bt_remove u m else bt_insert u (n - 1) m)"

definition queue_of :: "workload_class \<Rightarrow> scheduler_state \<Rightarrow> queued_request list" where
  "queue_of class st = (case class of Interactive \<Rightarrow> interactive st | Batch \<Rightarrow> batch st)"

definition queue_limit :: "local_scheduler_config \<Rightarrow> workload_class \<Rightarrow> nat" where
  "queue_limit cfg class =
     (case class of Interactive \<Rightarrow> global_interactive_queue cfg | Batch \<Rightarrow> global_batch_queue cfg)"

definition set_queue :: "workload_class \<Rightarrow> queued_request list \<Rightarrow> scheduler_state \<Rightarrow> scheduler_state" where
  "set_queue class q st = (case class of Interactive \<Rightarrow> st\<lparr> interactive := q \<rparr> | Batch \<Rightarrow> st\<lparr> batch := q \<rparr>)"

definition fast_admit ::
  "local_scheduler_config \<Rightarrow> string \<Rightarrow> scheduler_state \<Rightarrow> scheduler_state \<times> bool" where
  "fast_admit cfg user st =
     (let running = tally (running_by_user st) user
      in if running < executing_per_user cfg
         then (st\<lparr> running_by_user := bt_insert user (running + 1) (running_by_user st) \<rparr>, True)
         else (st\<lparr> running_by_user := bt_insert user running (running_by_user st) \<rparr>, False))"

definition estimated_wait :: "workload_class \<Rightarrow> scheduler_state \<Rightarrow> nat" where
  "estimated_wait class st =
     (let ahead = length (interactive st) + (if class = Batch then 1 else 0) * length (batch st)
                  + sum_list (bt_values (running_by_user st))
      in sat_mul (service_time_ms st) ahead)"

text \<open>The parameters of one call of \<open>acquire\<close>.\<close>

record call =
  cl_user :: string
  cl_mode :: hybrid_mode
  cl_class :: workload_class
  cl_cloud_available :: bool

datatype local_admission = Acquired | OverflowToCloud

datatype enqueue_outcome = Refused app_error | Overflow | Queued u64

definition enqueue ::
  "local_scheduler_config \<Rightarrow> nat \<Rightarrow> nat \<Rightarrow> call \<Rightarrow> scheduler_state \<Rightarrow> scheduler_state \<times> enqueue_outcome" where
  "enqueue cfg now notify c st =
     (if tally (queued_by_user st) (cl_user c) \<ge> queued_per_user cfg
      then (st, Refused (RateLimited ''per-user local queue limit exceeded (2 queued)''
                  (retry_after_seconds (service_time_ms st))))
      else if length (queue_of (cl_class c) st) \<ge> queue_limit cfg (cl_class c)
      then if cl_mode c \<in> {LocalFirst, Balanced} \<and> cl_cloud_available c then (st, Overflow)
           else (st, Refused (RateLimited
                   (''global '' @ (case cl_class c of Interactive \<Rightarrow> ''Interactive'' | Batch \<Rightarrow> ''Batch'') @
                    '' local queue limit exceeded'')
                   (retry_after_seconds (service_time_ms st))))
      else let rid = sat_add (next_id st) 1;
               request = \<lparr> qr_id = rid, qr_enqueued = now, qr_notify = notify \<rparr>;
               st' = st\<lparr> next_id := rid, queued_by_user := tally_incr (cl_user c) (queued_by_user st) \<rparr>
           in (set_queue (cl_class c) (queue_of (cl_class c) st @ [request]) st', Queued rid))"

definition front_is :: "u64 \<Rightarrow> queued_request list \<Rightarrow> bool" where
  "front_is rid q = (case q of [] \<Rightarrow> False | r # _ \<Rightarrow> qr_id r = rid)"

definition is_front ::
  "local_scheduler_config \<Rightarrow> u64 \<Rightarrow> workload_class \<Rightarrow> string \<Rightarrow> scheduler_state \<Rightarrow> bool" where
  "is_front cfg rid class user st =
     (if tally (running_by_user st) user \<ge> executing_per_user cfg then False
      else case class of
             Interactive \<Rightarrow> front_is rid (interactive st)
           | Batch \<Rightarrow> interactive st = [] \<and> front_is rid (batch st))"

fun remove_first :: "u64 \<Rightarrow> queued_request list \<Rightarrow> queued_request list" where
  "remove_first rid [] = []"
| "remove_first rid (r # q) = (if qr_id r = rid then q else r # remove_first rid q)"

definition remove_queued :: "u64 \<Rightarrow> workload_class \<Rightarrow> string \<Rightarrow> scheduler_state \<Rightarrow> scheduler_state" where
  "remove_queued rid class user st =
     (set_queue class (remove_first rid (queue_of class st)) st)
       \<lparr> queued_by_user := tally_decr user (queued_by_user st) \<rparr>"

definition front_request :: "scheduler_state \<Rightarrow> queued_request option" where
  "front_request st =
     (case interactive st of
        r # _ \<Rightarrow> Some r
      | [] \<Rightarrow> (case batch st of r # _ \<Rightarrow> Some r | [] \<Rightarrow> None))"

definition grant :: "string \<Rightarrow> scheduler_state \<Rightarrow> scheduler_state" where
  "grant user st = st\<lparr> running_by_user := tally_incr user (running_by_user st) \<rparr>"

definition drop_lease :: "string \<Rightarrow> nat \<Rightarrow> scheduler_state \<Rightarrow> scheduler_state" where
  "drop_lease user elapsed st =
     (let elapsed_ms = min elapsed u64_max
      in st\<lparr> running_by_user := tally_decr user (running_by_user st),
             service_time_ms :=
               (if service_time_ms st = 0 then max elapsed_ms 1
                else sat_add (sat_mul (service_time_ms st) 4) (max elapsed_ms 1) div 5) \<rparr>)"

section \<open>Tasks\<close>

datatype task =
    Entering call
  | HoldingFast call
  | Estimating call
  | Queueing call
  | Announcing call u64
  | Looping call u64 nat
  | AtFront call u64 nat
  | Checking call u64 nat
  | Sleeping call u64 nat
  | Expired call u64
  | ExpiredRemoved call
  | Leaving call
  | Granted call u64
  | GrantedRemoved call
  | GrantedNotified call
  | Leased string nat
  | Releasing
  | Released
  | Answered "local_admission result"
  | Finished
  | Abandoned call u64

record system =
  sy_state :: scheduler_state
  sy_permits :: nat
  sy_notified :: "nat list"
  sy_tasks :: "task list"

definition notify_next :: "system \<Rightarrow> system" where
  "notify_next s =
     (case front_request (sy_state s) of
        None \<Rightarrow> s
      | Some r \<Rightarrow> s\<lparr> sy_notified := List.insert (qr_notify r) (sy_notified s) \<rparr>)"

definition wait_for :: "local_scheduler_config \<Rightarrow> call \<Rightarrow> nat" where
  "wait_for cfg c = (if cl_mode c = LocalStrict then strict_wait cfg else overflow_after cfg)"

text \<open>
  The next step of task \<open>i\<close> at time \<open>now\<close>: the system after it and the point the task is then at, or
  \<open>None\<close> when it cannot move.
\<close>

fun advance :: "local_scheduler_config \<Rightarrow> nat \<Rightarrow> nat \<Rightarrow> task \<Rightarrow> system \<Rightarrow> (system \<times> task) option" where
  "advance cfg now i (Entering c) s =
     (if sy_permits s > 0 then Some (s\<lparr> sy_permits := sy_permits s - 1 \<rparr>, HoldingFast c)
      else Some (s, Estimating c))"
| "advance cfg now i (HoldingFast c) s =
     (case fast_admit cfg (cl_user c) (sy_state s) of
        (st, True) \<Rightarrow> Some (s\<lparr> sy_state := st \<rparr>, Leased (cl_user c) now)
      | (st, False) \<Rightarrow> Some (s\<lparr> sy_state := st, sy_permits := sy_permits s + 1 \<rparr>, Estimating c))"
| "advance cfg now i (Estimating c) s =
     (if cl_mode c \<in> {LocalFirst, Balanced} \<and> cl_cloud_available c
         \<and> estimated_wait (cl_class c) (sy_state s) > overflow_after cfg
      then Some (s, Answered (Inr OverflowToCloud))
      else Some (s, Queueing c))"
| "advance cfg now i (Queueing c) s =
     (case enqueue cfg now i c (sy_state s) of
        (st, Refused e) \<Rightarrow> Some (s\<lparr> sy_state := st \<rparr>, Answered (Inl e))
      | (st, Overflow) \<Rightarrow> Some (s\<lparr> sy_state := st \<rparr>, Answered (Inr OverflowToCloud))
      | (st, Queued rid) \<Rightarrow> Some (s\<lparr> sy_state := st \<rparr>, Announcing c rid))"
| "advance cfg now i (Announcing c rid) s = Some (notify_next s, Looping c rid (now + wait_for cfg c))"
| "advance cfg now i (Looping c rid deadline) s =
     (if is_front cfg rid (cl_class c) (cl_user c) (sy_state s) then Some (s, AtFront c rid deadline)
      else Some (s, Checking c rid deadline))"
| "advance cfg now i (AtFront c rid deadline) s =
     (if sy_permits s > 0 then Some (s\<lparr> sy_permits := sy_permits s - 1 \<rparr>, Granted c rid)
      else Some (s, Checking c rid deadline))"
| "advance cfg now i (Checking c rid deadline) s =
     (if now \<ge> deadline then Some (s, Expired c rid) else Some (s, Sleeping c rid deadline))"
| "advance cfg now i (Sleeping c rid deadline) s =
     (if i \<in> set (sy_notified s)
      then Some (s\<lparr> sy_notified := removeAll i (sy_notified s) \<rparr>, Looping c rid deadline)
      else if now \<ge> deadline then Some (s, Looping c rid deadline)
      else None)"
| "advance cfg now i (Expired c rid) s =
     Some (s\<lparr> sy_state := remove_queued rid (cl_class c) (cl_user c) (sy_state s) \<rparr>, ExpiredRemoved c)"
| "advance cfg now i (ExpiredRemoved c) s = Some (notify_next s, Leaving c)"
| "advance cfg now i (Leaving c) s =
     (if cl_mode c \<noteq> LocalStrict \<and> cl_cloud_available c
      then Some (s, Answered (Inr OverflowToCloud))
      else Some (s, Answered (Inl (RateLimited ''local_strict request exceeded the 60 second local wait limit''
             (retry_after_seconds (service_time_ms (sy_state s)))))))"
| "advance cfg now i (Granted c rid) s =
     Some (s\<lparr> sy_state := remove_queued rid (cl_class c) (cl_user c) (sy_state s) \<rparr>, GrantedRemoved c)"
| "advance cfg now i (GrantedRemoved c) s = Some (notify_next s, GrantedNotified c)"
| "advance cfg now i (GrantedNotified c) s =
     Some (s\<lparr> sy_state := grant (cl_user c) (sy_state s) \<rparr>, Leased (cl_user c) now)"
| "advance cfg now i (Leased user started) s =
     Some (s\<lparr> sy_state := drop_lease user (now - started) (sy_state s) \<rparr>, Releasing)"
| "advance cfg now i Releasing s = Some (s\<lparr> sy_permits := sy_permits s + 1 \<rparr>, Released)"
| "advance cfg now i Released s = Some (notify_next s, Finished)"
| "advance cfg now i (Answered r) s = None"
| "advance cfg now i Finished s = None"
| "advance cfg now i (Abandoned c rid) s = None"

definition set_task :: "nat \<Rightarrow> task \<Rightarrow> system \<Rightarrow> system" where
  "set_task i t s = s\<lparr> sy_tasks := (sy_tasks s)[i := t] \<rparr>"

inductive sched_step :: "local_scheduler_config \<Rightarrow> system \<Rightarrow> system \<Rightarrow> bool"
  for cfg where
  arrive: "sched_step cfg s (s\<lparr> sy_tasks := sy_tasks s @ [Entering c] \<rparr>)"
| run: "i < length (sy_tasks s) \<Longrightarrow> advance cfg now i (sy_tasks s ! i) s = Some (s', t) \<Longrightarrow>
        sched_step cfg s (set_task i t s')"
| cancel: "i < length (sy_tasks s) \<Longrightarrow> sy_tasks s ! i = Sleeping c rid deadline \<Longrightarrow>
        sched_step cfg s (set_task i (Abandoned c rid) s)"

definition sched_init :: "system \<Rightarrow> bool" where
  "sched_init s \<longleftrightarrow> s = \<lparr> sy_state = new_scheduler, sy_permits = 1, sy_notified = [], sy_tasks = [] \<rparr>"

text \<open>The numbers that \<open>snapshot\<close> reports.\<close>

definition wait_of_front :: "nat \<Rightarrow> queued_request list \<Rightarrow> nat" where
  "wait_of_front now q = (case q of [] \<Rightarrow> 0 | r # _ \<Rightarrow> (now - qr_enqueued r) mod (u64_max + 1))"

definition snapshot :: "local_scheduler_config \<Rightarrow> nat \<Rightarrow> scheduler_state \<Rightarrow> json" where
  "snapshot cfg now st = JObj (bt_of_list
     [(''running'', JNum (PosInt (sum_list (bt_values (running_by_user st))))),
      (''interactiveQueued'', JNum (PosInt (length (interactive st)))),
      (''batchQueued'', JNum (PosInt (length (batch st)))),
      (''usersQueued'', JNum (PosInt (length (queued_by_user st)))),
      (''estimatedServiceMs'', JNum (PosInt (service_time_ms st))),
      (''oldestInteractiveWaitMs'', JNum (PosInt (wait_of_front now (interactive st)))),
      (''oldestBatchWaitMs'', JNum (PosInt (wait_of_front now (batch st)))),
      (''limits'', JObj (bt_of_list
        [(''executingPerUser'', JNum (PosInt (executing_per_user cfg))),
         (''queuedPerUser'', JNum (PosInt (queued_per_user cfg))),
         (''globalInteractiveQueue'', JNum (PosInt (global_interactive_queue cfg))),
         (''globalBatchQueue'', JNum (PosInt (global_batch_queue cfg))),
         (''overflowAfterSeconds'', JNum (PosInt (overflow_after cfg div 1000))),
         (''strictWaitSeconds'', JNum (PosInt (strict_wait cfg div 1000)))]))])"

section \<open>Counters and counts\<close>

lemma tally_nil [simp]: "tally [] u = 0"
  by (simp add: tally_def)

lemma tally_insert [simp]: "tally (bt_insert u n m) v = (if v = u then n else tally m v)"
  by (simp add: tally_def)

lemma tally_incr [simp]: "tally (tally_incr u m) v = (if v = u then tally m u + 1 else tally m v)"
  by (simp add: tally_incr_def)

lemma tally_decr [simp]: "tally (tally_decr u m) v = (if v = u then tally m u - 1 else tally m v)"
  by (auto simp: tally_decr_def tally_def split: option.splits)

definition how_many :: "('a \<Rightarrow> bool) \<Rightarrow> 'a list \<Rightarrow> nat" where
  "how_many P xs = length (filter P xs)"

lemma how_many_append [simp]: "how_many P (xs @ [x]) = how_many P xs + (if P x then 1 else 0)"
  by (simp add: how_many_def)

lemma how_many_nil [simp]: "how_many P [] = 0"
  by (simp add: how_many_def)

lemma how_many_update:
  "i < length xs \<Longrightarrow>
   how_many P (xs[i := y]) + (if P (xs ! i) then 1 else 0) = how_many P xs + (if P y then 1 else 0)"
  unfolding how_many_def
  by (subst (3) id_take_nth_drop, assumption) (simp add: upd_conv_take_nth_drop)

lemma how_many_pos: "i < length xs \<Longrightarrow> P (xs ! i) \<Longrightarrow> 0 < how_many P xs"
  by (auto simp: how_many_def filter_empty_conv)

text \<open>What a task holds: the permit, a running slot, a place in a queue.\<close>

fun holds :: "task \<Rightarrow> bool" where
  "holds (HoldingFast c) = True"
| "holds (Granted c rid) = True"
| "holds (GrantedRemoved c) = True"
| "holds (GrantedNotified c) = True"
| "holds (Leased user started) = True"
| "holds Releasing = True"
| "holds _ = False"

fun runs :: "task \<Rightarrow> string option" where
  "runs (Leased user started) = Some user"
| "runs _ = None"

fun place :: "task \<Rightarrow> (call \<times> u64) option" where
  "place (Announcing c rid) = Some (c, rid)"
| "place (Looping c rid d) = Some (c, rid)"
| "place (AtFront c rid d) = Some (c, rid)"
| "place (Checking c rid d) = Some (c, rid)"
| "place (Sleeping c rid d) = Some (c, rid)"
| "place (Expired c rid) = Some (c, rid)"
| "place (Granted c rid) = Some (c, rid)"
| "place (Abandoned c rid) = Some (c, rid)"
| "place _ = None"

definition place_of :: "string \<Rightarrow> task \<Rightarrow> bool" where
  "place_of u t \<longleftrightarrow> (case place t of Some (c, _) \<Rightarrow> cl_user c = u | None \<Rightarrow> False)"

lemma runs_holds: "runs t = Some u \<Longrightarrow> holds t"
  by (cases t) auto

lemma queue_simps [simp]:
  "running_by_user (set_queue class q st) = running_by_user st"
  "queued_by_user (set_queue class q st) = queued_by_user st"
  "next_id (set_queue class q st) = next_id st"
  "service_time_ms (set_queue class q st) = service_time_ms st"
  "queue_of class' (set_queue class q st) = (if class' = class then q else queue_of class' st)"
  by (auto simp: set_queue_def queue_of_def split: workload_class.splits)

lemma queue_of_update [simp]:
  "queue_of class (st\<lparr> queued_by_user := m \<rparr>) = queue_of class st"
  "queue_of class (st\<lparr> running_by_user := m \<rparr>) = queue_of class st"
  "queue_of class (st\<lparr> next_id := n \<rparr>) = queue_of class st"
  "queue_of class (st\<lparr> service_time_ms := n \<rparr>) = queue_of class st"
  by (auto simp: queue_of_def split: workload_class.splits)

lemma notify_next_simps [simp]:
  "sy_state (notify_next s) = sy_state s"
  "sy_permits (notify_next s) = sy_permits s"
  "sy_tasks (notify_next s) = sy_tasks s"
  by (auto simp: notify_next_def split: option.splits)

lemma length_remove_first [simp]: "length (remove_first rid q) \<le> length q"
  by (induction q) auto

lemma set_task_simps [simp]:
  "sy_state (set_task i t s) = sy_state s"
  "sy_permits (set_task i t s) = sy_permits s"
  "sy_notified (set_task i t s) = sy_notified s"
  "sy_tasks (set_task i t s) = (sy_tasks s)[i := t]"
  by (simp_all add: set_task_def)

text \<open>A step leaves the task list to \<open>set_task\<close>.\<close>

lemma advance_tasks: "advance cfg now i p s = Some (s', t) \<Longrightarrow> sy_tasks s' = sy_tasks s"
  by (cases p) (auto split: if_splits prod.splits bool.splits enqueue_outcome.splits)

section \<open>Capacity\<close>

text \<open>The state is exactly what the tasks hold.\<close>

definition counted :: "local_scheduler_config \<Rightarrow> system \<Rightarrow> bool" where
  "counted cfg s \<longleftrightarrow>
     sy_permits s + how_many holds (sy_tasks s) = 1
     \<and> (\<forall>u. tally (running_by_user (sy_state s)) u = how_many (\<lambda>t. runs t = Some u) (sy_tasks s))
     \<and> (\<forall>u. tally (queued_by_user (sy_state s)) u = how_many (place_of u) (sy_tasks s))"

definition bounded :: "local_scheduler_config \<Rightarrow> system \<Rightarrow> bool" where
  "bounded cfg s \<longleftrightarrow>
     (\<forall>u. tally (queued_by_user (sy_state s)) u \<le> queued_per_user cfg)
     \<and> (\<forall>class. length (queue_of class (sy_state s)) \<le> queue_limit cfg class)
     \<and> 0 < service_time_ms (sy_state s) \<and> service_time_ms (sy_state s) \<le> u64_max"

lemmas lock_section_defs = fast_admit_def enqueue_def remove_queued_def grant_def drop_lease_def Let_def

lemmas step_splits = if_splits prod.splits bool.splits enqueue_outcome.splits

text \<open>How one step changes what the lock guards, against what it changes of the task.\<close>

lemma permits_balance:
  "advance cfg now i p s = Some (s', t) \<Longrightarrow>
   sy_permits s' + of_bool (holds t) = sy_permits s + of_bool (holds p)"
  by (cases p) (auto split: step_splits)

lemma running_balance:
  "advance cfg now i p s = Some (s', t) \<Longrightarrow>
   (runs p = Some u \<longrightarrow> 0 < tally (running_by_user (sy_state s)) u) \<Longrightarrow>
   tally (running_by_user (sy_state s')) u + of_bool (runs p = Some u)
     = tally (running_by_user (sy_state s)) u + of_bool (runs t = Some u)"
  by (cases p) (auto simp: lock_section_defs split: step_splits)

lemma queued_balance:
  "advance cfg now i p s = Some (s', t) \<Longrightarrow>
   (place_of u p \<longrightarrow> 0 < tally (queued_by_user (sy_state s)) u) \<Longrightarrow>
   tally (queued_by_user (sy_state s')) u + of_bool (place_of u p)
     = tally (queued_by_user (sy_state s)) u + of_bool (place_of u t)"
  by (cases p) (simp_all add: lock_section_defs place_of_def split: step_splits, auto)

lemma counted_run:
  assumes c: "counted cfg s" and i: "i < length (sy_tasks s)"
    and step: "advance cfg now i (sy_tasks s ! i) s = Some (s', t)"
  shows "counted cfg (set_task i t s')"
proof -
  let ?p = "sy_tasks s ! i"
  have "sy_permits s' + how_many holds ((sy_tasks s)[i := t]) = 1"
    using permits_balance [OF step] how_many_update [OF i, of holds t] c
    unfolding counted_def by (auto simp: of_bool_def split: if_splits)
  moreover have "tally (running_by_user (sy_state s')) u = how_many (\<lambda>t. runs t = Some u) ((sy_tasks s)[i := t])" for u
    using running_balance [OF step, of u] how_many_update [OF i, of "\<lambda>t. runs t = Some u" t]
      how_many_pos [OF i, of "\<lambda>t. runs t = Some u"] c
    unfolding counted_def by (auto simp: of_bool_def split: if_splits)
  moreover have "tally (queued_by_user (sy_state s')) u = how_many (place_of u) ((sy_tasks s)[i := t])" for u
    using queued_balance [OF step, of u] how_many_update [OF i, of "place_of u" t]
      how_many_pos [OF i, of "place_of u"] c
    unfolding counted_def by (auto simp: of_bool_def split: if_splits)
  ultimately show ?thesis by (simp add: counted_def advance_tasks [OF step])
qed

lemma queued_bound:
  "advance cfg now i p s = Some (s', t) \<Longrightarrow> tally (queued_by_user (sy_state s)) u \<le> queued_per_user cfg \<Longrightarrow>
   tally (queued_by_user (sy_state s')) u \<le> queued_per_user cfg"
  by (cases p) (simp_all add: lock_section_defs split: step_splits, auto)

lemma queue_length_bound:
  "advance cfg now i p s = Some (s', t) \<Longrightarrow> length (queue_of class (sy_state s)) \<le> queue_limit cfg class \<Longrightarrow>
   length (queue_of class (sy_state s')) \<le> queue_limit cfg class"
  by (cases p)
    (simp_all add: lock_section_defs split: step_splits, auto intro: order_trans [OF length_remove_first])

lemma average_bound: "0 < m \<Longrightarrow> m \<le> u64_max \<Longrightarrow> 0 < e \<Longrightarrow> e \<le> u64_max \<Longrightarrow>
  0 < sat_add (sat_mul m 4) e div 5 \<and> sat_add (sat_mul m 4) e div 5 \<le> u64_max"
  by (auto simp: sat_add_def sat_mul_def u64_max_def min_def)

lemma drop_lease_service_time:
  "0 < service_time_ms st \<Longrightarrow> service_time_ms st \<le> u64_max \<Longrightarrow>
   0 < service_time_ms (drop_lease u e st) \<and> service_time_ms (drop_lease u e st) \<le> u64_max"
  using average_bound [of "service_time_ms st" "max (min e u64_max) 1"]
  by (simp add: drop_lease_def Let_def u64_max_def)

lemma service_time_bound:
  "advance cfg now i p s = Some (s', t) \<Longrightarrow>
   0 < service_time_ms (sy_state s) \<and> service_time_ms (sy_state s) \<le> u64_max \<Longrightarrow>
   0 < service_time_ms (sy_state s') \<and> service_time_ms (sy_state s') \<le> u64_max"
  by (cases p)
    (simp_all add: fast_admit_def enqueue_def remove_queued_def grant_def Let_def
      split: step_splits, auto simp: drop_lease_service_time)

lemma bounded_run:
  "bounded cfg s \<Longrightarrow> advance cfg now i p s = Some (s', t) \<Longrightarrow> bounded cfg (set_task j t s')"
  unfolding bounded_def
  using queued_bound queue_length_bound service_time_bound by simp

lemma how_many_place_cancel:
  "i < length ts \<Longrightarrow> ts ! i = Sleeping c rid d \<Longrightarrow>
   how_many holds (ts[i := Abandoned c rid]) = how_many holds ts
   \<and> how_many (\<lambda>t. runs t = Some u) (ts[i := Abandoned c rid]) = how_many (\<lambda>t. runs t = Some u) ts
   \<and> how_many (place_of u) (ts[i := Abandoned c rid]) = how_many (place_of u) ts"
  using how_many_update [of i ts holds "Abandoned c rid"]
    how_many_update [of i ts "\<lambda>t. runs t = Some u" "Abandoned c rid"]
    how_many_update [of i ts "place_of u" "Abandoned c rid"]
  by (simp add: place_of_def split: if_splits)

inductive_cases sched_stepE [consumes 1, case_names arrive run cancel]: "sched_step cfg s t"

definition capacity :: "local_scheduler_config \<Rightarrow> system \<Rightarrow> bool" where
  "capacity cfg s \<longleftrightarrow> counted cfg s \<and> bounded cfg s"

interpretation capacity: inductive_invariant sched_init "sched_step cfg" "capacity cfg" for cfg
proof
  show "capacity cfg s" if "sched_init s" for s
    using that by (auto simp: sched_init_def capacity_def counted_def bounded_def new_scheduler_def queue_of_def
        u64_max_def split: workload_class.splits)
  show "capacity cfg t" if inv: "capacity cfg s" and step: "sched_step cfg s t" for s t
    using step
  proof (cases rule: sched_stepE)
    case (arrive c)
    with inv show ?thesis by (auto simp: capacity_def counted_def bounded_def place_of_def)
  next
    case (run i now s' p)
    with inv show ?thesis by (auto simp: capacity_def intro: counted_run bounded_run)
  next
    case (cancel i c rid d)
    with inv show ?thesis by (auto simp: capacity_def counted_def bounded_def how_many_place_cancel)
  qed
qed

section \<open>Queues and the tasks in them\<close>

lemma remove_first_distinct:
  "distinct (map qr_id q) \<Longrightarrow> set (remove_first rid q) = {r \<in> set q. qr_id r \<noteq> rid}"
  "distinct (map qr_id q) \<Longrightarrow> distinct (map qr_id (remove_first rid q))"
proof (induction q)
  case (Cons r q)
  { case 1 with Cons show ?case by (auto simp: image_iff) next
    case 2 with Cons show ?case by (auto split: if_splits) }
qed simp_all

text \<open>A step appends one request, removes one request, or leaves the queues and the task's place alone.\<close>

lemma queue_effect:
  assumes "advance cfg now i p s = Some (s', t)"
  obtains (same) "\<forall>class. queue_of class (sy_state s') = queue_of class (sy_state s)"
      "next_id (sy_state s') = next_id (sy_state s)" "place t = place p"
  | (append) c r where "p = Queueing c" "t = Announcing c (qr_id r)" "qr_id r = sat_add (next_id (sy_state s)) 1"
      "next_id (sy_state s') = qr_id r" "qr_notify r = i"
      "\<forall>class. queue_of class (sy_state s') =
         (if class = cl_class c then queue_of class (sy_state s) @ [r] else queue_of class (sy_state s))"
  | (remove) c rid where "place p = Some (c, rid)" "place t = None" "next_id (sy_state s') = next_id (sy_state s)"
      "\<forall>class. queue_of class (sy_state s') =
         (if class = cl_class c then remove_first rid (queue_of class (sy_state s)) else queue_of class (sy_state s))"
proof (cases p)
  case (Queueing c)
  show ?thesis
  proof (cases "\<exists>st rid. enqueue cfg now i c (sy_state s) = (st, Queued rid)")
    case True
    let ?r = "\<lparr> qr_id = sat_add (next_id (sy_state s)) 1, qr_enqueued = now, qr_notify = i \<rparr>"
    show ?thesis
      using assms Queueing True by (intro append [of c ?r]) (auto simp: enqueue_def Let_def split: if_splits)
  next
    case False
    then show ?thesis
      using assms Queueing by (intro same) (auto simp: enqueue_def Let_def split: if_splits)
  qed
next
  case (Expired c rid)
  then show ?thesis using assms by (intro remove [of c rid]) (auto simp: remove_queued_def)
next
  case (Granted c rid)
  then show ?thesis using assms by (intro remove [of c rid]) (auto simp: remove_queued_def)
qed (use assms in \<open>auto intro!: same simp: fast_admit_def grant_def drop_lease_def Let_def split: step_splits\<close>)

definition has_place :: "system \<Rightarrow> nat \<Rightarrow> workload_class \<Rightarrow> u64 \<Rightarrow> bool" where
  "has_place s i class rid \<longleftrightarrow>
     i < length (sy_tasks s) \<and> (\<exists>c. place (sy_tasks s ! i) = Some (c, rid) \<and> cl_class c = class)"

text \<open>
  The queues hold exactly the requests of the tasks that have a place, under distinct numbers, as
  long as the number has not reached the end of its type.
\<close>

definition register ::
  "u64 \<Rightarrow> (workload_class \<Rightarrow> queued_request list) \<Rightarrow> (nat \<Rightarrow> workload_class \<Rightarrow> u64 \<Rightarrow> bool) \<Rightarrow> bool" where
  "register n q placed \<longleftrightarrow>
     (\<forall>i class rid. (\<exists>r \<in> set (q class). qr_notify r = i \<and> qr_id r = rid) = placed i class rid)
     \<and> (\<forall>i class rid. placed i class rid \<longrightarrow> rid \<le> n)
     \<and> (\<forall>i j class class' rid. placed i class rid \<longrightarrow> placed j class' rid \<longrightarrow> i = j)
     \<and> (\<forall>class. distinct (map qr_id (q class)))"

definition registered :: "system \<Rightarrow> bool" where
  "registered s \<longleftrightarrow> next_id (sy_state s) < u64_max \<longrightarrow>
     register (next_id (sy_state s)) (\<lambda>class. queue_of class (sy_state s)) (has_place s)"

lemma registerD:
  assumes "register n q placed"
  shows "(\<exists>r \<in> set (q k). qr_notify r = i \<and> qr_id r = rid) = placed i k rid"
    and "placed i k rid \<Longrightarrow> rid \<le> n"
    and "placed i k rid \<Longrightarrow> placed j k' rid \<Longrightarrow> i = j"
    and "distinct (map qr_id (q k))"
  using assms unfolding register_def by blast+

lemma registerI:
  assumes "\<And>k i rid. (\<exists>r \<in> set (q k). qr_notify r = i \<and> qr_id r = rid) = placed i k rid"
    and "\<And>k i rid. placed i k rid \<Longrightarrow> rid \<le> n"
    and "\<And>k k' i j rid. placed i k rid \<Longrightarrow> placed j k' rid \<Longrightarrow> i = j"
    and "\<And>k. distinct (map qr_id (q k))"
  shows "register n q placed"
  using assms unfolding register_def by blast

lemma register_append:
  assumes reg: "register n q placed" and new: "qr_id r = n + 1" and free: "\<And>k rid. \<not> placed (qr_notify r) k rid"
  shows "register (n + 1) (\<lambda>k'. if k' = k then q k' @ [r] else q k')
     (\<lambda>j k' rid. if j = qr_notify r then k = k' \<and> rid = qr_id r else placed j k' rid)"
proof (rule registerI)
  show "(\<exists>x \<in> set (if k' = k then q k' @ [r] else q k'). qr_notify x = i \<and> qr_id x = rid) =
      (if i = qr_notify r then k = k' \<and> rid = qr_id r else placed i k' rid)" for k' i rid
    using registerD(1) [OF reg, of k' i rid] free [of k' rid] by auto
  show "rid \<le> n + 1" if "if i = qr_notify r then k = k' \<and> rid = qr_id r else placed i k' rid" for k' i rid
    using that registerD(2) [OF reg, of i k' rid] new by (auto split: if_splits)
  show "i = j" if "if i = qr_notify r then k = k' \<and> rid = qr_id r else placed i k' rid"
    "if j = qr_notify r then k = k'' \<and> rid = qr_id r else placed j k'' rid" for k' k'' i j rid
    using that new registerD(2) [OF reg, of i k' rid] registerD(2) [OF reg, of j k'' rid]
      registerD(3) [OF reg, of i k' rid j k''] by (auto split: if_splits)
  have "qr_id x \<noteq> n + 1" if "x \<in> set (q k')" for x k'
  proof -
    have "placed (qr_notify x) k' (qr_id x)" using registerD(1) [OF reg, of k' "qr_notify x" "qr_id x"] that by blast
    then show ?thesis using registerD(2) [OF reg] by fastforce
  qed
  then have "qr_id r \<notin> qr_id ` set (q k')" for k' using new by (metis imageE)
  then show "distinct (map qr_id (if k' = k then q k' @ [r] else q k'))" for k'
    using registerD(4) [OF reg] by simp
qed

lemma register_remove:
  assumes reg: "register n q placed" and mine: "placed i k rid"
    and only: "\<And>k' r. placed i k' r \<Longrightarrow> k' = k \<and> r = rid"
  shows "register n (\<lambda>k'. if k' = k then remove_first rid (q k') else q k') (\<lambda>j k' r. j \<noteq> i \<and> placed j k' r)"
proof (rule registerI)
  show "(\<exists>x \<in> set (if k' = k then remove_first rid (q k') else q k'). qr_notify x = j \<and> qr_id x = r) =
      (j \<noteq> i \<and> placed j k' r)" for k' j r
  proof -
    have "(\<exists>x \<in> set (if k' = k then remove_first rid (q k') else q k'). qr_notify x = j \<and> qr_id x = r) =
        ((\<exists>x \<in> set (q k'). qr_notify x = j \<and> qr_id x = r) \<and> \<not> (k' = k \<and> r = rid))"
      by (auto simp: remove_first_distinct(1) [OF registerD(4) [OF reg]])
    moreover have "placed j k' r \<Longrightarrow> (k' = k \<and> r = rid) = (j = i)"
      using registerD(3) [OF reg mine] only by blast
    ultimately show ?thesis unfolding registerD(1) [OF reg] by blast
  qed
  show "r \<le> n" if "j \<noteq> i \<and> placed j k' r" for k' j r
    using that registerD(2) [OF reg] by blast
  show "j = l" if "j \<noteq> i \<and> placed j k' r" "l \<noteq> i \<and> placed l k'' r" for k' k'' j l r
    using that registerD(3) [OF reg] by blast
  show "distinct (map qr_id (if k' = k then remove_first rid (q k') else q k'))" for k'
    using registerD(4) [OF reg, of k'] remove_first_distinct(2) by auto
qed

lemma has_place_update:
  "i < length (sy_tasks s) \<Longrightarrow> sy_tasks s' = sy_tasks s \<Longrightarrow>
   has_place (set_task i t s') j class rid =
     (if j = i then (\<exists>c. place t = Some (c, rid) \<and> cl_class c = class) else has_place s j class rid)"
  by (auto simp: has_place_def)

lemma registered_run:
  assumes reg: "registered s" and i: "i < length (sy_tasks s)"
    and step: "advance cfg now i (sy_tasks s ! i) s = Some (s', t)"
  shows "registered (set_task i t s')"
proof -
  note hp = has_place_update [OF i advance_tasks [OF step], of t]
  from step show ?thesis
  proof (cases rule: queue_effect)
    case same
    then have "has_place (set_task i t s') = has_place s"
      using i by (intro ext) (auto simp: hp, auto simp: has_place_def)
    with reg same show ?thesis by (simp add: registered_def)
  next
    case (append c r)
    have e: "has_place (set_task i t s') =
        (\<lambda>j class rid. if j = qr_notify r then cl_class c = class \<and> rid = qr_id r else has_place s j class rid)"
      unfolding fun_eq_iff hp using append(2,5) by auto
    have "\<not> has_place s (qr_notify r) k rid" for k rid using append i by (simp add: has_place_def)
    then have "register (next_id (sy_state s) + 1)
        (\<lambda>k. if k = cl_class c then queue_of k (sy_state s) @ [r] else queue_of k (sy_state s))
        (has_place (set_task i t s'))" if "next_id (sy_state s') < u64_max"
      unfolding e using that append(3,4) reg by (intro register_append) (auto simp: sat_add_def registered_def)
    then show ?thesis
      using append(3,4) unfolding registered_def set_task_simps append(6) [rule_format] by (auto simp: sat_add_def)
  next
    case (remove c rid)
    have e: "has_place (set_task i t s') = (\<lambda>j class k. j \<noteq> i \<and> has_place s j class k)"
      unfolding fun_eq_iff hp using remove(2) by auto
    have "register (next_id (sy_state s))
        (\<lambda>k. if k = cl_class c then remove_first rid (queue_of k (sy_state s)) else queue_of k (sy_state s))
        (has_place (set_task i t s'))" if "next_id (sy_state s) < u64_max"
      unfolding e
    proof (rule register_remove)
      show "register (next_id (sy_state s)) (\<lambda>k. queue_of k (sy_state s)) (has_place s)"
        using reg that by (simp add: registered_def)
    qed (use remove(1) i in \<open>auto simp: has_place_def\<close>)
    then show ?thesis unfolding registered_def set_task_simps remove(3) remove(4) [rule_format] by blast
  qed
qed

section \<open>No wake-up is lost\<close>

text \<open>
  A task that will call \<open>notify_next\<close> as its next step, and a head of the queue that is on its way
  to look at the permit, or to leave the queue, without being woken.
\<close>

fun will_notify :: "task \<Rightarrow> bool" where
  "will_notify (Announcing c rid) = True"
| "will_notify (ExpiredRemoved c) = True"
| "will_notify (GrantedRemoved c) = True"
| "will_notify Released = True"
| "will_notify _ = False"

fun is_awake :: "task \<Rightarrow> bool" where
  "is_awake (Looping c rid d) = True"
| "is_awake (AtFront c rid d) = True"
| "is_awake (Expired c rid) = True"
| "is_awake _ = False"

fun is_abandoned :: "task \<Rightarrow> bool" where
  "is_abandoned (Abandoned c rid) = True"
| "is_abandoned _ = False"

definition head_attended :: "system \<Rightarrow> bool" where
  "head_attended s \<longleftrightarrow>
     (case front_request (sy_state s) of
        None \<Rightarrow> True
      | Some r \<Rightarrow> sy_permits s = 0
          \<or> qr_notify r \<in> set (sy_notified s)
          \<or> is_awake (sy_tasks s ! qr_notify r)
          \<or> is_abandoned (sy_tasks s ! qr_notify r)
          \<or> list_ex will_notify (sy_tasks s))"

lemma queue_of_class [simp]: "queue_of Interactive st = interactive st" "queue_of Batch st = batch st"
  by (simp_all add: queue_of_def)

lemma front_request_queue:
  "\<forall>k. queue_of k st' = queue_of k st \<Longrightarrow> front_request st' = front_request st"
  using queue_of_class unfolding front_request_def by metis

lemma front_requestE:
  assumes "front_request st = Some r"
  obtains k where "r \<in> set (queue_of k st)"
    "\<And>cfg u. tally (running_by_user st) u < executing_per_user cfg \<Longrightarrow> is_front cfg (qr_id r) k u st"
proof (cases "interactive st")
  case Nil
  with assms show ?thesis
    by (intro that [of Batch]) (auto simp: front_request_def is_front_def front_is_def split: list.splits)
next
  case Cons
  with assms show ?thesis
    by (intro that [of Interactive]) (auto simp: front_request_def is_front_def front_is_def)
qed

text \<open>The head of the queue belongs to a task with that place, which is at the front.\<close>

lemma head_task:
  assumes "registered s" "next_id (sy_state s) < u64_max" "front_request (sy_state s) = Some r"
  obtains c where "qr_notify r < length (sy_tasks s)" "place (sy_tasks s ! qr_notify r) = Some (c, qr_id r)"
    "\<And>cfg u. tally (running_by_user (sy_state s)) u < executing_per_user cfg \<Longrightarrow>
       is_front cfg (qr_id r) (cl_class c) u (sy_state s)"
proof -
  obtain k where k: "r \<in> set (queue_of k (sy_state s))"
    "\<And>cfg u. tally (running_by_user (sy_state s)) u < executing_per_user cfg \<Longrightarrow>
       is_front cfg (qr_id r) k u (sy_state s)"
    using front_requestE [OF assms(3)] by metis
  have "register (next_id (sy_state s)) (\<lambda>k. queue_of k (sy_state s)) (has_place s)"
    using assms(1,2) by (simp add: registered_def)
  from registerD(1) [OF this, of k "qr_notify r" "qr_id r"] k(1) have "has_place s (qr_notify r) k (qr_id r)" by blast
  with k(2) show ?thesis by (auto simp: has_place_def intro: that)
qed

text \<open>While the permit is free nobody runs, so the fast path never gives its permit back.\<close>

lemma how_many_split: "(\<And>x. P x \<Longrightarrow> Q x) \<Longrightarrow> how_many P xs + how_many (\<lambda>x. Q x \<and> \<not> P x) xs = how_many Q xs"
  unfolding how_many_def by (induction xs) auto

lemma permit_free_idle:
  assumes "counted cfg s" "0 < sy_permits s"
  shows "tally (running_by_user (sy_state s)) u = 0"
  using assms how_many_split [of "\<lambda>t. runs t = Some u" holds "sy_tasks s"] runs_holds
  by (auto simp: counted_def)

lemma fast_path_admits:
  assumes "counted cfg s" "1 \<le> executing_per_user cfg" "i < length (sy_tasks s)" "sy_tasks s ! i = HoldingFast c"
  shows "snd (fast_admit cfg (cl_user c) (sy_state s))"
proof -
  let ?r = "\<lambda>t. runs t = Some (cl_user c)"
  have "0 < how_many (\<lambda>t. holds t \<and> \<not> ?r t) (sy_tasks s)"
    using how_many_pos [OF assms(3), of "\<lambda>t. holds t \<and> \<not> ?r t"] assms(4) by simp
  with how_many_split [of ?r holds "sy_tasks s"] runs_holds assms show ?thesis
    by (auto simp: counted_def fast_admit_def Let_def)
qed

lemma next_id_mono: "advance cfg now i p s = Some (s', t) \<Longrightarrow> next_id (sy_state s') < u64_max \<Longrightarrow> next_id (sy_state s) < u64_max"
  by (erule queue_effect) (auto simp: sat_add_def split: if_splits)

lemma quiet_step:
  assumes "advance cfg now i p s = Some (s', t)" "\<not> will_notify t"
  shows "(\<forall>k. queue_of k (sy_state s') = queue_of k (sy_state s)) \<and> place t = place p"
  using assms(1)
proof (cases rule: queue_effect)
  case (remove c rid)
  with assms show ?thesis by (cases p) (auto split: step_splits)
qed (use assms in auto)

lemma notifying_step: "advance cfg now i p s = Some (s', t) \<Longrightarrow> will_notify p \<Longrightarrow> s' = notify_next s"
  by (cases p) auto

lemma notified_step:
  "advance cfg now i p s = Some (s', t) \<Longrightarrow> j \<in> set (sy_notified s) \<Longrightarrow> \<not> is_awake t \<or> j \<noteq> i \<Longrightarrow>
   j \<in> set (sy_notified s')"
  by (cases p) (auto simp: notify_next_def split: step_splits option.splits)

lemma permits_step:
  assumes "counted cfg s" "1 \<le> executing_per_user cfg" "i < length (sy_tasks s)"
    "advance cfg now i (sy_tasks s ! i) s = Some (s', t)" "\<not> will_notify t" "sy_permits s = 0"
  shows "sy_permits s' = 0"
  using assms fast_path_admits [OF assms(1-3)]
  by (cases "sy_tasks s ! i") (auto split: step_splits)

text \<open>An awake head keeps awake, takes the permit, or finds it taken.\<close>

lemma awake_step:
  assumes "counted cfg s" "advance cfg now i p s = Some (s', t)" "is_awake p" "\<not> will_notify t"
    "place p = Some (c, rid)"
    "tally (running_by_user (sy_state s)) (cl_user c) = 0 \<Longrightarrow> is_front cfg rid (cl_class c) (cl_user c) (sy_state s)"
  shows "is_awake t \<or> sy_permits s' = 0"
  using assms permit_free_idle [OF assms(1)]
  by (cases p) (auto simp: counted_def split: step_splits)

lemma list_ex_update_keep: "list_ex P xs \<Longrightarrow> \<not> P (xs ! i) \<Longrightarrow> list_ex P (xs[i := y])"
  by (metis length_list_update list_ex_length nth_list_update_neq)

lemma attended_quiet:
  assumes cap: "counted cfg s" and reg: "registered s" and exec: "1 \<le> executing_per_user cfg"
    and n: "next_id (sy_state s) < u64_max" and att: "head_attended s" and i: "i < length (sy_tasks s)"
    and step: "advance cfg now i (sy_tasks s ! i) s = Some (s', t)"
    and quiet: "\<not> will_notify t" "\<not> will_notify (sy_tasks s ! i)"
    and r: "front_request (sy_state s) = Some r"
  shows "sy_permits s' = 0 \<or> qr_notify r \<in> set (sy_notified s')
    \<or> is_awake ((sy_tasks s)[i := t] ! qr_notify r) \<or> is_abandoned ((sy_tasks s)[i := t] ! qr_notify r)
    \<or> list_ex will_notify ((sy_tasks s)[i := t])"
proof -
  obtain c where c: "qr_notify r < length (sy_tasks s)" "place (sy_tasks s ! qr_notify r) = Some (c, qr_id r)"
    "tally (running_by_user (sy_state s)) (cl_user c) < executing_per_user cfg \<Longrightarrow>
       is_front cfg (qr_id r) (cl_class c) (cl_user c) (sy_state s)"
    using head_task [OF reg n r] by metis
  consider "sy_permits s = 0" | "qr_notify r \<in> set (sy_notified s)" | "is_awake (sy_tasks s ! qr_notify r)"
    | "is_abandoned (sy_tasks s ! qr_notify r)" | "list_ex will_notify (sy_tasks s)"
    using att r by (auto simp: head_attended_def)
  then show ?thesis
  proof cases
    case 1 then show ?thesis using permits_step [OF cap exec i step quiet(1)] by simp
  next
    case 2 then show ?thesis using notified_step [OF step 2] c(1) by (cases "qr_notify r = i") auto
  next
    case 3 then show ?thesis using awake_step [OF cap step _ quiet(1), of c "qr_id r"] c exec
      by (cases "qr_notify r = i") auto
  next
    case 4 then show ?thesis using step by (cases "qr_notify r = i"; cases "sy_tasks s ! qr_notify r") auto
  next
    case 5 then show ?thesis using quiet(2) by (simp add: list_ex_update_keep)
  qed
qed

lemma attended_run:
  assumes cap: "counted cfg s" and reg: "registered s" and exec: "1 \<le> executing_per_user cfg"
    and n: "next_id (sy_state s') < u64_max" and att: "head_attended s" and i: "i < length (sy_tasks s)"
    and step: "advance cfg now i (sy_tasks s ! i) s = Some (s', t)"
  shows "head_attended (set_task i t s')"
proof -
  note ts = advance_tasks [OF step]
  consider (t) "will_notify t" | (p) "will_notify (sy_tasks s ! i)" | (quiet) "\<not> will_notify t" "\<not> will_notify (sy_tasks s ! i)"
    by blast
  then show ?thesis
  proof cases
    case t
    then have "list_ex will_notify ((sy_tasks s')[i := t])" using i ts by (auto simp: list_ex_iff set_update_memI)
    then show ?thesis by (simp add: head_attended_def split: option.splits)
  next
    case p
    then show ?thesis using notifying_step [OF step p]
      by (auto simp: head_attended_def notify_next_def split: option.splits)
  next
    case quiet
    then have "front_request (sy_state s') = front_request (sy_state s)"
      using quiet_step [OF step] by (intro front_request_queue) simp
    then show ?thesis
      using attended_quiet [OF cap reg exec next_id_mono [OF step n] att i step quiet]
      by (simp add: head_attended_def ts split: option.splits)
  qed
qed

text \<open>Everything that holds of a reachable system; the part on numbers while they last.\<close>

definition sound :: "local_scheduler_config \<Rightarrow> system \<Rightarrow> bool" where
  "sound cfg s \<longleftrightarrow> capacity cfg s \<and> registered s
     \<and> (1 \<le> executing_per_user cfg \<and> next_id (sy_state s) < u64_max \<longrightarrow> head_attended s)"

lemma sound_init: "sched_init s \<Longrightarrow> sound cfg s"
  using capacity.inv_init
  by (auto simp: sound_def sched_init_def registered_def register_def has_place_def head_attended_def
      new_scheduler_def front_request_def queue_of_def split: workload_class.splits)

lemma sound_arrive:
  assumes "sound cfg s" shows "sound cfg (s\<lparr> sy_tasks := sy_tasks s @ [Entering c] \<rparr>)"
proof -
  let ?t = "s\<lparr> sy_tasks := sy_tasks s @ [Entering c] \<rparr>"
  have hp: "has_place ?t = has_place s" by (auto simp: has_place_def fun_eq_iff nth_append less_Suc_eq)
  have "head_attended ?t" if n: "next_id (sy_state s) < u64_max" and att: "head_attended s"
  proof (cases "front_request (sy_state s)")
    case (Some r)
    then obtain c where "qr_notify r < length (sy_tasks s)"
      using head_task [of s r] assms n by (auto simp: sound_def)
    then show ?thesis using att Some by (auto simp: head_attended_def nth_append)
  qed (simp add: head_attended_def)
  then show ?thesis
    using assms capacity.inv_step [OF _ arrive] by (simp add: sound_def registered_def hp)
qed

lemma sound_cancel:
  assumes inv: "sound cfg s" and i: "i < length (sy_tasks s)" "sy_tasks s ! i = Sleeping c rid d"
  shows "sound cfg (set_task i (Abandoned c rid) s)"
proof -
  have hp: "has_place (set_task i (Abandoned c rid) s) = has_place s"
    unfolding fun_eq_iff has_place_update [OF i(1) refl] using i by (auto simp: has_place_def)
  have "head_attended (set_task i (Abandoned c rid) s)" if "head_attended s"
  proof -
    have "list_ex will_notify ((sy_tasks s)[i := Abandoned c rid])" if "list_ex will_notify (sy_tasks s)"
      using that i(2) by (simp add: list_ex_update_keep)
    then show ?thesis using that i
      by (auto simp: head_attended_def nth_list_update split: option.splits)
  qed
  then show ?thesis
    using assms capacity.inv_step [OF _ cancel [OF i]] by (simp add: sound_def registered_def hp)
qed

interpretation sched: inductive_invariant sched_init "sched_step cfg" "sound cfg" for cfg
proof
  show "sound cfg t" if inv: "sound cfg s" and step: "sched_step cfg s t" for s t
    using step
  proof (cases rule: sched_stepE)
    case (run i now s' p)
    then have "capacity cfg t" using inv step capacity.inv_step by (auto simp: sound_def)
    with run inv show ?thesis
      using registered_run [of s i cfg now s' p] attended_run [of cfg s s' i now p] next_id_mono [of cfg now i _ s s' p]
      by (auto simp: sound_def capacity_def)
  qed (use inv in \<open>auto intro: sound_arrive sound_cancel\<close>)
qed (rule sound_init)

section \<open>Progress\<close>

text \<open>Steps of tasks already in the system, while the clock stands at \<open>now\<close>.\<close>

definition moves :: "local_scheduler_config \<Rightarrow> nat \<Rightarrow> system \<Rightarrow> system \<Rightarrow> bool" where
  "moves cfg now s t \<longleftrightarrow>
     (\<exists>i s' p. i < length (sy_tasks s) \<and> advance cfg now i (sy_tasks s ! i) s = Some (s', p) \<and> t = set_task i p s')"

fun is_granted :: "task \<Rightarrow> bool" where
  "is_granted (Granted c rid) = True"
| "is_granted _ = False"

definition waiting :: "system \<Rightarrow> nat" where
  "waiting s = length (interactive (sy_state s)) + length (batch (sy_state s))"

definition ready :: "local_scheduler_config \<Rightarrow> system \<Rightarrow> bool" where
  "ready cfg s \<longleftrightarrow> sound cfg s \<and> 1 \<le> executing_per_user cfg \<and> next_id (sy_state s) < u64_max \<and> sy_permits s = 1
     \<and> \<not> list_ex is_abandoned (sy_tasks s)"

lemma moves_sched_step: "moves cfg now s t \<Longrightarrow> sched_step cfg s t"
  by (auto simp: moves_def intro: sched_step.run)

lemma moveI:
  "i < length (sy_tasks s) \<Longrightarrow> advance cfg now i (sy_tasks s ! i) s = Some (s', p) \<Longrightarrow> moves cfg now s (set_task i p s')"
  by (auto simp: moves_def)

lemma never_abandons: "advance cfg now i p s = Some (s', t) \<Longrightarrow> \<not> is_abandoned t"
  by (cases p) (auto split: step_splits)

lemma ready_move:
  assumes "ready cfg s" "moves cfg now s t" "sy_permits t = 1" "next_id (sy_state t) < u64_max"
  shows "ready cfg t"
proof -
  have "sound cfg t" using assms sched.inv_step moves_sched_step by (auto simp: ready_def)
  moreover from assms(2) obtain i s' p where
    m: "advance cfg now i (sy_tasks s ! i) s = Some (s', p)" "t = set_task i p s'" by (auto simp: moves_def)
  have "\<not> list_ex is_abandoned (sy_tasks t)"
    using assms(1) never_abandons [OF m(1)] m(2) set_update_subset_insert [of "sy_tasks s" i p]
    by (auto simp: ready_def list_ex_iff advance_tasks [OF m(1)])
  ultimately show ?thesis using assms by (simp add: ready_def)
qed

lemma ready_facts:
  assumes "ready cfg s" "front_request (sy_state s) = Some r"
  obtains c where "qr_notify r < length (sy_tasks s)" "place (sy_tasks s ! qr_notify r) = Some (c, qr_id r)"
    "is_front cfg (qr_id r) (cl_class c) (cl_user c) (sy_state s)" "\<not> holds (sy_tasks s ! qr_notify r)"
    "\<not> is_abandoned (sy_tasks s ! qr_notify r)"
proof -
  have s: "registered s" "next_id (sy_state s) < u64_max" "counted cfg s" "sy_permits s = 1" "1 \<le> executing_per_user cfg"
    using assms(1) by (auto simp: ready_def sound_def capacity_def)
  from head_task [OF s(1,2) assms(2)] obtain c where
    c: "qr_notify r < length (sy_tasks s)" "place (sy_tasks s ! qr_notify r) = Some (c, qr_id r)"
    "tally (running_by_user (sy_state s)) (cl_user c) < executing_per_user cfg \<Longrightarrow>
       is_front cfg (qr_id r) (cl_class c) (cl_user c) (sy_state s)" by metis
  show ?thesis
    using that [OF c(1,2)] c(3) permit_free_idle [OF s(3)] s(3-5) how_many_pos [OF c(1), of holds] c(1) assms(1)
    by (auto simp: ready_def counted_def list_ex_length)
qed

text \<open>From the front of the queue to the permit, and out of the queue when the wait is over.\<close>

lemma awake_front_granted:
  assumes "ready cfg s" "front_request (sy_state s) = Some r"
    "sy_tasks s ! qr_notify r = Looping c rid d \<or> sy_tasks s ! qr_notify r = AtFront c rid d"
  shows "\<exists>t. (moves cfg now)\<^sup>*\<^sup>* s t \<and> list_ex is_granted (sy_tasks t)"
proof -
  let ?i = "qr_notify r" and ?at = "\<lambda>s. set_task (qr_notify r) (AtFront c rid d) s"
  obtain c' where i: "?i < length (sy_tasks s)" and c': "place (sy_tasks s ! ?i) = Some (c', qr_id r)"
    "is_front cfg (qr_id r) (cl_class c') (cl_user c') (sy_state s)"
    using ready_facts [OF assms(1,2)] .
  have fr: "is_front cfg rid (cl_class c) (cl_user c) (sy_state s)" using c' assms(3) by auto
  have p: "sy_permits s = 1" using assms(1) by (simp add: ready_def)
  have one: "(moves cfg now)\<^sup>*\<^sup>* s (?at s)"
    using assms(3)
  proof
    assume "sy_tasks s ! ?i = AtFront c rid d"
    then have "?at s = s" by (metis list_update_id set_task_def system.surjective system.update_convs(4))
    then show ?thesis by simp
  next
    assume "sy_tasks s ! ?i = Looping c rid d"
    then have "moves cfg now s (?at s)" using i fr by (intro moveI) simp_all
    then show ?thesis by simp
  qed
  have "moves cfg now (?at s) (set_task ?i (Granted c rid) ((?at s)\<lparr> sy_permits := 0 \<rparr>))"
    by (rule moveI) (use i p in simp_all)
  with one have "(moves cfg now)\<^sup>*\<^sup>* s (set_task ?i (Granted c rid) ((?at s)\<lparr> sy_permits := 0 \<rparr>))"
    by (rule rtranclp.rtrancl_into_rtrancl)
  moreover have "list_ex is_granted (sy_tasks (set_task ?i (Granted c rid) ((?at s)\<lparr> sy_permits := 0 \<rparr>)))"
    using i by (auto simp: list_ex_iff intro!: bexI [of _ "Granted c rid"] set_update_memI)
  ultimately show ?thesis by blast
qed

lemma remove_first_shorter: "r \<in> set q \<Longrightarrow> length (remove_first (qr_id r) q) < length q"
  by (induction q) auto

lemma expired_leaves:
  assumes "ready cfg s" "i < length (sy_tasks s)" "sy_tasks s ! i = Expired c rid"
  shows "\<exists>t. moves cfg now s t \<and> ready cfg t \<and> waiting t < waiting s"
proof -
  let ?s = "s\<lparr> sy_state := remove_queued rid (cl_class c) (cl_user c) (sy_state s) \<rparr>"
  let ?t = "set_task i (ExpiredRemoved c) ?s"
  have m: "moves cfg now s ?t" using assms by (intro moveI) simp_all
  have "register (next_id (sy_state s)) (\<lambda>k. queue_of k (sy_state s)) (has_place s)"
    using assms(1) by (simp add: ready_def sound_def registered_def)
  from registerD(1) [OF this, of "cl_class c" i rid] assms(2,3)
  obtain x where "x \<in> set (queue_of (cl_class c) (sy_state s))" "qr_id x = rid" by (auto simp: has_place_def)
  then have "waiting ?t < waiting s"
    using remove_first_shorter [of x]
    by (cases "cl_class c") (auto simp: waiting_def remove_queued_def set_queue_def)
  moreover have "ready cfg ?t" using assms(1) m by (rule ready_move) (use assms(1) in \<open>auto simp: ready_def remove_queued_def\<close>)
  ultimately show ?thesis using m by blast
qed

definition advances :: "local_scheduler_config \<Rightarrow> nat \<Rightarrow> system \<Rightarrow> bool" where
  "advances cfg now s \<longleftrightarrow> (\<exists>t. (moves cfg now)\<^sup>*\<^sup>* s t
     \<and> (list_ex is_granted (sy_tasks t) \<or> ready cfg t \<and> waiting t < waiting s))"

lemma advances_step: "moves cfg now s t \<Longrightarrow> waiting t = waiting s \<Longrightarrow> advances cfg now t \<Longrightarrow> advances cfg now s"
  unfolding advances_def by (metis converse_rtranclp_into_rtranclp)

lemma front_request_notify [simp]: "front_request (sy_state (notify_next s)) = front_request (sy_state s)"
  by simp

lemma woken_head_advances:
  assumes s: "ready cfg s" and r: "front_request (sy_state s) = Some r"
    and woken: "qr_notify r \<in> set (sy_notified s) \<or> is_awake (sy_tasks s ! qr_notify r) \<or> will_notify (sy_tasks s ! qr_notify r)"
  shows "advances cfg now s"
proof -
  let ?i = "qr_notify r"
  obtain c where i: "?i < length (sy_tasks s)" and c: "place (sy_tasks s ! ?i) = Some (c, qr_id r)"
    "\<not> holds (sy_tasks s ! ?i)" "\<not> is_abandoned (sy_tasks s ! ?i)"
    using ready_facts [OF s r] .
  have n: "next_id (sy_state s) < u64_max" and p: "sy_permits s = 1" using s by (auto simp: ready_def)
  have loop: "advances cfg now x"
    if "ready cfg x" "front_request (sy_state x) = Some r" "sy_tasks x ! ?i = Looping c (qr_id r) d \<or> sy_tasks x ! ?i = AtFront c (qr_id r) d" for x d
    using awake_front_granted [OF that] unfolding advances_def by blast
  have gone: "advances cfg now x" if "ready cfg x" "?i < length (sy_tasks x)" "sy_tasks x ! ?i = Expired c (qr_id r)" for x
    using expired_leaves [OF that] unfolding advances_def by blast
  have sleep: "advances cfg now x"
    if x: "ready cfg x" "front_request (sy_state x) = Some r" "?i < length (sy_tasks x)"
      "sy_tasks x ! ?i = Sleeping c (qr_id r) d" "?i \<in> set (sy_notified x)" for x d
  proof -
    let ?y = "set_task ?i (Looping c (qr_id r) d) (x\<lparr> sy_notified := removeAll ?i (sy_notified x) \<rparr>)"
    have m: "moves cfg now x ?y" using x by (intro moveI) simp_all
    have "ready cfg ?y" using x(1) m by (rule ready_move) (use x(1) in \<open>auto simp: ready_def\<close>)
    then show ?thesis using x by (intro advances_step [OF m] loop [of _ d]) (simp_all add: waiting_def)
  qed
  show ?thesis
  proof (cases "sy_tasks s ! ?i")
    case (Announcing c' rid)
    let ?y = "set_task ?i (Looping c' rid (now + wait_for cfg c')) (notify_next s)"
    have m: "moves cfg now s ?y" using i Announcing by (intro moveI) simp_all
    have "ready cfg ?y" using s m by (rule ready_move) (use n p in simp_all)
    then show ?thesis using i c Announcing r by (intro advances_step [OF m] loop) (simp_all add: waiting_def)
  next
    case (Checking c' rid d)
    let ?y = "set_task ?i (if now \<ge> d then Expired c' rid else Sleeping c' rid d) s"
    have m: "moves cfg now s ?y" using i Checking by (intro moveI) simp_all
    have y: "ready cfg ?y" using s m by (rule ready_move) (use n p in simp_all)
    show ?thesis
      using y i c Checking r woken gone [of ?y] sleep [of ?y d]
      by (intro advances_step [OF m]) (auto simp: waiting_def split: if_splits)
  next
    case (Sleeping c' rid d)
    then show ?thesis using sleep [OF s r i, of d] c woken by auto
  qed (use c s r i loop gone in auto)
qed

lemma ready_advances:
  assumes s: "ready cfg s" and r: "front_request (sy_state s) = Some r"
  shows "advances cfg now s"
proof (cases "qr_notify r \<in> set (sy_notified s) \<or> is_awake (sy_tasks s ! qr_notify r) \<or> will_notify (sy_tasks s ! qr_notify r)")
  case True
  then show ?thesis using woken_head_advances s r by blast
next
  case False
  have s': "head_attended s" "sy_permits s = 1" "next_id (sy_state s) < u64_max" using s by (auto simp: ready_def sound_def)
  obtain c where "\<not> is_abandoned (sy_tasks s ! qr_notify r)" using ready_facts [OF s r] .
  with False s' r have "list_ex will_notify (sy_tasks s)" by (simp add: head_attended_def)
  then obtain j where j: "j < length (sy_tasks s)" "will_notify (sy_tasks s ! j)" by (auto simp: list_ex_length)
  then obtain p where p: "advance cfg now j (sy_tasks s ! j) s = Some (notify_next s, p)"
    by (cases "sy_tasks s ! j") auto
  let ?y = "set_task j p (notify_next s)"
  have m: "moves cfg now s ?y" using j(1) p by (rule moveI)
  have "ready cfg ?y" using s m by (rule ready_move) (use s' in simp_all)
  then show ?thesis using r
    by (intro advances_step [OF m] woken_head_advances [of cfg _ r]) (simp_all add: waiting_def notify_next_def)
qed

lemma ready_progress: "ready cfg s \<Longrightarrow> \<exists>t. (moves cfg now)\<^sup>*\<^sup>* s t \<and> (list_ex is_granted (sy_tasks t) \<or> waiting t = 0)"
proof (induction "waiting s" arbitrary: s rule: less_induct)
  case less
  show ?case
  proof (cases "front_request (sy_state s)")
    case None
    then have "waiting s = 0" by (auto simp: waiting_def front_request_def split: list.splits)
    then show ?thesis by blast
  next
    case (Some r)
    with less ready_advances [OF less.prems Some, of now] show ?thesis
      unfolding advances_def by (meson rtranclp_trans)
  qed
qed

section \<open>A head whose caller has gone\<close>

text \<open>A task that passed \<open>is_front\<close> and has not yet left the queue.\<close>

fun at_front :: "task \<Rightarrow> bool" where
  "at_front (AtFront c rid d) = True"
| "at_front (Granted c rid) = True"
| "at_front _ = False"

definition blocked :: "queued_request \<Rightarrow> system \<Rightarrow> bool" where
  "blocked r s \<longleftrightarrow> (\<exists>q. interactive (sy_state s) = r # q) \<and> is_abandoned (sy_tasks s ! qr_notify r)
     \<and> \<not> list_ex at_front (sy_tasks s)"

lemma not_list_ex_update: "\<not> list_ex P xs \<Longrightarrow> \<not> P y \<Longrightarrow> \<not> list_ex P (xs[i := y])"
  using set_update_subset_insert [of xs i y] by (auto simp: list_ex_iff)

lemma only_own_number:
  assumes "registered s" "next_id (sy_state s) < u64_max" "interactive (sy_state s) = r # q"
    "i < length (sy_tasks s)" "place (sy_tasks s ! i) = Some (c, qr_id r)"
  shows "qr_notify r = i"
proof -
  have reg: "register (next_id (sy_state s)) (\<lambda>k. queue_of k (sy_state s)) (has_place s)"
    using assms by (simp add: registered_def)
  have "has_place s (qr_notify r) Interactive (qr_id r)"
    using registerD(1) [OF reg, of Interactive "qr_notify r" "qr_id r"] assms(3) by simp
  moreover have "has_place s i (cl_class c) (qr_id r)" using assms(4,5) by (auto simp: has_place_def)
  ultimately show ?thesis using registerD(3) [OF reg] by blast
qed

lemma blocked_run:
  assumes b: "blocked r s" and reg: "registered s" "next_id (sy_state s) < u64_max" and i: "i < length (sy_tasks s)"
    and step: "advance cfg now i (sy_tasks s ! i) s = Some (s', t)"
  shows "blocked r (set_task i t s')"
proof -
  obtain q where q: "interactive (sy_state s) = r # q" using b by (auto simp: blocked_def)
  have ne: "qr_notify r \<noteq> i" using b step by (cases "sy_tasks s ! i") (auto simp: blocked_def)
  have own: "place (sy_tasks s ! i) \<noteq> Some (c, qr_id r)" for c using only_own_number [OF reg q i] ne by blast
  have "\<exists>q'. interactive (sy_state s') = r # q'"
    using step
  proof (cases rule: queue_effect)
    case same then show ?thesis using q by (metis queue_of_class(1))
  next
    case (append c x) then show ?thesis using q queue_of_class(1) by (metis append_Cons)
  next
    case (remove c rid) 
    with own [of c] have "rid \<noteq> qr_id r" by auto
    then have "remove_first rid (r # q) = r # remove_first rid q" by auto
    then show ?thesis using remove(4) q by (metis queue_of_class(1))
  qed
  moreover have "\<not> at_front t"
  proof -
    have "\<not> at_front (sy_tasks s ! i)" using b i by (auto simp: blocked_def list_ex_length)
    with step own q show ?thesis
      by (cases "sy_tasks s ! i") (auto simp: is_front_def front_is_def split: step_splits workload_class.splits)
  qed
  ultimately show ?thesis
    using b ne by (simp add: blocked_def advance_tasks [OF step] not_list_ex_update)
qed

lemma blocked_step:
  assumes b: "blocked r s" and inv: "sound cfg s" and step: "sched_step cfg s t" and n: "next_id (sy_state t) < u64_max"
  shows "blocked r t"
  using step
proof (cases rule: sched_stepE)
  case (arrive c)
  have "qr_notify r < length (sy_tasks s)"
    using b inv n arrive head_task [of s r] by (auto simp: blocked_def sound_def front_request_def)
  with b n arrive show ?thesis by (auto simp: blocked_def nth_append)
next
  case (run i now s' p)
  then have "next_id (sy_state s) < u64_max" using n by (auto intro: next_id_mono)
  with run b inv show ?thesis by (auto simp: sound_def intro: blocked_run)
next
  case (cancel i c rid d)
  then have "qr_notify r \<noteq> i" using b by (auto simp: blocked_def)
  with cancel b n show ?thesis by (simp add: blocked_def not_list_ex_update)
qed

lemma blocked_forever:
  assumes "(sched_step cfg)\<^sup>*\<^sup>* s t" "sound cfg s" "blocked r s"
  shows "next_id (sy_state t) < u64_max \<longrightarrow> blocked r t"
  using assms(1)
proof (induction rule: rtranclp_induct)
  case (step y z)
  have "sound cfg y" using step.hyps(1) assms(2) by (rule sched.steps_inv)
  show ?case
  proof
    assume n: "next_id (sy_state z) < u64_max"
    have "next_id (sy_state y) < u64_max"
      using step.hyps(2) n by (cases rule: sched_stepE) (auto intro: next_id_mono)
    with step.IH have "blocked r y" by blast
    with \<open>sound cfg y\<close> step.hyps(2) n show "blocked r z" using blocked_step by blast
  qed
qed (use assms in simp)

section \<open>Runs\<close>

text \<open>A run as a list of events, to exhibit reachable systems.\<close>

datatype sched_event = Arrive call | Run nat nat | Cancel nat

fun exec_event :: "local_scheduler_config \<Rightarrow> sched_event \<Rightarrow> system \<Rightarrow> system option" where
  "exec_event cfg (Arrive c) s = Some (s\<lparr> sy_tasks := sy_tasks s @ [Entering c] \<rparr>)"
| "exec_event cfg (Run i now) s =
     (if i < length (sy_tasks s)
      then map_option (\<lambda>(s', t). set_task i t s') (advance cfg now i (sy_tasks s ! i) s) else None)"
| "exec_event cfg (Cancel i) s =
     (if i < length (sy_tasks s)
      then (case sy_tasks s ! i of Sleeping c rid d \<Rightarrow> Some (set_task i (Abandoned c rid) s) | _ \<Rightarrow> None) else None)"

fun exec_events :: "local_scheduler_config \<Rightarrow> sched_event list \<Rightarrow> system \<Rightarrow> system option" where
  "exec_events cfg [] s = Some s"
| "exec_events cfg (e # es) s = Option.bind (exec_event cfg e s) (exec_events cfg es)"

lemma exec_event_step: "exec_event cfg e s = Some t \<Longrightarrow> sched_step cfg s t"
  by (cases e) (auto split: if_splits task.splits prod.splits intro: sched_step.intros)

lemma exec_reach: "exec_events cfg es s = Some t \<Longrightarrow> reach sched_init (sched_step cfg) s \<Longrightarrow> reach sched_init (sched_step cfg) t"
proof (induction es arbitrary: s)
  case (Cons e es)
  then obtain u where u: "exec_event cfg e s = Some u" "exec_events cfg es u = Some t"
    by (auto simp: bind_eq_Some_conv)
  with Cons.prems(2) have "reach sched_init (sched_step cfg) u" by (blast intro: reach_step exec_event_step)
  with Cons.IH u(2) show ?case by blast
qed simp

definition start :: system where
  "start = \<lparr> sy_state = new_scheduler, sy_permits = 1, sy_notified = [], sy_tasks = [] \<rparr>"

lemma reach_start: "reach sched_init (sched_step cfg) start"
  by (rule reach_init) (simp add: start_def sched_init_def)

definition baseline :: local_scheduler_config where
  "baseline = \<lparr> executing_per_user = 1, queued_per_user = 2, global_interactive_queue = 16,
     global_batch_queue = 16, overflow_after = 5000, strict_wait = 60000 \<rparr>"

lemma baseline_from_env: "scheduler_from_env (\<lambda>_. None) = Inr baseline"
  by (simp add: scheduler_from_env_def env_usize_def env_u64_def baseline_def Let_def)

definition strict_call :: "string \<Rightarrow> call" where
  "strict_call u = \<lparr> cl_user = u, cl_mode = LocalStrict, cl_class = Interactive, cl_cloud_available = False \<rparr>"

text \<open>
  One user runs, a second waits; then the first finishes (\<open>handover\<close>), or the second goes away
  while it waits and the first finishes after that (\<open>walk_away\<close>).
\<close>

definition queue_up :: "sched_event list" where
  "queue_up = [Arrive (strict_call ''a''), Run 0 0, Run 0 0, Arrive (strict_call ''b''),
     Run 1 1, Run 1 1, Run 1 1, Run 1 1, Run 1 1, Run 1 1, Run 1 1]"

definition handover :: "sched_event list" where
  "handover = queue_up @ [Run 0 10, Run 0 10]"

definition walk_away :: "sched_event list" where
  "walk_away = queue_up @ [Cancel 1, Run 0 10, Run 0 10, Run 0 10]"

definition left_behind :: system where
  "left_behind = \<lparr> sy_state = \<lparr> running_by_user = [], queued_by_user = [(''b'', 1)],
       interactive = [\<lparr> qr_id = 1, qr_enqueued = 1, qr_notify = 1 \<rparr>], batch = [], next_id = 1, service_time_ms = 4002 \<rparr>,
     sy_permits = 1, sy_notified = [1], sy_tasks = [Finished, Abandoned (strict_call ''b'') 1] \<rparr>"

definition handed_over :: system where
  "handed_over = left_behind\<lparr> sy_tasks := [Released, Sleeping (strict_call ''b'') 1 60001] \<rparr>"

lemmas run_defs = queue_up_def strict_call_def baseline_def start_def new_scheduler_def set_task_def lock_section_defs
  tally_def tally_incr_def tally_decr_def bt_get_def bt_remove_def bt_retain_def bt_values_def estimated_wait_def
  queue_limit_def queue_of_def set_queue_def notify_next_def front_request_def is_front_def front_is_def
  retry_after_seconds_def wait_for_def sat_add_def sat_mul_def u64_max_def

lemma walk_away_run: "exec_events baseline walk_away start = Some left_behind"
  by (simp add: walk_away_def left_behind_def run_defs)

lemma handover_run: "exec_events baseline handover start = Some handed_over"
  by (simp add: handover_def handed_over_def left_behind_def run_defs)

lemmas sample_reach = exec_reach [OF walk_away_run reach_start] exec_reach [OF handover_run reach_start]

section \<open>The contract\<close>

lemma from_env_limits:
  assumes "scheduler_from_env env = Inr cfg"
  shows "executing_per_user cfg = 1" "queued_per_user cfg = 2" "global_interactive_queue cfg = 16"
  using assms by (auto simp: scheduler_from_env_def Let_def split: if_splits)

text \<open>
  C12: the limits hold at every instant, whatever the interleaving of calls, leases, time-outs and
  cancellations: at most one task holds the execution permit, the running counters are the leases in
  existence, no user has more than two places in the queues, the interactive queue has at most
  sixteen entries and the batch queue no more than configured, and the delay offered to a refused
  caller is between one second and a minute.
\<close>

theorem local_limits_hold:
  assumes "scheduler_from_env env = Inr cfg" "reach sched_init (sched_step cfg) s"
  shows "how_many holds (sy_tasks s) \<le> 1
    \<and> (\<forall>u. tally (running_by_user (sy_state s)) u = how_many (\<lambda>t. runs t = Some u) (sy_tasks s))
    \<and> (\<forall>u. how_many (place_of u) (sy_tasks s) \<le> 2)
    \<and> length (interactive (sy_state s)) \<le> 16
    \<and> length (batch (sy_state s)) \<le> global_batch_queue cfg
    \<and> 1 \<le> retry_after_seconds (service_time_ms (sy_state s))
    \<and> retry_after_seconds (service_time_ms (sy_state s)) \<le> 60"
proof -
  from capacity.reach_inv [OF assms(2)] have c: "counted cfg s" "bounded cfg s" by (simp_all add: capacity_def)
  have "length (queue_of Interactive (sy_state s)) \<le> 16" "length (queue_of Batch (sy_state s)) \<le> global_batch_queue cfg"
    using c(2) from_env_limits [OF assms(1)] unfolding bounded_def queue_limit_def by (metis workload_class.simps(3,4))+
  moreover have "how_many (place_of u) (sy_tasks s) \<le> 2" for u
    using c from_env_limits [OF assms(1)] unfolding counted_def bounded_def by metis
  ultimately show ?thesis
    using c(1) by (auto simp: counted_def retry_after_seconds_def)
qed

theorem local_limits_hold_witness:
  "reach sched_init (sched_step baseline) left_behind \<and> sy_tasks left_behind = [Finished, Abandoned (strict_call ''b'') 1]
   \<and> length (interactive (sy_state left_behind)) \<le> 16 \<and> how_many (place_of ''b'') (sy_tasks left_behind) \<le> 2"
  using local_limits_hold [OF baseline_from_env sample_reach(1)] sample_reach(1)
  by (simp add: left_behind_def)

text \<open>
  C13: no wake-up is lost.  Whenever the permit is free and no waiting caller has gone away, the
  tasks already in the system can move, without the clock advancing and without a new call, to a
  point where a queued request has taken the permit or the queues are empty.
\<close>

theorem free_permit_reaches_the_queue:
  assumes "scheduler_from_env env = Inr cfg" "reach sched_init (sched_step cfg) s" "next_id (sy_state s) < u64_max"
    and "sy_permits s = 1" "\<not> list_ex is_abandoned (sy_tasks s)"
  shows "\<exists>t. (moves cfg now)\<^sup>*\<^sup>* s t \<and> (list_ex is_granted (sy_tasks t) \<or> waiting t = 0)"
  using sched.reach_inv [OF assms(2)] from_env_limits [OF assms(1)] assms(3-5)
  by (intro ready_progress) (simp add: ready_def)

theorem free_permit_reaches_the_queue_witness:
  "reach sched_init (sched_step baseline) handed_over \<and> waiting handed_over = 1
   \<and> (\<exists>t. (moves baseline 10)\<^sup>*\<^sup>* handed_over t \<and> (list_ex is_granted (sy_tasks t) \<or> waiting t = 0))"
  using free_permit_reaches_the_queue [OF baseline_from_env sample_reach(2), of 10] sample_reach(2)
  by (simp add: handed_over_def left_behind_def u64_max_def waiting_def)

text \<open>
  C14: a caller that goes away while it waits keeps its place.  Once the request at the head of the
  interactive queue has lost its caller, and no request had already passed it, it stays at the head
  for ever and no queued request is ever granted the permit again.
\<close>

theorem abandoned_head_blocks_the_queue:
  assumes "reach sched_init (sched_step cfg) s" "interactive (sy_state s) = r # q"
    and "is_abandoned (sy_tasks s ! qr_notify r)" "\<not> list_ex at_front (sy_tasks s)"
    and "(sched_step cfg)\<^sup>*\<^sup>* s t" "next_id (sy_state t) < u64_max"
  shows "(\<exists>q'. interactive (sy_state t) = r # q') \<and> \<not> list_ex is_granted (sy_tasks t)"
proof -
  have "blocked r s" using assms(2-4) by (simp add: blocked_def)
  then have "blocked r t" using blocked_forever [OF assms(5) sched.reach_inv [OF assms(1)]] assms(6) by blast
  moreover have "at_front x" if "is_granted x" for x using that by (cases x) auto
  ultimately show ?thesis by (auto simp: blocked_def list_ex_iff)
qed

theorem abandoned_head_blocks_the_queue_witness:
  "reach sched_init (sched_step baseline) left_behind \<and> sy_permits left_behind = 1
   \<and> \<not> list_ex is_granted (sy_tasks (left_behind\<lparr> sy_tasks := sy_tasks left_behind @ [Entering (strict_call ''c'')] \<rparr>))"
  using abandoned_head_blocks_the_queue [OF sample_reach(1) _ _ _ r_into_rtranclp [of "sched_step baseline", OF arrive [of _ _ "strict_call ''c''"]]]
    sample_reach(1)
  by (simp add: left_behind_def u64_max_def)

end
