(* ===== verification/Stream_Lifecycle.thy ===== *)
theory Stream_Lifecycle
  imports App_Error Json
begin

text \<open>
  What the gateway remembers of one upstream stream, \<^verbatim>\<open>src/stream_lifecycle.rs\<close>: whether it
  completed or failed, the usage and cost the provider reported, the first semantic event, and the
  terminal outcome the request log, the ledger and the metrics are written from.

  The record is shared between the stream parser and the response body; every method locks it, so a
  history is a list of method calls (\<open>stream_op\<close>).  Elapsed times are arguments.
\<close>

section \<open>State\<close>

record response_observation =
  ro_tool_call_count :: nat
  ro_text_present :: bool
  ro_stop_reason :: "string option"

datatype upstream_stream_state = Pending | Completed | Failed string

record stream_lifecycle =
  sl_state :: upstream_stream_state
  sl_usage :: "token_usage option"
  sl_provider_reported_cost :: "f64 option"
  sl_first_semantic_latency :: "nat option"
  sl_response :: response_observation

definition new_lifecycle :: stream_lifecycle where
  "new_lifecycle =
     \<lparr> sl_state = Pending, sl_usage = None, sl_provider_reported_cost = None,
       sl_first_semantic_latency = None,
       sl_response = \<lparr> ro_tool_call_count = 0, ro_text_present = False, ro_stop_reason = None \<rparr> \<rparr>"

section \<open>Operations\<close>

definition mark_first_semantic_event :: "nat \<Rightarrow> stream_lifecycle \<Rightarrow> stream_lifecycle" where
  "mark_first_semantic_event elapsed l =
     (case sl_first_semantic_latency l of
        None \<Rightarrow> l\<lparr> sl_first_semantic_latency := Some elapsed \<rparr>
      | Some _ \<Rightarrow> l)"

definition merge_response :: "nat \<Rightarrow> bool \<Rightarrow> string option \<Rightarrow> stream_lifecycle \<Rightarrow> stream_lifecycle" where
  "merge_response tool_call_count text_present stop_reason l =
     (let r = sl_response l
      in l\<lparr> sl_response :=
            \<lparr> ro_tool_call_count = max (ro_tool_call_count r) tool_call_count,
              ro_text_present = (ro_text_present r \<or> text_present),
              ro_stop_reason = (case stop_reason of Some x \<Rightarrow> Some x | None \<Rightarrow> ro_stop_reason r) \<rparr> \<rparr>)"

definition observe_response_fragment ::
  "nat \<Rightarrow> nat \<Rightarrow> bool \<Rightarrow> string option \<Rightarrow> stream_lifecycle \<Rightarrow> stream_lifecycle" where
  "observe_response_fragment elapsed tool_call_count text_present stop_reason l =
     merge_response tool_call_count text_present stop_reason
       (if tool_call_count > 0 \<or> text_present then mark_first_semantic_event elapsed l else l)"

definition has_text :: "json option \<Rightarrow> bool" where
  "has_text v = (case Option.bind v as_str of None \<Rightarrow> False | Some text \<Rightarrow> trim text \<noteq> [])"

definition observe_openai_response :: "json \<Rightarrow> stream_lifecycle \<Rightarrow> stream_lifecycle" where
  "observe_openai_response response l =
     (case Option.bind (json_get response ''choices'') as_array of
        Some (choice # _) \<Rightarrow>
          (let message = (case json_get choice ''message'' of Some m \<Rightarrow> m | None \<Rightarrow> JNull);
               calls = (case Option.bind (json_get message ''tool_calls'') as_array of
                          Some xs \<Rightarrow> length xs | None \<Rightarrow> 0);
               function_call = (case json_get message ''function_call'' of
                                  Some v \<Rightarrow> as_object v \<noteq> None | None \<Rightarrow> False)
           in merge_response (calls + (if function_call then 1 else 0))
                (has_text (json_get message ''content''))
                (Option.bind (json_get choice ''finish_reason'') as_str) l)
      | _ \<Rightarrow> l)"

definition block_type :: "json \<Rightarrow> string option" where
  "block_type block = Option.bind (json_get block ''type'') as_str"

definition observe_anthropic_response :: "json \<Rightarrow> stream_lifecycle \<Rightarrow> stream_lifecycle" where
  "observe_anthropic_response response l =
     (let blocks = (case Option.bind (json_get response ''content'') as_array of Some xs \<Rightarrow> xs | None \<Rightarrow> []);
          tool_call_count = length (filter (\<lambda>block. block_type block = Some ''tool_use'') blocks);
          text_present = list_ex (\<lambda>block. block_type block = Some ''text'' \<and> has_text (json_get block ''text'')) blocks
      in merge_response tool_call_count text_present (Option.bind (json_get response ''stop_reason'') as_str) l)"

definition mark_completed :: "stream_lifecycle \<Rightarrow> stream_lifecycle" where
  "mark_completed l = (if sl_state l = Pending then l\<lparr> sl_state := Completed \<rparr> else l)"

definition mark_failed :: "string \<Rightarrow> stream_lifecycle \<Rightarrow> stream_lifecycle" where
  "mark_failed error l = (if sl_state l = Pending then l\<lparr> sl_state := Failed error \<rparr> else l)"

definition no_usage :: token_usage where
  "no_usage = \<lparr> input_tokens = 0, output_tokens = 0, cache_write_tokens = 0, cache_read_tokens = 0 \<rparr>"

definition merge_usage :: "token_usage \<Rightarrow> stream_lifecycle \<Rightarrow> stream_lifecycle" where
  "merge_usage usage l =
     (let current = (case sl_usage l of Some u \<Rightarrow> u | None \<Rightarrow> no_usage)
      in l\<lparr> sl_usage := Some
            \<lparr> input_tokens = max (input_tokens current) (input_tokens usage),
              output_tokens = max (output_tokens current) (output_tokens usage),
              cache_write_tokens = max (cache_write_tokens current) (cache_write_tokens usage),
              cache_read_tokens = max (cache_read_tokens current) (cache_read_tokens usage) \<rparr> \<rparr>)"

definition merge_provider_reported_cost :: "f64 \<Rightarrow> stream_lifecycle \<Rightarrow> stream_lifecycle" where
  "merge_provider_reported_cost cost l =
     (if \<not> is_finite cost \<or> f64_lt cost f64_zero then l
      else l\<lparr> sl_provider_reported_cost := Some
             (case sl_provider_reported_cost l of None \<Rightarrow> cost | Some current \<Rightarrow> f64_max current cost) \<rparr>)"

section \<open>Terminal outcomes\<close>

datatype stream_terminal_outcome =
    StreamCompleted
  | UpstreamFailed string
  | DeliveryFailed string
  | DownstreamCancelled upstream_stream_state

definition after_eof :: "stream_lifecycle \<Rightarrow> stream_terminal_outcome" where
  "after_eof l =
     (case sl_state l of
        Completed \<Rightarrow> StreamCompleted
      | Failed error \<Rightarrow> UpstreamFailed error
      | Pending \<Rightarrow> UpstreamFailed ''stream body ended without a protocol terminal signal'')"

definition after_body_error :: "stream_lifecycle \<Rightarrow> string \<Rightarrow> stream_terminal_outcome" where
  "after_body_error l error =
     (case sl_state l of
        Failed upstream_error \<Rightarrow> UpstreamFailed upstream_error
      | Completed \<Rightarrow> DeliveryFailed error
      | Pending \<Rightarrow> DeliveryFailed error)"

definition after_drop :: "stream_lifecycle \<Rightarrow> stream_terminal_outcome" where
  "after_drop l = DownstreamCancelled (sl_state l)"

definition outcome_success :: "stream_terminal_outcome \<Rightarrow> bool" where
  "outcome_success outcome \<longleftrightarrow> outcome = StreamCompleted"

fun outcome_error_message :: "stream_terminal_outcome \<Rightarrow> string option" where
  "outcome_error_message StreamCompleted = None"
| "outcome_error_message (UpstreamFailed error) = Some error"
| "outcome_error_message (DeliveryFailed error) = Some error"
| "outcome_error_message (DownstreamCancelled (Failed error)) = Some error"
| "outcome_error_message (DownstreamCancelled _) = Some ''downstream cancelled before stream delivery completed''"

definition timed_out :: "stream_terminal_outcome \<Rightarrow> bool" where
  "timed_out outcome =
     (case outcome_error_message outcome of
        None \<Rightarrow> False
      | Some message \<Rightarrow> contains ''timed out'' (to_ascii_lowercase message))"

fun outcome_status_code :: "stream_terminal_outcome \<Rightarrow> nat" where
  "outcome_status_code StreamCompleted = 200"
| "outcome_status_code (UpstreamFailed error) = (if timed_out (UpstreamFailed error) then 504 else 502)"
| "outcome_status_code (DeliveryFailed error) = 502"
| "outcome_status_code (DownstreamCancelled upstream) = 499"

fun terminal_reason :: "stream_terminal_outcome \<Rightarrow> string" where
  "terminal_reason StreamCompleted = ''completed''"
| "terminal_reason (UpstreamFailed error) =
     (if timed_out (UpstreamFailed error) then ''upstream_timeout'' else ''upstream_error'')"
| "terminal_reason (DeliveryFailed error) = ''delivery_error''"
| "terminal_reason (DownstreamCancelled Completed) = ''downstream_cancelled_after_upstream_complete''"
| "terminal_reason (DownstreamCancelled _) = ''downstream_cancelled''"

definition audit_safe_stream_error :: "string \<Rightarrow> string" where
  "audit_safe_stream_error error =
     (let normalized = to_ascii_lowercase error
      in if contains ''timed out'' normalized then ''upstream stream timed out [details redacted]''
         else if list_ex (\<lambda>marker. contains marker normalized) balance_markers
         then ''upstream stream error: insufficient balance [details redacted]''
         else if contains ''rate limit'' normalized
         then ''upstream stream error: rate limit [details redacted]''
         else if list_ex (\<lambda>marker. contains marker normalized)
                   [''tool'', ''function'', ''input_json'', ''tool_use'', ''tool_result'']
         then ''upstream tool stream protocol error [details redacted]''
         else ''upstream stream error [details redacted]'')"

fun audit_error_message :: "stream_terminal_outcome \<Rightarrow> string option" where
  "audit_error_message StreamCompleted = None"
| "audit_error_message (UpstreamFailed error) = Some (audit_safe_stream_error error)"
| "audit_error_message (DeliveryFailed error) = Some ''stream delivery error [details redacted]''"
| "audit_error_message (DownstreamCancelled (Failed error)) = Some (audit_safe_stream_error error)"
| "audit_error_message (DownstreamCancelled _) = Some ''downstream cancelled before stream delivery completed''"

section \<open>Histories\<close>

datatype stream_op =
    MarkFirstSemanticEvent nat
  | ObserveResponseFragment nat nat bool "string option"
  | ObserveOpenaiResponse json
  | ObserveAnthropicResponse json
  | MarkCompleted
  | MarkFailed string
  | MergeUsage token_usage
  | MergeProviderReportedCost f64

fun apply_op :: "stream_op \<Rightarrow> stream_lifecycle \<Rightarrow> stream_lifecycle" where
  "apply_op (MarkFirstSemanticEvent elapsed) l = mark_first_semantic_event elapsed l"
| "apply_op (ObserveResponseFragment elapsed n text stop) l = observe_response_fragment elapsed n text stop l"
| "apply_op (ObserveOpenaiResponse response) l = observe_openai_response response l"
| "apply_op (ObserveAnthropicResponse response) l = observe_anthropic_response response l"
| "apply_op MarkCompleted l = mark_completed l"
| "apply_op (MarkFailed error) l = mark_failed error l"
| "apply_op (MergeUsage usage) l = merge_usage usage l"
| "apply_op (MergeProviderReportedCost cost) l = merge_provider_reported_cost cost l"

definition history :: "stream_op list \<Rightarrow> stream_lifecycle" where
  "history ops = fold apply_op ops new_lifecycle"

text \<open>What a history says, read directly off the list of calls.\<close>

fun terminal_signal :: "stream_op \<Rightarrow> upstream_stream_state option" where
  "terminal_signal MarkCompleted = Some Completed"
| "terminal_signal (MarkFailed error) = Some (Failed error)"
| "terminal_signal _ = None"

fun semantic_event :: "stream_op \<Rightarrow> nat option" where
  "semantic_event (MarkFirstSemanticEvent elapsed) = Some elapsed"
| "semantic_event (ObserveResponseFragment elapsed n text stop) = (if n > 0 \<or> text then Some elapsed else None)"
| "semantic_event _ = None"

fun reported_usage :: "stream_op \<Rightarrow> token_usage option" where
  "reported_usage (MergeUsage usage) = Some usage"
| "reported_usage _ = None"

fun reported_cost :: "stream_op \<Rightarrow> f64 option" where
  "reported_cost (MergeProviderReportedCost cost) =
     (if is_finite cost \<and> \<not> f64_lt cost f64_zero then Some cost else None)"
| "reported_cost _ = None"

definition first_of :: "'a list \<Rightarrow> 'a option" where
  "first_of xs = (case xs of [] \<Rightarrow> None | x # _ \<Rightarrow> Some x)"

definition largest :: "(token_usage \<Rightarrow> nat) \<Rightarrow> token_usage list \<Rightarrow> nat" where
  "largest f us = foldr (\<lambda>u m. max (f u) m) us 0"

definition peak_usage :: "token_usage list \<Rightarrow> token_usage option" where
  "peak_usage us =
     (if us = [] then None
      else Some \<lparr> input_tokens = largest input_tokens us, output_tokens = largest output_tokens us,
                  cache_write_tokens = largest cache_write_tokens us,
                  cache_read_tokens = largest cache_read_tokens us \<rparr>)"

lemma merge_response_other [simp]:
  "sl_state (merge_response n t r l) = sl_state l"
  "sl_usage (merge_response n t r l) = sl_usage l"
  "sl_provider_reported_cost (merge_response n t r l) = sl_provider_reported_cost l"
  "sl_first_semantic_latency (merge_response n t r l) = sl_first_semantic_latency l"
  by (simp_all add: merge_response_def Let_def)

lemmas op_defs = mark_first_semantic_event_def observe_response_fragment_def observe_openai_response_def
  observe_anthropic_response_def mark_completed_def mark_failed_def merge_usage_def
  merge_provider_reported_cost_def Let_def

lemma apply_op_state: "sl_state (apply_op op l) =
    (if sl_state l = Pending then (case terminal_signal op of Some x \<Rightarrow> x | None \<Rightarrow> Pending) else sl_state l)"
  by (cases op) (auto simp: op_defs split: option.splits list.splits)

lemma apply_op_latency: "sl_first_semantic_latency (apply_op op l) =
    (case sl_first_semantic_latency l of None \<Rightarrow> semantic_event op | Some x \<Rightarrow> Some x)"
  by (cases op) (auto simp: op_defs split: option.splits list.splits)

lemma apply_op_usage: "sl_usage (apply_op op l) =
    (case reported_usage op of None \<Rightarrow> sl_usage l | Some u \<Rightarrow> sl_usage (merge_usage u l))"
  by (cases op) (auto simp: op_defs split: option.splits list.splits)

lemma apply_op_cost: "sl_provider_reported_cost (apply_op op l) =
    (case reported_cost op of None \<Rightarrow> sl_provider_reported_cost l
     | Some c \<Rightarrow> Some (case sl_provider_reported_cost l of None \<Rightarrow> c | Some x \<Rightarrow> f64_max x c))"
  by (cases op) (auto simp: op_defs split: option.splits list.splits)

lemma signal_not_pending: "terminal_signal op \<noteq> Some Pending"
  by (cases op) auto

lemma history_snoc: "history (ops @ [op]) = apply_op op (history ops)"
  by (simp add: history_def)

lemma first_of_snoc: "first_of (xs @ [x]) = (case first_of xs of None \<Rightarrow> Some x | Some y \<Rightarrow> Some y)"
  by (cases xs) (simp_all add: first_of_def)

lemma map_filter_snoc [simp]:
  "List.map_filter f (xs @ [x]) = List.map_filter f xs @ (case f x of None \<Rightarrow> [] | Some y \<Rightarrow> [y])"
  by (simp add: List.map_filter_def split: option.splits)

lemma history_nil: "history [] = new_lifecycle"
  by (simp add: history_def)

lemma first_signal_not_pending: "first_of (List.map_filter terminal_signal ops) \<noteq> Some Pending"
  by (induction ops rule: rev_induct)
    (auto simp: first_of_snoc first_of_def [of "[]"] signal_not_pending List.map_filter_simps split: option.splits)

lemma history_state: "sl_state (history ops) =
    (case first_of (List.map_filter terminal_signal ops) of None \<Rightarrow> Pending | Some x \<Rightarrow> x)"
proof (induction ops rule: rev_induct)
  case (snoc op ops)
  then show ?case using first_signal_not_pending [of ops]
    by (auto simp: history_snoc apply_op_state first_of_snoc split: option.splits)
qed (simp add: history_nil new_lifecycle_def first_of_def List.map_filter_simps)

lemma history_latency: "sl_first_semantic_latency (history ops) = first_of (List.map_filter semantic_event ops)"
  by (induction ops rule: rev_induct)
    (auto simp: history_nil new_lifecycle_def first_of_def [of "[]"] history_snoc apply_op_latency first_of_snoc
      List.map_filter_simps split: option.splits)

lemma largest_snoc: "largest f (us @ [u]) = max (largest f us) (f u)"
  by (induction us) (auto simp: largest_def)

lemma history_usage: "sl_usage (history ops) = peak_usage (List.map_filter reported_usage ops)"
proof (induction ops rule: rev_induct)
  case (snoc op ops)
  then show ?case
    by (auto simp: history_snoc apply_op_usage merge_usage_def peak_usage_def largest_snoc no_usage_def
        largest_def [of _ "[]"] Let_def split: option.splits if_splits)
qed (simp add: history_nil new_lifecycle_def peak_usage_def List.map_filter_simps)

lemma reported_cost_finite: "reported_cost op = Some c \<Longrightarrow> is_finite c"
  by (cases op) (auto split: if_splits)

lemma max_of_finite:
  assumes "is_finite c" "list_all is_finite cs" "m \<in> set cs" "list_all (\<lambda>x. f64_le x m) cs"
  shows "f64_max m c \<in> set (cs @ [c]) \<and> list_all (\<lambda>x. f64_le x (f64_max m c)) (cs @ [c])"
proof -
  obtain a b where ab: "c = Fin a" "m = Fin b"
    using assms(1-3) by (cases c; cases m) (auto simp: list_all_iff)
  have "f64_le x (Fin a)" if "x \<in> set cs" "b < a" for x
    using assms(2,4) that ab by (cases x) (force simp: list_all_iff)+
  then show ?thesis using assms(3,4) ab by (auto simp: f64_max_def list_all_iff)
qed

lemma costs_finite: "list_all is_finite (List.map_filter reported_cost ops)"
  by (induction ops rule: rev_induct) (auto simp: List.map_filter_simps dest: reported_cost_finite split: option.splits)

lemma history_cost:
  "case sl_provider_reported_cost (history ops) of
     None \<Rightarrow> List.map_filter reported_cost ops = []
   | Some m \<Rightarrow> m \<in> set (List.map_filter reported_cost ops)
       \<and> list_all (\<lambda>c. f64_le c m) (List.map_filter reported_cost ops)"
proof (induction ops rule: rev_induct)
  case (snoc op ops)
  show ?case
  proof (cases "reported_cost op")
    case None
    with snoc show ?thesis by (simp add: history_snoc apply_op_cost split: option.splits)
  next
    case (Some c)
    have "f64_le c c" using reported_cost_finite [OF Some] by (cases c) simp_all
    with snoc Some show ?thesis
      using max_of_finite [OF reported_cost_finite [OF Some] costs_finite [of ops]]
      by (auto simp: history_snoc apply_op_cost split: option.splits)
  qed
qed (simp add: history_nil new_lifecycle_def List.map_filter_simps)

text \<open>
  C15: what is remembered of a stream is a function of what was reported, not of how the calls were
  interleaved: the first terminal signal decides and later ones are ignored, the latency is that of
  the first semantic event, each token count is the largest reported one, and the cost is the
  largest finite non-negative one.
\<close>

theorem history_summary:
  "sl_state (history ops) =
     (case first_of (List.map_filter terminal_signal ops) of None \<Rightarrow> Pending | Some x \<Rightarrow> x)
   \<and> sl_first_semantic_latency (history ops) = first_of (List.map_filter semantic_event ops)
   \<and> sl_usage (history ops) = peak_usage (List.map_filter reported_usage ops)
   \<and> (case sl_provider_reported_cost (history ops) of
        None \<Rightarrow> List.map_filter reported_cost ops = []
      | Some m \<Rightarrow> m \<in> set (List.map_filter reported_cost ops)
          \<and> list_all (\<lambda>c. f64_le c m) (List.map_filter reported_cost ops))"
  using history_state history_latency history_usage history_cost by blast

section \<open>Outcomes\<close>

definition stream_audit_templates :: "string list" where
  "stream_audit_templates =
     [''upstream stream timed out [details redacted]'',
      ''upstream stream error: insufficient balance [details redacted]'',
      ''upstream stream error: rate limit [details redacted]'',
      ''upstream tool stream protocol error [details redacted]'',
      ''upstream stream error [details redacted]'',
      ''stream delivery error [details redacted]'',
      ''downstream cancelled before stream delivery completed'']"

lemma audit_safe_stream_error_template: "audit_safe_stream_error e \<in> set stream_audit_templates"
  by (simp add: audit_safe_stream_error_def stream_audit_templates_def Let_def)

lemma audit_error_message_template:
  "audit_error_message outcome = None \<or> (\<exists>m \<in> set stream_audit_templates. audit_error_message outcome = Some m)"
  by (cases outcome rule: audit_error_message.cases)
    (use audit_safe_stream_error_template in \<open>auto simp: stream_audit_templates_def\<close>)

text \<open>
  A stream is a success exactly when the provider's first terminal signal was completion and the
  body ran to its end; a body error or a dropped connection never is.  Success, status 200, the
  reason \<open>completed\<close> and the absence of an audit message coincide, every other outcome has status
  499, 502 or 504, and audit messages come from seven fixed texts.
\<close>

theorem stream_outcome_contract:
  "outcome_success (after_eof (history ops)) =
     (first_of (List.map_filter terminal_signal ops) = Some Completed)
   \<and> \<not> outcome_success (after_body_error (history ops) e) \<and> \<not> outcome_success (after_drop (history ops))
   \<and> outcome_success outcome = (outcome_status_code outcome = 200)
   \<and> outcome_success outcome = (terminal_reason outcome = ''completed'')
   \<and> outcome_success outcome = (audit_error_message outcome = None)
   \<and> outcome_status_code outcome \<in> {200, 499, 502, 504}
   \<and> (case audit_error_message outcome of None \<Rightarrow> True | Some m \<Rightarrow> m \<in> set stream_audit_templates)"
proof -
  have "outcome_success (after_eof (history ops)) =
     (first_of (List.map_filter terminal_signal ops) = Some Completed)"
    using first_signal_not_pending [of ops]
    by (auto simp: outcome_success_def after_eof_def history_state split: option.splits upstream_stream_state.splits)
  moreover have "\<not> outcome_success (after_body_error (history ops) e)" "\<not> outcome_success (after_drop (history ops))"
    by (simp_all add: outcome_success_def after_body_error_def after_drop_def split: upstream_stream_state.splits)
  moreover have "outcome_success outcome = (outcome_status_code outcome = 200)
      \<and> outcome_success outcome = (terminal_reason outcome = ''completed'')
      \<and> outcome_success outcome = (audit_error_message outcome = None)
      \<and> outcome_status_code outcome \<in> {200, 499, 502, 504}"
    by (cases outcome rule: audit_error_message.cases) (simp_all add: outcome_success_def)
  ultimately show ?thesis
    using audit_error_message_template [of outcome] by (auto split: option.splits)
qed

end
