(* ===== verification/Pricing.thy ===== *)
theory Pricing
  imports App_Error Json Usage_Period
begin

text \<open>
  Prices and usage, \<^verbatim>\<open>src/pricing.rs\<close> and \<open>quota_increment\<close> of \<^verbatim>\<open>src/usage.rs\<close>: what a
  provider's JSON says was used, what it costs in \<open>f64\<close>, and when an amount may be billed.  A
  literal of the source is the nearest double of its decimal value.  Serialisation to JSON text and
  header values belong to crates and are parameters.
\<close>

section \<open>Rate cards\<close>

record model_pricing =
  input_per_million :: f64
  output_per_million :: f64
  cache_write_per_million :: f64
  cache_read_per_million :: f64

datatype pricing_source = ProviderPublished | ProviderContract | InternalChargeback | LegacyEstimate

datatype pricing_service_tier = TierStandard | TierBatch | TierFlex | TierPriority | TierCustom

record model_pricing_card =
  card_rates :: model_pricing
  card_version :: string
  card_effective_at :: string
  card_currency :: string
  card_source :: pricing_source
  card_service_tier :: pricing_service_tier
  card_region :: "string option"
  card_evidence :: string

datatype pricing_method = ProviderReported | ExactRateCard

record pricing_evidence =
  pe_provider :: string
  pe_model :: string
  pe_method :: pricing_method
  pe_currency :: string
  pe_version :: string
  pe_effective_at :: string
  pe_source :: pricing_source
  pe_service_tier :: pricing_service_tier
  pe_region :: "string option"
  pe_evidence :: string
  pe_rates :: "model_pricing option"

record usage_charge =
  uc_usage :: token_usage
  uc_cost_estimate :: f64
  uc_actual_cost :: "f64 option"
  uc_billable_cost :: "f64 option"
  uc_pricing_evidence :: "pricing_evidence option"

text \<open>\<open>str::is_ascii\<close>, and slicing at byte offsets.\<close>

definition slice :: "nat \<Rightarrow> nat \<Rightarrow> string \<Rightarrow> string" where
  "slice a b s = take (b - a) (drop a s)"

definition byte_at :: "string \<Rightarrow> nat \<Rightarrow> char option" where
  "byte_at s i = (if i < length s then Some (s ! i) else None)"

definition rate_card_max_day :: "nat \<Rightarrow> nat \<Rightarrow> nat option" where
  "rate_card_max_day year month =
     (let leap_year = 4 dvd year \<and> (\<not> 100 dvd year \<or> 400 dvd year)
      in if month \<in> {1, 3, 5, 7, 8, 10, 12} then Some 31
         else if month \<in> {4, 6, 9, 11} then Some 30
         else if month = 2 then Some (if leap_year then 29 else 28)
         else None)"

definition rate_card_fields_valid :: "nat \<Rightarrow> nat \<Rightarrow> nat \<Rightarrow> nat \<Rightarrow> nat \<Rightarrow> nat \<Rightarrow> bool" where
  "rate_card_fields_valid year month day hour minute second =
     (case rate_card_max_day year month of
        None \<Rightarrow> False
      | Some max_day \<Rightarrow> \<not> (\<not> (1 \<le> day \<and> day \<le> max_day) \<or> hour > 23 \<or> minute > 59 \<or> second > 59))"

definition valid_utc_rate_card_timestamp :: "string \<Rightarrow> bool" where
  "valid_utc_rate_card_timestamp value =
     (if \<not> list_all is_ascii_char value \<or> length value < 20 \<or> length value > 30 \<or> \<not> ends_with ''Z'' value then False
      else if byte_at value 4 \<noteq> Some CHR ''-'' \<or> byte_at value 7 \<noteq> Some CHR ''-'' \<or> byte_at value 10 \<noteq> Some CHR ''T''
           \<or> byte_at value 13 \<noteq> Some CHR '':'' \<or> byte_at value 16 \<noteq> Some CHR '':'' then False
      else let number = (\<lambda>start stop. parse_uint u32_max (slice start stop value))
           in case (number 0 4, number 5 7, number 8 10, number 11 13, number 14 16, number 17 19) of
                (Some year, Some month, Some day, Some hour, Some minute, Some second) \<Rightarrow>
                  rate_card_fields_valid year month day hour minute second
                  \<and> (let fractional = slice 19 (length value - 1) value
                     in fractional = [] \<or> (starts_with ''.'' fractional \<and> length fractional > 1
                          \<and> list_all is_digit (tl fractional)))
              | _ \<Rightarrow> False)"

definition bad_rate :: "f64 \<Rightarrow> bool" where
  "bad_rate value \<longleftrightarrow> \<not> is_finite value \<or> f64_lt value f64_zero"

fun first_bad_rate :: "string \<Rightarrow> (string \<times> f64) list \<Rightarrow> string + unit" where
  "first_bad_rate model [] = Inr ()"
| "first_bad_rate model ((field, value) # rest) =
     (if bad_rate value
      then Inl (''model_pricing.'' @ model @ ''.'' @ field @ '' must be a finite non-negative number'')
      else first_bad_rate model rest)"

fun first_bad_text :: "string \<Rightarrow> (string \<times> string \<times> nat) list \<Rightarrow> string + unit" where
  "first_bad_text model [] = Inr ()"
| "first_bad_text model ((field, value, max_len) # rest) =
     (if trim value = [] \<or> length value > max_len \<or> has_control value
      then Inl (''model_pricing.'' @ model @ ''.'' @ field @
             '' must be non-empty, bounded, and contain no control characters'')
      else first_bad_text model rest)"

definition validate_model_pricing_card :: "string \<Rightarrow> string list \<Rightarrow> model_pricing_card \<Rightarrow> string + unit" where
  "validate_model_pricing_card model allowed_models rc =
     (if trim model = [] \<or> \<not> list_ex (\<lambda>allowed. allowed = model) allowed_models
      then Inl (''model_pricing requires an exact model from the provider models list; invalid key `'' @ model @ ''`'')
      else
        and_then (first_bad_rate model
          [(''input_per_million'', input_per_million (card_rates rc)),
           (''output_per_million'', output_per_million (card_rates rc)),
           (''cache_write_per_million'', cache_write_per_million (card_rates rc)),
           (''cache_read_per_million'', cache_read_per_million (card_rates rc))]) (\<lambda>_.
        if card_currency rc \<noteq> ''USD''
        then Inl (''model_pricing.'' @ model @ ''.currency must be USD until currency conversion is implemented'')
        else if card_source rc = LegacyEstimate
        then Inl (''model_pricing.'' @ model @
               ''.source cannot be legacy_estimate; use provider-wide pricing for estimates'')
        else if card_service_tier rc \<noteq> TierStandard
        then Inl (''model_pricing.'' @ model @
               ''.service_tier must be standard until request-tier matching is implemented'')
        else and_then (first_bad_text model
               [(''version'', card_version rc, 120), (''evidence'', card_evidence rc, 1000)]) (\<lambda>_.
             if \<not> valid_utc_rate_card_timestamp (card_effective_at rc)
             then Inl (''model_pricing.'' @ model @ ''.effective_at must be an RFC3339 UTC timestamp'')
             else Inr ())))"

section \<open>Costs\<close>

text \<open>Decimal literals are doubles.\<close>

definition rates :: "rat \<Rightarrow> rat \<Rightarrow> rat \<Rightarrow> rat \<Rightarrow> model_pricing" where
  "rates i u w r = \<lparr> input_per_million = round64 i, output_per_million = round64 u,
                     cache_write_per_million = round64 w, cache_read_per_million = round64 r \<rparr>"

definition pricing_for_model :: "string \<Rightarrow> model_pricing" where
  "pricing_for_model model =
     (let normalized = to_ascii_lowercase model
      in if contains ''deepseek-v4-pro'' normalized
         then rates (435 / 1000) (87 / 100) (435 / 1000) (3625 / 1000000)
         else if contains ''deepseek-v4-flash'' normalized \<or> contains ''deepseek-chat'' normalized \<or> contains ''deepseek-reasoner'' normalized
         then rates (14 / 100) (28 / 100) (14 / 100) (28 / 10000)
         else if contains ''claude-fable-5'' normalized \<or> contains ''claude-mythos-5'' normalized
         then rates 10 50 (125 / 10) 1
         else if contains ''claude-opus-4'' normalized
         then rates 5 25 (625 / 100) (5 / 10)
         else if contains ''claude-sonnet-4'' normalized
         then rates 3 15 (375 / 100) (3 / 10)
         else if contains ''claude-haiku-4-5'' normalized
         then rates 1 5 (125 / 100) (1 / 10)
         else if contains ''claude-3-5-haiku'' normalized
         then rates (8 / 10) 4 1 (8 / 100)
         else if contains ''gpt-5.5-pro'' normalized \<or> contains ''gpt-5.4-pro'' normalized
         then rates 15 90 15 15
         else if contains ''gpt-5.5'' normalized
         then rates (25 / 10) 15 (25 / 10) (25 / 100)
         else if contains ''gpt-5.4-mini'' normalized
         then rates (75 / 100) (45 / 10) (9375 / 10000) (75 / 1000)
         else if contains ''gpt-5.4-nano'' normalized
         then rates (2 / 10) (125 / 100) (25 / 100) (2 / 100)
         else if contains ''gpt-5.4'' normalized
         then rates (25 / 10) 15 (3125 / 1000) (25 / 100)
         else if contains ''mimo-'' normalized
         then rates (14 / 100) (28 / 100) 0 (28 / 10000)
         else if contains ''gpt-4o-mini'' normalized
         then rates (15 / 100) (6 / 10) (15 / 100) (75 / 1000)
         else if contains ''gpt-4o'' normalized
         then rates (25 / 10) 10 (25 / 10) (125 / 100)
         else if contains ''gpt-'' normalized \<or> contains ''openai/'' normalized
         then rates (125 / 100) (75 / 10) (125 / 100) (125 / 1000)
         else if contains ''gemini-'' normalized
         then rates (125 / 100) 10 (125 / 100) (125 / 1000)
         else if contains ''qwen-'' normalized \<or> contains ''kimi-'' normalized \<or> contains ''glm-'' normalized
         then rates (6 / 10) (24 / 10) (6 / 10) (6 / 100)
         else rates 1 4 1 (1 / 10))"


definition cost_component :: "u64 \<Rightarrow> f64 \<Rightarrow> f64" where
  "cost_component tokens price_per_million =
     f64_mul (f64_div (f64_of_nat tokens) (round64 1000000)) price_per_million"

definition cost_with_pricing :: "token_usage \<Rightarrow> model_pricing \<Rightarrow> f64" where
  "cost_with_pricing usage pricing =
     f64_add (f64_add (f64_add
       (cost_component (input_tokens usage) (input_per_million pricing))
       (cost_component (output_tokens usage) (output_per_million pricing)))
       (cost_component (cache_write_tokens usage) (cache_write_per_million pricing)))
       (cost_component (cache_read_tokens usage) (cache_read_per_million pricing))"

definition cost_for_model_with_pricing :: "string \<Rightarrow> token_usage \<Rightarrow> model_pricing option \<Rightarrow> f64" where
  "cost_for_model_with_pricing model usage configured_pricing =
     (let pricing = (case configured_pricing of Some p \<Rightarrow> p | None \<Rightarrow> pricing_for_model model)
      in cost_with_pricing usage pricing)"

definition charge_with_evidence ::
  "string \<Rightarrow> string \<Rightarrow> token_usage \<Rightarrow> model_pricing option \<Rightarrow> model_pricing_card option \<Rightarrow> f64 option \<Rightarrow> usage_charge" where
  "charge_with_evidence provider model usage legacy_pricing pricing_card provider_reported_cost =
     (let applied_pricing =
            (case pricing_card of
               Some rc \<Rightarrow> card_rates rc
             | None \<Rightarrow> (case legacy_pricing of Some p \<Rightarrow> p | None \<Rightarrow> pricing_for_model model));
          calculated_cost = cost_with_pricing usage applied_pricing;
          reported = Option.bind provider_reported_cost
            (\<lambda>value. if is_finite value \<and> f64_le f64_zero value then Some value else None);
          (actual_cost, evidence) =
            (case reported of
               Some cost \<Rightarrow>
                 (Some cost,
                  Some \<lparr> pe_provider = provider, pe_model = model, pe_method = ProviderReported,
                         pe_currency = ''USD'', pe_version = ''provider-response-v1'',
                         pe_effective_at = ''response-time'', pe_source = ProviderContract,
                         pe_service_tier = TierStandard, pe_region = None,
                         pe_evidence = ''upstream usage.cost'', pe_rates = None \<rparr>)
             | None \<Rightarrow>
                 (case pricing_card of
                    Some rc \<Rightarrow>
                      (Some calculated_cost,
                       Some \<lparr> pe_provider = provider, pe_model = model, pe_method = ExactRateCard,
                              pe_currency = card_currency rc, pe_version = card_version rc,
                              pe_effective_at = card_effective_at rc, pe_source = card_source rc,
                              pe_service_tier = card_service_tier rc, pe_region = card_region rc,
                              pe_evidence = card_evidence rc, pe_rates = Some (card_rates rc) \<rparr>)
                  | None \<Rightarrow> (None, None)))
      in \<lparr> uc_usage = usage, uc_cost_estimate = calculated_cost, uc_actual_cost = actual_cost,
           uc_billable_cost = actual_cost, uc_pricing_evidence = evidence \<rparr>)"

definition usage_header_value ::
  "(usage_charge \<Rightarrow> string result) \<Rightarrow> (string \<Rightarrow> string + 'h) \<Rightarrow>
   string \<Rightarrow> string \<Rightarrow> token_usage \<Rightarrow> model_pricing option \<Rightarrow> model_pricing_card option \<Rightarrow> f64 option \<Rightarrow> 'h result" where
  "usage_header_value to_json from_str provider model usage legacy_pricing pricing_card provider_reported_cost =
     and_then (to_json (charge_with_evidence provider model usage legacy_pricing pricing_card provider_reported_cost)) (\<lambda>text.
       case from_str text of
         Inl err \<Rightarrow> Inl (Config (''invalid usage header: '' @ err))
       | Inr header \<Rightarrow> Inr header)"

section \<open>Usage reported by providers\<close>

definition get_u64 :: "json \<Rightarrow> string list \<Rightarrow> u64" where
  "get_u64 value names =
     (case List.map_filter (\<lambda>field. Option.bind (json_get value field) as_u64) names of
        n # _ \<Rightarrow> n | [] \<Rightarrow> 0)"

fun follow :: "json \<Rightarrow> string list \<Rightarrow> json" where
  "follow current [] = current"
| "follow current (segment # path) =
     (case json_get current segment of None \<Rightarrow> JNull | Some next \<Rightarrow> follow next path)"

fun get_nested_u64 :: "json \<Rightarrow> string list list \<Rightarrow> u64" where
  "get_nested_u64 value [] = 0"
| "get_nested_u64 value (path # paths) =
     (case as_u64 (follow value path) of Some n \<Rightarrow> n | None \<Rightarrow> get_nested_u64 value paths)"

definition no_tokens :: token_usage where
  "no_tokens = \<lparr> input_tokens = 0, output_tokens = 0, cache_write_tokens = 0, cache_read_tokens = 0 \<rparr>"

definition openai_usage :: "json \<Rightarrow> token_usage" where
  "openai_usage response =
     (case json_get response ''usage'' of
        None \<Rightarrow> no_tokens
      | Some usage \<Rightarrow>
          (let prompt_tokens = get_u64 usage [''prompt_tokens'', ''input_tokens''];
               completion = get_u64 usage [''completion_tokens'', ''output_tokens''];
               deepseek_cache_hit = get_u64 usage [''prompt_cache_hit_tokens''];
               deepseek_cache_miss = get_u64 usage [''prompt_cache_miss_tokens''];
               cached_tokens = get_nested_u64 usage
                 [[''prompt_tokens_details'', ''cached_tokens''], [''input_tokens_details'', ''cached_tokens'']];
               cache_read = max deepseek_cache_hit cached_tokens
           in \<lparr> input_tokens = (if deepseek_cache_miss > 0 then deepseek_cache_miss else prompt_tokens - cache_read),
                output_tokens = completion,
                cache_write_tokens =
                  max (get_u64 usage [''cache_creation_input_tokens'', ''prompt_cache_write_tokens''])
                      (get_nested_u64 usage
                        [[''prompt_tokens_details'', ''cache_write_tokens''],
                         [''input_tokens_details'', ''cache_write_tokens'']]),
                cache_read_tokens = cache_read \<rparr>))"

definition contains_any :: "(string \<times> json) list \<Rightarrow> string list \<Rightarrow> bool" where
  "contains_any usage names = list_ex (\<lambda>field. bt_get usage field \<noteq> None) names"

definition openai_usage_if_present :: "json \<Rightarrow> token_usage option" where
  "openai_usage_if_present response =
     Option.bind (Option.bind (json_get response ''usage'') as_object) (\<lambda>usage.
       if contains_any usage
            [''prompt_tokens'', ''input_tokens'', ''completion_tokens'', ''output_tokens'',
             ''prompt_cache_hit_tokens'', ''prompt_cache_miss_tokens'', ''cache_creation_input_tokens'',
             ''prompt_cache_write_tokens'', ''prompt_tokens_details'', ''input_tokens_details'']
       then Some (openai_usage response) else None)"

definition anthropic_usage :: "json \<Rightarrow> token_usage" where
  "anthropic_usage response =
     (case json_get response ''usage'' of
        None \<Rightarrow> no_tokens
      | Some usage \<Rightarrow>
          \<lparr> input_tokens = get_u64 usage [''input_tokens''],
            output_tokens = get_u64 usage [''output_tokens''],
            cache_write_tokens = get_u64 usage [''cache_creation_input_tokens''],
            cache_read_tokens = get_u64 usage [''cache_read_input_tokens''] \<rparr>)"

definition anthropic_usage_if_present :: "json \<Rightarrow> token_usage option" where
  "anthropic_usage_if_present response =
     Option.bind (Option.bind (json_get response ''usage'') as_object) (\<lambda>usage.
       if contains_any usage [''input_tokens'', ''output_tokens'', ''cache_creation_input_tokens'', ''cache_read_input_tokens'']
       then Some (anthropic_usage response) else None)"

definition openai_reported_cost :: "json \<Rightarrow> f64 option" where
  "openai_reported_cost response =
     Option.bind (Option.bind (Option.bind (json_get response ''usage'') (\<lambda>u. json_get u ''cost'')) as_f64)
       (\<lambda>value. if is_finite value \<and> f64_le f64_zero value then Some value else None)"

section \<open>Quota units\<close>

record usage_estimate =
  ue_input_tokens :: u64
  ue_output_tokens :: u64
  ue_cache_write_tokens :: u64
  ue_cache_read_tokens :: u64
  ue_cost_estimate :: f64
  ue_actual_cost :: "f64 option"
  ue_billable_cost :: "f64 option"

definition quota_increment :: "string \<Rightarrow> usage_estimate \<Rightarrow> f64" where
  "quota_increment quota_type estimate =
     (if quota_type = ''requests'' then round64 1
      else if quota_type = ''tokens''
      then f64_of_nat (sat_add (sat_add (sat_add (ue_input_tokens estimate) (ue_output_tokens estimate))
             (ue_cache_write_tokens estimate)) (ue_cache_read_tokens estimate))
      else if quota_type = ''cost'' then ue_cost_estimate estimate
      else f64_zero)"

section \<open>Costs are ordered\<close>

definition sane_rate :: "f64 \<Rightarrow> bool" where
  "sane_rate p \<longleftrightarrow> is_finite p \<and> nonneg p"

definition sane_rates :: "model_pricing \<Rightarrow> bool" where
  "sane_rates p \<longleftrightarrow> sane_rate (input_per_million p) \<and> sane_rate (output_per_million p)
     \<and> sane_rate (cache_write_per_million p) \<and> sane_rate (cache_read_per_million p)"

lemma bad_rate_iff: "bad_rate x \<longleftrightarrow> \<not> sane_rate x"
  by (cases x) (auto simp: bad_rate_def sane_rate_def f64_zero_def not_less)

lemma million: "round64 1000000 = Fin 1000000"
  using f64_of_nat_exact [of 1000000] by (simp add: f64_of_nat_def)

lemma round64_bounded: "0 \<le> r \<Longrightarrow> r \<le> of_nat n \<Longrightarrow> n < 2 ^ 53 \<Longrightarrow> sane_rate (round64 r)"
  using round64_le [of r "of_nat n"] f64_of_nat_exact [of n] nonneg_round64 [of r]
    f64_le_finite_bound [of "round64 r"]
  by (simp add: f64_of_nat_def sane_rate_def)

lemma u64_as_f64: "n \<le> u64_max \<Longrightarrow> \<exists>a. f64_of_nat n = Fin a \<and> 0 \<le> a \<and> a \<le> pow2 64"
proof -
  assume "n \<le> u64_max"
  then have "(of_nat n :: rat) \<le> of_nat u64_max" by simp
  also have "\<dots> \<le> pow2 64" by (simp add: u64_max_def pow2_def)
  finally show ?thesis unfolding f64_of_nat_def by (intro round64_below) simp_all
qed

lemma per_million_mono:
  assumes "m \<le> n" "n \<le> u64_max"
  shows "is_finite (f64_div (f64_of_nat n) (round64 1000000)) \<and> nonneg (f64_div (f64_of_nat m) (round64 1000000))
    \<and> f64_le (f64_div (f64_of_nat m) (round64 1000000)) (f64_div (f64_of_nat n) (round64 1000000))"
proof -
  obtain a b where ab: "f64_of_nat m = Fin a" "0 \<le> a" "f64_of_nat n = Fin b" "0 \<le> b" "b \<le> pow2 64"
    using u64_as_f64 [of m] u64_as_f64 [of n] assms by auto
  have le: "a \<le> b" using round64_le [of "of_nat m" "of_nat n"] assms ab by (simp add: f64_of_nat_def)
  have "b / 1000000 \<le> b / 1" using ab(4) by (intro divide_left_mono) simp_all
  then have "is_finite (round64 (b / 1000000))" using round64_below [of "b / 1000000" 64] ab(4,5) by auto
  then show ?thesis using ab le by (simp add: million nonneg_round64 round64_le divide_right_mono)
qed

lemma cost_component_mono:
  assumes "m \<le> n" "n \<le> u64_max" "sane_rate p"
  shows "nonneg (cost_component m p)" "f64_le (cost_component m p) (cost_component n p)"
  using per_million_mono [OF assms(1,2)] per_million_mono [of m m] assms
  by (auto simp: cost_component_def sane_rate_def intro!: f64_mul_nonneg f64_mul_mono)

definition usage_le :: "token_usage \<Rightarrow> token_usage \<Rightarrow> bool" where
  "usage_le u v \<longleftrightarrow> input_tokens u \<le> input_tokens v \<and> output_tokens u \<le> output_tokens v
     \<and> cache_write_tokens u \<le> cache_write_tokens v \<and> cache_read_tokens u \<le> cache_read_tokens v"

definition usage_wf :: "token_usage \<Rightarrow> bool" where
  "usage_wf u \<longleftrightarrow> input_tokens u \<le> u64_max \<and> output_tokens u \<le> u64_max
     \<and> cache_write_tokens u \<le> u64_max \<and> cache_read_tokens u \<le> u64_max"

lemma cost_with_pricing_mono:
  assumes "usage_le u v" "usage_wf v" "sane_rates p"
  shows "nonneg (cost_with_pricing u p)" "f64_le (cost_with_pricing u p) (cost_with_pricing v p)"
  using assms unfolding cost_with_pricing_def usage_le_def usage_wf_def sane_rates_def
  by (auto intro!: f64_add_nonneg f64_add_mono cost_component_mono simp: cost_component_mono)

text \<open>The built-in table has sane rates for every model.\<close>

lemma rates_sane: "0 \<le> i \<Longrightarrow> i \<le> 100 \<Longrightarrow> 0 \<le> u \<Longrightarrow> u \<le> 100 \<Longrightarrow> 0 \<le> w \<Longrightarrow> w \<le> 100 \<Longrightarrow> 0 \<le> r \<Longrightarrow> r \<le> 100 \<Longrightarrow>
  sane_rates (rates i u w r)"
  using round64_bounded [of _ 100] by (simp add: sane_rates_def rates_def)

lemma sane_rates_if: "sane_rates a \<Longrightarrow> sane_rates b \<Longrightarrow> sane_rates (if c then a else b)"
  by simp

lemma pricing_for_model_sane: "sane_rates (pricing_for_model model)"
  unfolding pricing_for_model_def Let_def by (intro sane_rates_if rates_sane) simp_all

section \<open>Accepted rate cards\<close>

lemma rate_card_max_day_real:
  "rate_card_max_day y m = Some d \<Longrightarrow> 1 \<le> m \<and> m \<le> 12 \<and> int d = days_in_month (int y) (int m)"
proof -
  assume max: "rate_card_max_day y m = Some d"
  have leap: "leap_year (int y) \<longleftrightarrow> 4 dvd y \<and> (\<not> 100 dvd y \<or> 400 dvd y)"
  proof -
    have "int y mod int k = 0 \<longleftrightarrow> k dvd y" for k
      by (metis mod_eq_0_iff_dvd of_nat_dvd_iff)
    from this [of 4] this [of 100] this [of 400] show ?thesis by (simp add: leap_year_def)
  qed
  from max have "m \<in> {1, 3, 5, 7, 8, 10, 12} \<and> d = 31 \<or> m \<in> {4, 6, 9, 11} \<and> d = 30
      \<or> m = 2 \<and> d = (if leap_year (int y) then 29 else 28)"
    unfolding rate_card_max_day_def Let_def leap by (simp split: if_splits)
  then show ?thesis by (auto simp: days_in_month_def)
qed

definition real_date :: "nat \<Rightarrow> nat \<Rightarrow> nat \<Rightarrow> bool" where
  "real_date y m d \<longleftrightarrow> 1 \<le> m \<and> m \<le> 12 \<and> 1 \<le> d \<and> int d \<le> days_in_month (int y) (int m)"

lemma rate_card_timestamp_real:
  assumes "valid_utc_rate_card_timestamp v"
  shows "\<exists>y m d. parse_uint u32_max (take 4 v) = Some y \<and> parse_uint u32_max (take 2 (drop 5 v)) = Some m
     \<and> parse_uint u32_max (take 2 (drop 8 v)) = Some d \<and> real_date y m d"
  using assms
  by (auto simp: valid_utc_rate_card_timestamp_def rate_card_fields_valid_def real_date_def slice_def Let_def
      dest!: rate_card_max_day_real split: if_splits option.splits)

text \<open>
  C17: a rate card that passes validation prices an exact model of its provider, in dollars, from a
  billable source, from a date that exists in the calendar on; and under it, as under the built-in
  table, a cost is a number, never negative, and never falls when more tokens are used.
\<close>

theorem accepted_rate_card:
  assumes "validate_model_pricing_card model allowed rc = Inr ()" "usage_le u v" "usage_wf v"
  shows "model \<in> set allowed \<and> card_currency rc = ''USD'' \<and> card_source rc \<noteq> LegacyEstimate
    \<and> card_service_tier rc = TierStandard
    \<and> (\<exists>y m d. parse_uint u32_max (take 4 (card_effective_at rc)) = Some y
         \<and> parse_uint u32_max (take 2 (drop 5 (card_effective_at rc))) = Some m
         \<and> parse_uint u32_max (take 2 (drop 8 (card_effective_at rc))) = Some d \<and> real_date y m d)
    \<and> nonneg (cost_with_pricing u (card_rates rc))
    \<and> f64_le (cost_with_pricing u (card_rates rc)) (cost_with_pricing v (card_rates rc))
    \<and> nonneg (cost_for_model_with_pricing any u None)
    \<and> f64_le (cost_for_model_with_pricing any u None) (cost_for_model_with_pricing any v None)"
proof -
  have ok: "model \<in> set allowed" "sane_rates (card_rates rc)" "card_currency rc = ''USD''"
      "card_source rc \<noteq> LegacyEstimate" "card_service_tier rc = TierStandard"
      "valid_utc_rate_card_timestamp (card_effective_at rc)"
    using assms(1) by (auto simp: validate_model_pricing_card_def result_iffs bad_rate_iff sane_rates_def
        list_ex_iff split: if_splits)
  show ?thesis
    using ok(1,3-5) rate_card_timestamp_real [OF ok(6)] cost_with_pricing_mono [OF assms(2,3)] ok(2) pricing_for_model_sane
    by (simp add: cost_for_model_with_pricing_def)
qed

definition sample_card :: model_pricing_card where
  "sample_card =
     \<lparr> card_rates = \<lparr> input_per_million = Fin 3, output_per_million = Fin 15,
                      cache_write_per_million = Fin (15 / 4), cache_read_per_million = Fin (1 / 4) \<rparr>,
       card_version = ''2026-02'', card_effective_at = ''2026-02-28T00:00:00Z'', card_currency = ''USD'',
       card_source = ProviderPublished, card_service_tier = TierStandard, card_region = None,
       card_evidence = ''list'' \<rparr>"

definition sample_usage :: token_usage where
  "sample_usage = \<lparr> input_tokens = 1000000, output_tokens = 2, cache_write_tokens = 0, cache_read_tokens = 0 \<rparr>"

lemmas timestamp_defs = valid_utc_rate_card_timestamp_def rate_card_fields_valid_def rate_card_max_day_def byte_at_def
  slice_def parse_uint_def digits_value_def digit_val_def char_class_defs ends_with_def starts_with_def u32_max_def Let_def

lemma sample_timestamp: "valid_utc_rate_card_timestamp ''2026-02-28T00:00:00Z''"
  by (simp add: timestamp_defs)

lemma sample_card_accepted: "validate_model_pricing_card ''m'' [''m''] sample_card = Inr ()"
proof -
  have "trim ''m'' = ''m''" "trim ''2026-02'' = ''2026-02''" "trim ''list'' = ''list''" by (simp_all add: graphic_literal)
  then show ?thesis
    using sample_timestamp
    by (simp add: validate_model_pricing_card_def sample_card_def bad_rate_def f64_zero_def char_class_defs)
qed

theorem accepted_rate_card_witness:
  "validate_model_pricing_card ''m'' [''m''] sample_card = Inr ()
   \<and> nonneg (cost_with_pricing sample_usage (card_rates sample_card))
   \<and> f64_le (cost_with_pricing sample_usage (card_rates sample_card))
            (cost_with_pricing (sample_usage\<lparr> output_tokens := 3 \<rparr>) (card_rates sample_card))"
  using accepted_rate_card [OF sample_card_accepted, of sample_usage "sample_usage\<lparr> output_tokens := 3 \<rparr>"]
    sample_card_accepted
  by (simp add: usage_le_def usage_wf_def sample_usage_def u64_max_def)

text \<open>The number fields go through \<open>str::parse\<close>, which takes a leading plus sign.\<close>

lemma signed_timestamp_accepted: "valid_utc_rate_card_timestamp ''+999-+1-+1T+1:+1:+1Z''"
  by (simp add: timestamp_defs)

section \<open>Charges\<close>

text \<open>
  C16: an estimate never becomes a charge.  The billable amount is the actual cost; it exists exactly
  when there is pricing evidence for this provider and model, and evidence exists exactly when the
  provider reported a finite non-negative cost, which is then the amount, or a rate card was
  configured, whose rates then determine it and whose version is recorded.
\<close>

theorem charge_needs_evidence:
  "let c = charge_with_evidence provider model usage legacy rc reported;
       valid = Option.bind reported (\<lambda>v. if sane_rate v then Some v else None)
   in uc_billable_cost c = uc_actual_cost c
      \<and> (case uc_pricing_evidence c of
           None \<Rightarrow> uc_billable_cost c = None \<and> valid = None \<and> rc = None
         | Some e \<Rightarrow> pe_provider e = provider \<and> pe_model e = model
             \<and> (case pe_method e of
                  ProviderReported \<Rightarrow> valid \<noteq> None \<and> uc_billable_cost c = valid
                | ExactRateCard \<Rightarrow> valid = None \<and>
                    (case rc of
                       None \<Rightarrow> False
                     | Some k \<Rightarrow> uc_billable_cost c = Some (cost_with_pricing usage (card_rates k))
                         \<and> pe_rates e = Some (card_rates k) \<and> pe_version e = card_version k)))"
proof -
  have s: "is_finite v \<and> f64_le f64_zero v \<longleftrightarrow> sane_rate v" for v
    by (cases v) (auto simp: sane_rate_def f64_zero_def f64_le_def)
  show ?thesis
    by (cases reported; cases rc)
      (simp_all add: charge_with_evidence_def Let_def s)
qed

end
