(* ===== verification/Provider_Pool.thy ===== *)
theory Provider_Pool
  imports Provider_Config Egress_Policy
begin

text \<open>
  Provider health and credential pools: \<^verbatim>\<open>src/provider_status.rs\<close>,
  \<^verbatim>\<open>src/provider_credentials.rs\<close> and the operations of \<^verbatim>\<open>src/control.rs\<close> on them.  The record
  \<open>pool\<close> holds the fields of \<open>ControlInner\<close> these operations read and write; an operation maps it
  to a result and a new record, as the closures that \<open>save_or_restore_locked\<close> runs do.  The clock,
  the process environment and the URL parser are arguments.  Health and test records leave out the
  identifiers that repeat the key they are stored under.
\<close>

section \<open>Failure classification\<close>

definition normalized_error_text :: "string option \<Rightarrow> string" where
  "normalized_error_text error = to_ascii_lowercase (case error of Some e \<Rightarrow> e | None \<Rightarrow> [])"

definition provider_account_issue :: "nat option \<Rightarrow> string option \<Rightarrow> string" where
  "provider_account_issue code error =
     (let normalized = normalized_error_text error
      in if list_ex (\<lambda>marker. contains marker normalized) balance_markers then ''insufficient_balance''
         else if code = Some 401 \<or> code = Some 403 then ''auth''
         else ''none'')"

definition provider_failure_guidance :: "nat option \<Rightarrow> string option \<Rightarrow> string \<times> string" where
  "provider_failure_guidance code error =
     (let normalized = normalized_error_text error
      in if provider_account_issue code error = ''insufficient_balance''
         then (''account'', utf8 [228, 184, 138, 230, 184, 184, 232, 180, 166, 229, 143, 183, 228, 189, 153,
                    233, 162, 157, 228, 184, 141, 232, 182, 179, 239, 188, 140, 232, 175, 183, 228,
                    184, 186, 232, 175, 165, 230, 184, 160, 233, 129, 147, 229, 133, 133, 229, 128,
                    188, 229, 144, 142, 233, 135, 141, 232, 175, 149, 239, 188, 140, 230, 136, 150,
                    229, 136, 135, 230, 141, 162, 229, 136, 176, 229, 143, 166, 228, 184, 128, 228,
                    184, 170, 232, 180, 166, 229, 143, 183] @ ''/Provider'' @ utf8 [227, 128, 130])
         else if code = Some 401 \<or> code = Some 403
         then (''account'', utf8 [230, 163, 128, 230, 159, 165, 228, 184, 138, 230, 184, 184] @ '' API Key''
                    @ utf8 [227, 128, 129, 232, 180, 166, 229, 143, 183, 230, 157, 131, 233, 153,
                    144, 230, 136, 150, 228, 189, 153, 233, 162, 157, 239, 188, 140, 229, 191, 133,
                    232, 166, 129, 230, 151, 182, 229, 136, 135, 230, 141, 162, 232, 180, 166, 229,
                    143, 183, 227, 128, 130])
         else if code = Some 429 \<or> contains ''rate limit'' normalized
         then (''rate_limit'', utf8 [228, 184, 138, 230, 184, 184, 233, 153, 144, 230, 181, 129, 228, 184, 173,
                    239, 188, 140, 229, 143, 175, 231, 173, 137, 229, 190, 133, 229, 134, 183, 229,
                    141, 180, 227, 128, 129, 233, 153, 141, 228, 189, 142, 230, 181, 129, 233, 135,
                    143, 230, 136, 150, 229, 136, 135, 230, 141, 162, 232, 180, 166, 229, 143, 183,
                    227, 128, 130])
         else if contains ''missing'' normalized \<or> contains ''api key'' normalized
         then (''config'', utf8 [230, 163, 128, 230, 159, 165] @ '' Provider '' @ utf8 [229, 135, 173, 232,
                    175, 129, 231, 142, 175, 229, 162, 131, 229, 143, 152, 233, 135, 143, 230, 152,
                    175, 229, 144, 166, 229, 183, 178, 233, 133, 141, 231, 189, 174, 229, 185, 182,
                    233, 135, 141, 230, 150, 176, 229, 138, 160, 232, 189, 189, 233, 133, 141, 231,
                    189, 174, 227, 128, 130])
         else if (case code of Some status \<Rightarrow> status \<ge> 500 | None \<Rightarrow> False)
         then (''upstream_unavailable'', utf8 [228, 184, 138, 230, 184, 184, 230, 156, 141, 229, 138, 161, 228, 184, 180,
                    230, 151, 182, 228, 184, 141, 229, 143, 175, 231, 148, 168, 239, 188, 140, 229,
                    143, 175, 231, 173, 137, 229, 190, 133, 230, 129, 162, 229, 164, 141, 230, 136,
                    150, 229, 136, 135, 230, 141, 162] @ '' Provider'' @ utf8 [227, 128, 130])
         else if error \<noteq> None
         then (''unknown'', utf8 [230, 159, 165, 231, 156, 139, 232, 175, 183, 230, 177, 130, 230, 151, 165,
                    229, 191, 151, 229, 146, 140, 228, 184, 138, 230, 184, 184, 233, 148, 153, 232,
                    175, 175, 232, 175, 166, 230, 131, 133, 227, 128, 130])
         else (''none'', []))"

definition should_rotate_provider_credential :: "string \<Rightarrow> bool" where
  "should_rotate_provider_credential failure_kind \<longleftrightarrow> failure_kind \<in> {''account'', ''rate_limit'', ''config''}"

definition provider_failure_can_trigger_cooldown :: "string \<Rightarrow> bool" where
  "provider_failure_can_trigger_cooldown failure_kind \<longleftrightarrow>
     failure_kind \<in> {''account'', ''rate_limit'', ''config'', ''upstream_unavailable''}"

definition ACCOUNT_ISSUE_CREDENTIAL_COOLDOWN_SECONDS :: nat where
  "ACCOUNT_ISSUE_CREDENTIAL_COOLDOWN_SECONDS = 30 * 60"

definition cooldown_seconds :: "u32 \<Rightarrow> u64" where
  "cooldown_seconds consecutive_failures =
     (if consecutive_failures \<in> {0, 1} then 30
      else if consecutive_failures \<in> {2, 3} then 60
      else if consecutive_failures \<in> {4, 5} then 180
      else 300)"

definition credential_cooldown_seconds :: "string \<Rightarrow> u32 \<Rightarrow> u64" where
  "credential_cooldown_seconds failure_kind consecutive_failures =
     (let base = cooldown_seconds consecutive_failures
      in if failure_kind = ''account'' then max base ACCOUNT_ISSUE_CREDENTIAL_COOLDOWN_SECONDS else base)"

section \<open>Validation of submitted credentials\<close>

definition validate_provider_credential_id :: "string \<Rightarrow> string result" where
  "validate_provider_credential_id value =
     (let normalized = to_ascii_lowercase (trim value)
      in if normalized = [] \<or> length normalized > 80
         then Inl (InvalidRequest ''credential id must be 1-80 characters'')
         else if \<not> list_all (\<lambda>ch. is_alnum ch \<or> ch = CHR ''_'' \<or> ch = CHR ''-'') normalized
         then Inl (InvalidRequest (''credential id can only contain letters, numbers, '' @ [CHR 0x27] @ ''_'' @ [CHR 0x27] @
                '' and '' @ [CHR 0x27] @ ''-'' @ [CHR 0x27]))
         else Inr normalized)"

definition validate_env_name :: "string \<Rightarrow> string result" where
  "validate_env_name value =
     (let normalized = trim value
      in if normalized = [] \<or> length normalized > 120
         then Inl (InvalidRequest ''apiKeyEnv must be 1-120 characters'')
         else case normalized of
                [] \<Rightarrow> Inl (InvalidRequest ''apiKeyEnv is required'')
              | first # rest \<Rightarrow>
                  if \<not> (is_alpha first \<or> first = CHR ''_'')
                  then Inl (InvalidRequest (''apiKeyEnv must start with a letter or '' @ [CHR 0x27] @ ''_'' @ [CHR 0x27]))
                  else if \<not> list_all (\<lambda>ch. is_alnum ch \<or> ch = CHR ''_'') rest
                  then Inl (InvalidRequest (''apiKeyEnv can only contain letters, numbers and '' @ [CHR 0x27] @ ''_'' @ [CHR 0x27]))
                  else Inr normalized)"

definition validate_credential_status :: "string \<Rightarrow> string result" where
  "validate_credential_status value =
     (if trim value \<in> {''active'', ''disabled''} then Inr (trim value)
      else Inl (InvalidRequest ''credential status must be active or disabled''))"

definition validate_credential_pool_mode :: "string \<Rightarrow> string result" where
  "validate_credential_pool_mode value =
     (if trim value \<in> {''manual'', ''failover'', ''round_robin''} then Inr (trim value)
      else Inl (InvalidRequest ''credential pool mode must be manual, failover, or round_robin''))"

definition default_credential_pool_mode :: string where
  "default_credential_pool_mode = ''failover''"

definition validate_credential_base_url ::
  "(string \<Rightarrow> string + url) \<Rightarrow> (string \<Rightarrow> string option) \<Rightarrow> string \<Rightarrow> string option \<Rightarrow> bool \<Rightarrow> string option result" where
  "validate_credential_base_url parse_url env provider_id value allow =
     (case Option.bind value (\<lambda>v. if trim v = [] then None else Some (trim v)) of
        None \<Rightarrow> Inr None
      | Some base_url \<Rightarrow>
          if \<not> starts_with ''http://'' base_url \<and> \<not> starts_with ''https://'' base_url
          then Inl (InvalidRequest ''baseUrl must start with http:// or https://'')
          else and_then (validate_provider_base_url_for_request parse_url env provider_id base_url allow)
                 (\<lambda>_. Inr (Some base_url)))"

definition validate_provider_id :: "string \<Rightarrow> string result" where
  "validate_provider_id value =
     (let v = to_ascii_lowercase (trim value)
      in if v = [] \<or> length v > 80
            \<or> \<not> list_all (\<lambda>ch. is_lower ch \<or> is_digit ch \<or> ch = CHR ''-'' \<or> ch = CHR ''_'') v
         then Inl (InvalidRequest ''provider id may only contain lowercase letters, numbers, dashes, and underscores'')
         else Inr v)"

definition validate_non_empty :: "string \<Rightarrow> string \<Rightarrow> nat \<Rightarrow> string result" where
  "validate_non_empty field value max_len =
     (if trim value = [] \<or> length (trim value) > max_len
      then Inl (InvalidRequest (field @ '' must be 1-'' @ show_nat max_len @ '' characters''))
      else Inr (trim value))"

section \<open>State\<close>

record credential =
  cr_id :: string
  cr_provider_id :: string
  cr_name :: string
  cr_api_key_env :: string
  cr_base_url :: "string option"
  cr_status :: string
  cr_created_at_ms :: u64
  cr_updated_at_ms :: u64

record provider_health =
  ph_requests_total :: u64
  ph_successes_total :: u64
  ph_failures_total :: u64
  ph_consecutive_failures :: u32
  ph_last_success_at_ms :: "u64 option"
  ph_last_failure_at_ms :: "u64 option"
  ph_cooldown_until_ms :: "u64 option"
  ph_last_error :: "string option"
  ph_last_status_code :: "nat option"

record credential_health = provider_health +
  pch_last_used_at_ms :: "u64 option"

record provider_test =
  pt_tested_at_ms :: u64
  pt_success :: bool
  pt_message :: string
  pt_tested_credential_id :: "string option"
  pt_discovered_models :: "string list"

record pool =
  pool_credentials :: "(string, (string, credential) btree) btree"
  pool_active :: "(string, string) btree"
  pool_modes :: "(string, string) btree"
  pool_health :: "(string, provider_health) btree"
  pool_credential_health :: "(string, (string, credential_health) btree) btree"
  pool_tests :: "(string, provider_test) btree"

definition empty_pool :: pool where
  "empty_pool = \<lparr> pool_credentials = [], pool_active = [], pool_modes = [], pool_health = [],
                  pool_credential_health = [], pool_tests = [] \<rparr>"

definition new_health :: provider_health where
  "new_health = \<lparr> ph_requests_total = 0, ph_successes_total = 0, ph_failures_total = 0,
     ph_consecutive_failures = 0, ph_last_success_at_ms = None, ph_last_failure_at_ms = None,
     ph_cooldown_until_ms = None, ph_last_error = None, ph_last_status_code = None \<rparr>"

definition new_credential_health :: credential_health where
  "new_credential_health = provider_health.extend new_health \<lparr> pch_last_used_at_ms = None \<rparr>"

text \<open>\<open>map.entry(k).or_default()\<close> on the maps of maps.\<close>

definition sub_map :: "(string, (string, 'v) btree) btree \<Rightarrow> string \<Rightarrow> (string, 'v) btree" where
  "sub_map m k = (case bt_get m k of Some sub \<Rightarrow> sub | None \<Rightarrow> [])"

section \<open>Recording outcomes\<close>

definition truncated_error :: "string option \<Rightarrow> nat \<Rightarrow> string option" where
  "truncated_error error_message code =
     (case error_message of
        Some value \<Rightarrow> Some (take_chars 240 value)
      | None \<Rightarrow> Some (''HTTP '' @ show_nat code))"

definition update_health ::
  "bool \<Rightarrow> nat \<Rightarrow> string option \<Rightarrow> string \<Rightarrow> u64 \<Rightarrow> (nat \<Rightarrow> u64 option \<Rightarrow> u64 option) \<Rightarrow>
   'a provider_health_scheme \<Rightarrow> 'a provider_health_scheme" where
  "update_health success code error_message failure_kind now cooldown h =
     (let h = h\<lparr> ph_requests_total := sat_add (ph_requests_total h) 1 \<rparr>
      in if success
         then h\<lparr> ph_successes_total := sat_add (ph_successes_total h) 1, ph_consecutive_failures := 0,
                 ph_last_success_at_ms := Some now, ph_cooldown_until_ms := None, ph_last_error := None,
                 ph_last_status_code := Some code \<rparr>
         else let failures = (if provider_failure_can_trigger_cooldown failure_kind
                              then sat_add32 (ph_consecutive_failures h) 1 else 0)
              in h\<lparr> ph_failures_total := sat_add (ph_failures_total h) 1, ph_consecutive_failures := failures,
                    ph_last_failure_at_ms := Some now, ph_last_status_code := Some code,
                    ph_last_error := truncated_error error_message code,
                    ph_cooldown_until_ms := cooldown failures (ph_cooldown_until_ms h) \<rparr>)"

definition record_provider_health_locked ::
  "string \<Rightarrow> bool \<Rightarrow> nat \<Rightarrow> string option \<Rightarrow> u64 \<Rightarrow> pool \<Rightarrow> string \<times> pool" where
  "record_provider_health_locked provider_id success code error_message now inner =
     (let failure_kind = fst (provider_failure_guidance (Some code) error_message);
          health = (case bt_get (pool_health inner) provider_id of Some h \<Rightarrow> h | None \<Rightarrow> new_health);
          cooldown = (\<lambda>failures old.
            if provider_failure_can_trigger_cooldown failure_kind
               \<and> (failures \<ge> 3 \<or> code = 429 \<or> code \<ge> 500)
            then Some (sat_add now (sat_mul (cooldown_seconds failures) 1000)) else old)
      in (failure_kind,
          inner\<lparr> pool_health := bt_insert provider_id
            (update_health success code error_message failure_kind now cooldown health) (pool_health inner) \<rparr>))"

definition record_provider_credential_health_locked ::
  "string \<Rightarrow> string \<Rightarrow> bool \<Rightarrow> nat \<Rightarrow> string option \<Rightarrow> string \<Rightarrow> u64 \<Rightarrow> pool \<Rightarrow> pool" where
  "record_provider_credential_health_locked provider_id credential_id success code error_message failure_kind now inner =
     (let rows = sub_map (pool_credential_health inner) provider_id;
          health = (case bt_get rows credential_id of Some h \<Rightarrow> h | None \<Rightarrow> new_credential_health);
          cooldown = (\<lambda>failures old.
            if provider_failure_can_trigger_cooldown failure_kind
               \<and> (should_rotate_provider_credential failure_kind \<or> failures \<ge> 3)
            then Some (sat_add now (sat_mul (credential_cooldown_seconds failure_kind failures) 1000)) else old);
          health = (update_health success code error_message failure_kind now cooldown health)
                     \<lparr> pch_last_used_at_ms := Some now \<rparr>
      in inner\<lparr> pool_credential_health :=
            bt_insert provider_id (bt_insert credential_id health rows) (pool_credential_health inner) \<rparr>)"

section \<open>Selection\<close>

definition provider_credential_is_usable ::
  "(string \<Rightarrow> string option) \<Rightarrow> credential \<Rightarrow> (string, credential_health) btree option \<Rightarrow> u64 \<Rightarrow> bool" where
  "provider_credential_is_usable env credential health now \<longleftrightarrow>
     cr_status credential \<noteq> ''disabled''
     \<and> (case env (cr_api_key_env credential) of Some v \<Rightarrow> trim v \<noteq> [] | None \<Rightarrow> False)
     \<and> (case Option.bind (Option.bind health (\<lambda>h. bt_get h (cr_id credential))) ph_cooldown_until_ms of
          None \<Rightarrow> True | Some until \<Rightarrow> until \<le> now)"

definition usable_credentials :: "(string \<Rightarrow> string option) \<Rightarrow> string \<Rightarrow> u64 \<Rightarrow> (string, credential) btree \<Rightarrow> pool \<Rightarrow> credential list" where
  "usable_credentials env provider_id now credentials inner =
     filter (\<lambda>c. provider_credential_is_usable env c (bt_get (pool_credential_health inner) provider_id) now)
       (bt_values credentials)"

definition has_usable_provider_credential_locked :: "(string \<Rightarrow> string option) \<Rightarrow> string \<Rightarrow> u64 \<Rightarrow> pool \<Rightarrow> bool" where
  "has_usable_provider_credential_locked env provider_id now inner =
     (case bt_get (pool_credentials inner) provider_id of
        None \<Rightarrow> False
      | Some credentials \<Rightarrow>
          list_ex (\<lambda>c. provider_credential_is_usable env c (bt_get (pool_credential_health inner) provider_id) now)
            (bt_values credentials))"

definition provider_credential_pool_mode_locked :: "pool \<Rightarrow> string \<Rightarrow> string" where
  "provider_credential_pool_mode_locked inner provider_id =
     (case bt_get (pool_modes inner) provider_id of Some mode \<Rightarrow> mode | None \<Rightarrow> ''failover'')"

definition next_after :: "credential list \<Rightarrow> string \<Rightarrow> credential option" where
  "next_after candidates current_id =
     List.find (\<lambda>c. cr_id c \<noteq> current_id)
       (drop 1 (dropWhile (\<lambda>c. cr_id c \<noteq> current_id) candidates) @ candidates)"

definition first_of_list :: "'a list \<Rightarrow> 'a option" where
  "first_of_list xs = (case xs of [] \<Rightarrow> None | x # _ \<Rightarrow> Some x)"

definition or_else :: "'a option \<Rightarrow> 'a option \<Rightarrow> 'a option" where
  "or_else x y = (case x of Some v \<Rightarrow> Some v | None \<Rightarrow> y)"

definition round_robin_provider_credential :: "credential list \<Rightarrow> string option \<Rightarrow> credential option" where
  "round_robin_provider_credential candidates current_id =
     (if candidates = [] then None
      else case current_id of
             None \<Rightarrow> first_of_list candidates
           | Some i \<Rightarrow> or_else (next_after candidates i) (first_of_list candidates))"

definition fallback_credential :: "(string, credential) btree \<Rightarrow> string option \<Rightarrow> credential option" where
  "fallback_credential credentials active_id =
     or_else
       (Option.bind (Option.bind active_id (bt_get credentials))
          (\<lambda>c. if cr_status c \<noteq> ''disabled'' then Some c else None))
       (List.find (\<lambda>c. cr_status c \<noteq> ''disabled'') (bt_values credentials))"

definition choose_credential ::
  "string \<Rightarrow> (string, credential) btree \<Rightarrow> string option \<Rightarrow> credential list \<Rightarrow> credential option" where
  "choose_credential mode credentials active_id available =
     (if mode = ''manual'' then fallback_credential credentials active_id
      else if mode = ''round_robin''
      then or_else (round_robin_provider_credential available active_id) (first_of_list available)
      else or_else (Option.bind active_id (\<lambda>i. List.find (\<lambda>c. cr_id c = i) available)) (first_of_list available))"

definition select_provider_credential_locked ::
  "(string \<Rightarrow> string option) \<Rightarrow> string \<Rightarrow> u64 \<Rightarrow> pool \<Rightarrow> credential option \<times> pool" where
  "select_provider_credential_locked env provider_id now inner =
     (let mode = provider_credential_pool_mode_locked inner provider_id;
          active_id = bt_get (pool_active inner) provider_id
      in case bt_get (pool_credentials inner) provider_id of
           None \<Rightarrow> (None, inner)
         | Some credentials \<Rightarrow>
             (let available = usable_credentials env provider_id now credentials inner;
                  selected = choose_credential mode credentials active_id available
              in case selected of
                   Some c \<Rightarrow>
                     if cr_status c \<noteq> ''disabled''
                     then (Some c, inner\<lparr> pool_active := bt_insert provider_id (cr_id c) (pool_active inner) \<rparr>)
                     else (Some c, inner)
                 | None \<Rightarrow> (None, inner)))"

definition rotate_provider_credential_locked ::
  "(string \<Rightarrow> string option) \<Rightarrow> string \<Rightarrow> u64 \<Rightarrow> pool \<Rightarrow> (string \<times> string \<times> string) option \<times> pool" where
  "rotate_provider_credential_locked env provider_id now inner =
     (case bt_get (pool_credentials inner) provider_id of
        None \<Rightarrow> (None, inner)
      | Some credentials \<Rightarrow>
          (let current_id = bt_get (pool_active inner) provider_id;
               candidates = usable_credentials env provider_id now credentials inner;
               chosen = (if candidates = [] then None
                         else case current_id of
                                Some i \<Rightarrow> next_after candidates i
                              | None \<Rightarrow> first_of_list candidates)
           in case chosen of
                None \<Rightarrow> (None, inner)
              | Some c \<Rightarrow>
                  (Some ((case current_id of Some i \<Rightarrow> i | None \<Rightarrow> ''default''), cr_id c, cr_name c),
                   inner\<lparr> pool_active := bt_insert provider_id (cr_id c) (pool_active inner) \<rparr>)))"

definition provider_credential_route_available ::
  "(string \<Rightarrow> string option) \<Rightarrow> string \<Rightarrow> u64 \<Rightarrow> pool \<Rightarrow> bool option" where
  "provider_credential_route_available env provider_id now inner =
     Option.bind (bt_get (pool_credentials inner) provider_id) (\<lambda>credentials.
       if credentials = [] then None
       else if provider_credential_pool_mode_locked inner provider_id \<noteq> ''manual''
       then Some (has_usable_provider_credential_locked env provider_id now inner)
       else Some (case fallback_credential credentials (bt_get (pool_active inner) provider_id) of
                    None \<Rightarrow> False
                  | Some c \<Rightarrow> (case env (cr_api_key_env c) of Some v \<Rightarrow> trim v \<noteq> [] | None \<Rightarrow> False)))"

definition provider_in_cooldown :: "(string \<Rightarrow> string option) \<Rightarrow> string \<Rightarrow> u64 \<Rightarrow> pool \<Rightarrow> bool" where
  "provider_in_cooldown env provider_id now inner =
     (case bt_get (pool_health inner) provider_id of
        None \<Rightarrow> False
      | Some health \<Rightarrow>
          if (case ph_cooldown_until_ms health of None \<Rightarrow> True | Some until \<Rightarrow> until \<le> now) then False
          else let mode = provider_credential_pool_mode_locked inner provider_id;
                   failure_kind = fst (provider_failure_guidance (ph_last_status_code health) (ph_last_error health));
                   can_use_pool = mode \<noteq> ''manual'' \<and> should_rotate_provider_credential failure_kind
                     \<and> has_usable_provider_credential_locked env provider_id now inner
               in \<not> can_use_pool)"

definition apply_selected_provider_credential_for_request ::
  "(string \<Rightarrow> string option) \<Rightarrow> string \<Rightarrow> provider_config \<Rightarrow> u64 \<Rightarrow> pool \<Rightarrow> (string option \<times> provider_config) result \<times> pool" where
  "apply_selected_provider_credential_for_request env provider_id provider now inner =
     (let has_pool = (case bt_get (pool_credentials inner) provider_id of Some c \<Rightarrow> c \<noteq> [] | None \<Rightarrow> False);
          pool_mode = provider_credential_pool_mode_locked inner provider_id
      in case select_provider_credential_locked env provider_id now inner of
           (None, inner') \<Rightarrow>
             (if has_pool
              then Inl (NotReady (''provider '' @ provider_id @ '' has no usable credential in '' @ pool_mode @ '' pool mode''))
              else Inr (None, provider), inner')
         | (Some c, inner') \<Rightarrow>
             (Inr (Some (cr_id c),
                provider\<lparr> pc_api_key_env := Some (cr_api_key_env c),
                          pc_api_key := Option.bind (env (cr_api_key_env c)) (\<lambda>v. if trim v \<noteq> [] then Some v else None),
                          pc_base_url := (case cr_base_url c of Some u \<Rightarrow> u | None \<Rightarrow> pc_base_url provider) \<rparr>), inner'))"

definition record_provider_outcome_for_credential ::
  "(string \<Rightarrow> string option) \<Rightarrow> string \<Rightarrow> string option \<Rightarrow> bool \<Rightarrow> nat \<Rightarrow> string option \<Rightarrow> u64 \<Rightarrow> pool \<Rightarrow> pool" where
  "record_provider_outcome_for_credential env provider_id credential_id success code error_message now inner =
     (let (failure_kind, inner) = record_provider_health_locked provider_id success code error_message now inner;
          inner = (case credential_id of
                     None \<Rightarrow> inner
                   | Some i \<Rightarrow> record_provider_credential_health_locked provider_id i success code
                                  error_message failure_kind now inner)
      in if success then inner
         else if provider_credential_pool_mode_locked inner provider_id \<noteq> ''manual''
                 \<and> should_rotate_provider_credential failure_kind
         then (case rotate_provider_credential_locked env provider_id now inner of
                 (Some _, inner) \<Rightarrow>
                   inner\<lparr> pool_health := bt_update provider_id (\<lambda>h. h\<lparr> ph_cooldown_until_ms := None \<rparr>) (pool_health inner) \<rparr>
               | (None, inner) \<Rightarrow> inner)
         else inner)"

section \<open>Administration\<close>

definition next_enabled_provider_credential_id :: "(string, credential) btree \<Rightarrow> string option \<Rightarrow> string option" where
  "next_enabled_provider_credential_id credentials exclude_id =
     map_option cr_id
       (List.find (\<lambda>c. cr_status c \<noteq> ''disabled'' \<and> exclude_id \<noteq> Some (cr_id c)) (bt_values credentials))"

definition set_active :: "string \<Rightarrow> string option \<Rightarrow> pool \<Rightarrow> pool" where
  "set_active provider_id next inner =
     (case next of
        Some i \<Rightarrow> inner\<lparr> pool_active := bt_insert provider_id i (pool_active inner) \<rparr>
      | None \<Rightarrow> inner\<lparr> pool_active := bt_remove provider_id (pool_active inner) \<rparr>)"

definition active_after_upsert :: "(string, credential) btree \<Rightarrow> credential \<Rightarrow> string option \<Rightarrow> string option" where
  "active_after_upsert credentials r active_id =
     (let active_id_exists = (case active_id of Some i \<Rightarrow> bt_get credentials i \<noteq> None | None \<Rightarrow> False)
      in if cr_status r = ''disabled'' \<and> active_id = Some (cr_id r)
         then next_enabled_provider_credential_id credentials (Some (cr_id r))
         else if \<not> active_id_exists then next_enabled_provider_credential_id credentials None
         else active_id)"

definition store_credential :: "u64 \<Rightarrow> credential \<Rightarrow> pool \<Rightarrow> (credential \<times> pool)" where
  "store_credential now r inner =
     (let provider_id = cr_provider_id r;
          active_id = bt_get (pool_active inner) provider_id;
          credentials = sub_map (pool_credentials inner) provider_id;
          r = r\<lparr> cr_created_at_ms := (case bt_get credentials (cr_id r) of
                    Some existing \<Rightarrow> cr_created_at_ms existing | None \<Rightarrow> now),
                 cr_updated_at_ms := now \<rparr>;
          credentials = bt_insert (cr_id r) r credentials;
          next = active_after_upsert credentials r active_id;
          inner = inner\<lparr> pool_credentials := bt_insert provider_id credentials (pool_credentials inner) \<rparr>;
          inner = set_active provider_id next inner
      in (r, inner\<lparr> pool_tests := bt_remove provider_id (pool_tests inner) \<rparr>))"

definition upsert_provider_credential ::
  "(string \<Rightarrow> string + url) \<Rightarrow> (string \<Rightarrow> string option) \<Rightarrow> u64 \<Rightarrow> credential \<Rightarrow> pool \<Rightarrow> (credential \<times> pool) result" where
  "upsert_provider_credential parse_url env now r inner =
     and_then (validate_provider_id (cr_provider_id r)) (\<lambda>provider_id.
     and_then (validate_provider_credential_id (cr_id r)) (\<lambda>cid.
     and_then (validate_non_empty ''name'' (cr_name r) 120) (\<lambda>name.
     and_then (validate_env_name (cr_api_key_env r)) (\<lambda>api_key_env.
     and_then (validate_credential_base_url parse_url env provider_id (cr_base_url r)
                 (env_flag env ''MODELPORT_ALLOW_PRIVATE_PROVIDER_URLS'')) (\<lambda>base_url.
     and_then (validate_credential_status (cr_status r)) (\<lambda>status.
       Inr (store_credential now
         (r\<lparr> cr_provider_id := provider_id, cr_id := cid, cr_name := name, cr_api_key_env := api_key_env,
             cr_base_url := base_url, cr_status := status \<rparr>) inner)))))))"

definition set_provider_credential_pool_mode :: "string \<Rightarrow> string \<Rightarrow> pool \<Rightarrow> (string \<times> pool) result" where
  "set_provider_credential_pool_mode provider_id mode inner =
     and_then (validate_provider_id provider_id) (\<lambda>provider_id.
     and_then (validate_credential_pool_mode mode) (\<lambda>mode.
       Inr (mode, inner\<lparr>
         pool_modes := (if mode = default_credential_pool_mode then bt_remove provider_id (pool_modes inner)
                        else bt_insert provider_id mode (pool_modes inner)),
         pool_tests := bt_remove provider_id (pool_tests inner) \<rparr>)))"

definition credential_missing :: "string \<Rightarrow> string \<Rightarrow> app_error" where
  "credential_missing credential_id provider_id =
     InvalidRequest (''credential '' @ credential_id @ '' does not exist for provider '' @ provider_id)"

definition set_active_provider_credential :: "string \<Rightarrow> string \<Rightarrow> pool \<Rightarrow> (credential \<times> pool) result" where
  "set_active_provider_credential provider_id credential_id inner =
     and_then (validate_provider_id provider_id) (\<lambda>provider_id.
     and_then (validate_provider_credential_id credential_id) (\<lambda>credential_id.
     and_then (ok_or (credential_missing credential_id provider_id)
                 (Option.bind (bt_get (pool_credentials inner) provider_id) (\<lambda>c. bt_get c credential_id))) (\<lambda>r.
       if cr_status r = ''disabled'' then Inl (InvalidRequest ''disabled credential cannot be selected'')
       else Inr (r, inner\<lparr>
         pool_active := bt_insert provider_id credential_id (pool_active inner),
         pool_tests := bt_remove provider_id (pool_tests inner) \<rparr>))))"

definition drop_credential :: "string \<Rightarrow> string \<Rightarrow> (string, credential) btree \<Rightarrow> pool \<Rightarrow> pool" where
  "drop_credential provider_id credential_id credentials inner =
     (let was_active = bt_get (pool_active inner) provider_id = Some credential_id;
          credentials = bt_remove credential_id credentials;
          inner = (if was_active
                   then set_active provider_id (map_option cr_id
                          (List.find (\<lambda>c. cr_status c \<noteq> ''disabled'') (bt_values credentials))) inner
                   else inner);
          inner = (if credentials = []
                   then inner\<lparr> pool_credentials := bt_remove provider_id (pool_credentials inner),
                               pool_modes := bt_remove provider_id (pool_modes inner) \<rparr>
                   else inner\<lparr> pool_credentials := bt_insert provider_id credentials (pool_credentials inner) \<rparr>);
          inner = (case bt_get (pool_credential_health inner) provider_id of
                     None \<Rightarrow> inner
                   | Some health \<Rightarrow>
                       (let health = bt_remove credential_id health
                        in inner\<lparr> pool_credential_health :=
                             (if health = [] then bt_remove provider_id (pool_credential_health inner)
                              else bt_insert provider_id health (pool_credential_health inner)) \<rparr>))
      in inner\<lparr> pool_tests := bt_remove provider_id (pool_tests inner) \<rparr>)"

definition delete_provider_credential :: "string \<Rightarrow> string \<Rightarrow> pool \<Rightarrow> (credential \<times> pool) result" where
  "delete_provider_credential provider_id credential_id inner =
     and_then (validate_provider_id provider_id) (\<lambda>provider_id.
     and_then (validate_provider_credential_id credential_id) (\<lambda>credential_id.
       case bt_get (pool_credentials inner) provider_id of
         None \<Rightarrow> Inl (credential_missing credential_id provider_id)
       | Some credentials \<Rightarrow>
           (case bt_get credentials credential_id of
              None \<Rightarrow> Inl (credential_missing credential_id provider_id)
            | Some r \<Rightarrow> Inr (r, drop_credential provider_id credential_id credentials inner))))"

definition record_provider_test_for_credential ::
  "string \<Rightarrow> bool \<Rightarrow> string \<Rightarrow> string list \<Rightarrow> string option \<Rightarrow> u64 \<Rightarrow> pool \<Rightarrow> pool" where
  "record_provider_test_for_credential provider_id success message discovered_models tested_credential_id now inner =
     inner\<lparr> pool_tests := bt_insert provider_id
       \<lparr> pt_tested_at_ms = now, pt_success = success, pt_message = message,
         pt_tested_credential_id = tested_credential_id, pt_discovered_models = discovered_models \<rparr> (pool_tests inner) \<rparr>"

definition clear_provider_tests :: "pool \<Rightarrow> pool" where
  "clear_provider_tests inner = (if pool_tests inner = [] then inner else inner\<lparr> pool_tests := [] \<rparr>)"

definition provider_discovered_models :: "pool \<Rightarrow> (string, string list) btree" where
  "provider_discovered_models inner =
     map (\<lambda>(p, r). (p, pt_discovered_models r))
       (filter (\<lambda>(_, r). pt_success r \<and> pt_discovered_models r \<noteq> []) (pool_tests inner))"

section \<open>Reachable pools\<close>

inductive pool_step :: "(string \<Rightarrow> string + url) \<Rightarrow> (string \<Rightarrow> string option) \<Rightarrow> pool \<Rightarrow> pool \<Rightarrow> bool"
  for parse_url env where
  upsert: "upsert_provider_credential parse_url env now r s = Inr (r', t) \<Longrightarrow> pool_step parse_url env s t"
| set_mode: "set_provider_credential_pool_mode p m s = Inr (m', t) \<Longrightarrow> pool_step parse_url env s t"
| activate: "set_active_provider_credential p c s = Inr (r, t) \<Longrightarrow> pool_step parse_url env s t"
| delete: "delete_provider_credential p c s = Inr (r, t) \<Longrightarrow> pool_step parse_url env s t"
| select: "apply_selected_provider_credential_for_request env p cfg now s = (res, t) \<Longrightarrow> pool_step parse_url env s t"
| outcome: "pool_step parse_url env s (record_provider_outcome_for_credential env p cid ok code msg now s)"
| test: "pool_step parse_url env s (record_provider_test_for_credential p ok msg models cid now s)"
| clear: "pool_step parse_url env s (clear_provider_tests s)"

definition enabled :: "credential \<Rightarrow> bool" where
  "enabled c \<longleftrightarrow> cr_status c \<noteq> ''disabled''"

definition credentials_wf :: "string \<Rightarrow> (string, credential) btree \<Rightarrow> bool" where
  "credentials_wf p m \<longleftrightarrow> bt_wf m \<and> (\<forall>i c. bt_get m i = Some c \<longrightarrow> cr_id c = i \<and> cr_provider_id c = p)"

definition active_wf :: "(string, credential) btree \<Rightarrow> string option \<Rightarrow> bool" where
  "active_wf m active \<longleftrightarrow>
     (case active of
        Some i \<Rightarrow> \<exists>c. bt_get m i = Some c \<and> enabled c
      | None \<Rightarrow> \<forall>i c. bt_get m i = Some c \<longrightarrow> \<not> enabled c)"

text \<open>
  Every stored credential is filed under its own provider and identifier; the active credential of
  a provider exists and is enabled, and there is one whenever an enabled credential exists.
\<close>

definition pool_wf :: "pool \<Rightarrow> bool" where
  "pool_wf s \<longleftrightarrow> (\<forall>p. credentials_wf p (sub_map (pool_credentials s) p)
     \<and> active_wf (sub_map (pool_credentials s) p) (bt_get (pool_active s) p))"

lemma sub_map_insert [simp]: "sub_map (bt_insert p m x) q = (if q = p then m else sub_map x q)"
  by (simp add: sub_map_def)

lemma sub_map_remove [simp]: "sub_map (bt_remove p x) q = (if q = p then [] else sub_map x q)"
  by (simp add: sub_map_def)

lemma find_enabled:
  assumes "bt_wf m" "\<And>i c. bt_get m i = Some c \<Longrightarrow> cr_id c = i"
  shows "active_wf m (map_option cr_id (List.find (\<lambda>c. cr_status c \<noteq> ''disabled'' \<and> P c) (bt_values m)))
     \<or> (\<exists>i c. bt_get m i = Some c \<and> enabled c \<and> \<not> P c)"
proof (cases "List.find (\<lambda>c. cr_status c \<noteq> ''disabled'' \<and> P c) (bt_values m)")
  case None
  then have "\<not> (enabled c \<and> P c)" if "bt_get m i = Some c" for i c
    using bt_values_mem [OF assms(1), of c] that by (auto simp: enabled_def find_None_iff)
  with None show ?thesis by (auto simp: active_wf_def)
next
  case (Some c)
  then have "c \<in> set (bt_values m)" "enabled c" by (auto simp: find_Some_iff enabled_def)
  then show ?thesis using Some bt_values_mem [OF assms(1)] assms(2) by (auto simp: active_wf_def)
qed

lemma enabled_choice:
  assumes "credentials_wf p m"
  shows "active_wf m (map_option cr_id (List.find (\<lambda>c. cr_status c \<noteq> ''disabled'') (bt_values m)))"
  using find_enabled [of m "\<lambda>_. True"] assms by (auto simp: credentials_wf_def)

lemma enabled_choice_except:
  assumes "credentials_wf p m" "bt_get m i = Some c" "\<not> enabled c"
  shows "active_wf m (next_enabled_provider_credential_id m (Some i))"
  using find_enabled [of m "\<lambda>c. Some i \<noteq> Some (cr_id c)"] assms
  by (auto simp: credentials_wf_def next_enabled_provider_credential_id_def)

lemma pool_wf_active: "bt_get (pool_active (set_active p a s)) q = (if q = p then a else bt_get (pool_active s) q)"
  by (simp add: set_active_def split: option.splits)

lemma set_active_credentials [simp]: "pool_credentials (set_active p a s) = pool_credentials s"
  by (simp add: set_active_def split: option.splits)

text \<open>The credential that is active after \<open>c\<close> was stored in \<open>m\<close> where \<open>a\<close> was active.\<close>

lemma next_active_wf:
  fixes c :: credential and m :: "(string, credential) btree"
  assumes "credentials_wf p (bt_insert (cr_id c) c m)" (is "credentials_wf p ?m") and "active_wf m a"
  shows "active_wf ?m (active_after_upsert ?m c a)"
proof (cases "cr_status c = ''disabled'' \<and> a = Some (cr_id c)")
  case True
  then show ?thesis using enabled_choice_except [OF assms(1), of "cr_id c" c]
    by (simp add: active_after_upsert_def enabled_def)
next
  case other: False
  show ?thesis
  proof (cases "case a of Some i \<Rightarrow> bt_get ?m i \<noteq> None | None \<Rightarrow> False")
    case True
    then show ?thesis using other assms(2)
      by (auto simp: active_after_upsert_def active_wf_def enabled_def split: option.splits)
  next
    case False
    then show ?thesis
      using other enabled_choice [OF assms(1)]
      by (auto simp: active_after_upsert_def next_enabled_provider_credential_id_def)
  qed
qed

lemma store_keeps_wf:
  assumes wf: "pool_wf s"
  shows "pool_wf (snd (store_credential now r s))"
proof -
  define m where "m = sub_map (pool_credentials s) (cr_provider_id r)"
  define c where "c = r\<lparr> cr_created_at_ms := (case bt_get m (cr_id r) of Some e \<Rightarrow> cr_created_at_ms e | None \<Rightarrow> now),
     cr_updated_at_ms := now \<rparr>"
  have c: "cr_id c = cr_id r" "cr_provider_id c = cr_provider_id r" by (simp_all add: c_def)
  have m: "credentials_wf (cr_provider_id r) m" "active_wf m (bt_get (pool_active s) (cr_provider_id r))"
    using wf by (simp_all add: pool_wf_def m_def)
  then have m': "credentials_wf (cr_provider_id r) (bt_insert (cr_id c) c m)" by (simp add: credentials_wf_def c)
  from wf m' next_active_wf [OF m' m(2)] show ?thesis
    unfolding store_credential_def Let_def m_def [symmetric] c_def [symmetric]
    by (simp add: pool_wf_def pool_wf_active c)
qed

lemma upsert_keeps_wf:
  assumes "upsert_provider_credential parse_url env now r s = Inr (r', t)" and wf: "pool_wf s"
  shows "pool_wf t"
proof -
  from assms(1) obtain c where "store_credential now c s = (r', t)"
    by (auto simp: upsert_provider_credential_def result_iffs)
  with store_keeps_wf [OF wf, of now c] show ?thesis by simp
qed

lemma set_mode_keeps_wf: "set_provider_credential_pool_mode p m s = Inr (m', t) \<Longrightarrow> pool_wf s \<Longrightarrow> pool_wf t"
  by (auto simp: set_provider_credential_pool_mode_def result_iffs pool_wf_def)

text \<open>Making an enabled credential of the provider active.\<close>

lemma activate_keeps_wf:
  assumes "pool_wf s" "bt_get (sub_map (pool_credentials s) p) i = Some c" "enabled c"
    "pool_credentials t = pool_credentials s" "pool_active t = bt_insert p i (pool_active s)"
  shows "pool_wf t"
  using assms by (simp add: pool_wf_def active_wf_def)

lemma sub_map_bind: "Option.bind (bt_get m p) (\<lambda>x. bt_get x i) = bt_get (sub_map m p) i"
  by (simp add: sub_map_def split: option.splits)

lemma set_active_keeps_wf: "set_active_provider_credential p c s = Inr (r, t) \<Longrightarrow> pool_wf s \<Longrightarrow> pool_wf t"
  by (auto simp: set_active_provider_credential_def result_iffs sub_map_bind enabled_def
      intro: activate_keeps_wf split: if_splits)

lemma drop_keeps_wf:
  assumes wf: "pool_wf s" and m: "bt_get (pool_credentials s) p = Some m"
  shows "pool_wf (drop_credential p i m s)"
proof -
  have "sub_map (pool_credentials s) p = m" using m by (simp add: sub_map_def)
  then have "credentials_wf p m" "active_wf m (bt_get (pool_active s) p)" using wf by (auto simp: pool_wf_def)
  then have m': "credentials_wf p (bt_remove i m)"
    "bt_get (pool_active s) p \<noteq> Some i \<Longrightarrow> active_wf (bt_remove i m) (bt_get (pool_active s) p)"
    by (auto simp: credentials_wf_def active_wf_def split: option.splits if_splits)
  show ?thesis
    using wf m' enabled_choice [OF m'(1)]
    by (auto simp: drop_credential_def Let_def pool_wf_def pool_wf_active split: option.splits)
qed

lemma delete_keeps_wf:
  assumes "delete_provider_credential p c s = Inr (r, t)" "pool_wf s"
  shows "pool_wf t"
proof -
  from assms(1) obtain x y where
    del: "(case bt_get (pool_credentials s) x of
             None \<Rightarrow> Inl (credential_missing y x)
           | Some m \<Rightarrow> (case bt_get m y of
                None \<Rightarrow> Inl (credential_missing y x)
              | Some r \<Rightarrow> Inr (r, drop_credential x y m s))) = Inr (r, t)"
    by (auto simp: delete_provider_credential_def and_then_Inr_iff)
  then obtain m where m: "bt_get (pool_credentials s) x = Some m" by (cases "bt_get (pool_credentials s) x") auto
  with del have "t = drop_credential x y m s" by (cases "bt_get m y") auto
  with drop_keeps_wf [OF assms(2) m] show ?thesis by simp
qed

section \<open>Selection keeps to usable credentials\<close>

definition usable :: "(string \<Rightarrow> string option) \<Rightarrow> string \<Rightarrow> u64 \<Rightarrow> pool \<Rightarrow> credential \<Rightarrow> bool" where
  "usable env p now s c \<longleftrightarrow> provider_credential_is_usable env c (bt_get (pool_credential_health s) p) now"

definition filed :: "string \<Rightarrow> credential \<Rightarrow> pool \<Rightarrow> bool" where
  "filed p c s \<longleftrightarrow> bt_get (sub_map (pool_credentials s) p) (cr_id c) = Some c"

lemma usable_enabled: "usable env p now s c \<Longrightarrow> enabled c"
  by (simp add: usable_def enabled_def provider_credential_is_usable_def)

lemma stored_filed:
  assumes "pool_wf s" "bt_get (pool_credentials s) p = Some m"
  shows "c \<in> set (bt_values m) \<longleftrightarrow> filed p c s"
proof -
  have m: "sub_map (pool_credentials s) p = m" using assms(2) by (simp add: sub_map_def)
  then have "credentials_wf p m" using assms(1) by (auto simp: pool_wf_def)
  then show ?thesis using bt_values_mem [of m c] by (auto simp: credentials_wf_def filed_def m)
qed

lemma usable_credentials_filed:
  assumes "pool_wf s" "bt_get (pool_credentials s) p = Some m"
  shows "set (usable_credentials env p now m s) = {c. filed p c s \<and> usable env p now s c}"
  using stored_filed [OF assms] by (auto simp: usable_credentials_def usable_def)

lemma find_mem: "List.find P xs = Some c \<Longrightarrow> c \<in> set xs \<and> P c"
  by (auto simp: find_Some_iff)

lemma next_after_mem: "next_after cs i = Some c \<Longrightarrow> c \<in> set cs"
  unfolding next_after_def by (auto dest!: find_mem in_set_dropD set_dropWhileD)

lemma first_of_list_mem: "first_of_list cs = Some c \<Longrightarrow> c \<in> set cs"
  by (cases cs) (auto simp: first_of_list_def)

lemma or_else_Some: "or_else x y = Some c \<longleftrightarrow> x = Some c \<or> x = None \<and> y = Some c"
  by (simp add: or_else_def split: option.splits)

lemma round_robin_mem: "round_robin_provider_credential cs a = Some c \<Longrightarrow> c \<in> set cs"
  by (auto simp: round_robin_provider_credential_def or_else_Some dest: next_after_mem first_of_list_mem
      split: if_splits option.splits)

lemma fallback_enabled:
  assumes "pool_wf s" "bt_get (pool_credentials s) p = Some m" "fallback_credential m a = Some c"
  shows "filed p c s \<and> enabled c"
proof -
  have "sub_map (pool_credentials s) p = m" using assms(2) by (simp add: sub_map_def)
  then have wf: "bt_wf m" using assms(1) by (auto simp: pool_wf_def credentials_wf_def)
  have "c \<in> set (bt_values m) \<and> enabled c \<or> (\<exists>i. bt_get m i = Some c) \<and> enabled c"
    using assms(3) by (auto simp: fallback_credential_def or_else_Some enabled_def bind_eq_Some_conv
        dest: find_mem split: if_splits)
  then show ?thesis
    unfolding bt_values_mem [OF wf, symmetric] stored_filed [OF assms(1,2), symmetric] by auto
qed

text \<open>What a selection returns, and that it only makes the selected credential active.\<close>

lemma choose_available:
  assumes "mode \<noteq> ''manual''"
  shows "case choose_credential mode m a av of None \<Rightarrow> av = [] | Some c \<Rightarrow> c \<in> set av"
proof (cases "choose_credential mode m a av")
  case None
  with assms show ?thesis
    by (cases av) (auto simp: choose_credential_def or_else_def first_of_list_def split: if_splits option.splits)
next
  case (Some c)
  with assms show ?thesis
    by (auto simp: choose_credential_def or_else_Some bind_eq_Some_conv dest: round_robin_mem first_of_list_mem find_mem
        split: if_splits)
qed

lemma select_cases:
  assumes wf: "pool_wf s" and sel: "select_provider_credential_locked env p now s = (res, t)"
  shows "case res of
      None \<Rightarrow> t = s \<and> (provider_credential_pool_mode_locked s p \<noteq> ''manual'' \<longrightarrow> (\<forall>c. filed p c s \<longrightarrow> \<not> usable env p now s c))
    | Some c \<Rightarrow> filed p c s \<and> enabled c
        \<and> (provider_credential_pool_mode_locked s p \<noteq> ''manual'' \<longrightarrow> usable env p now s c)
        \<and> t = s\<lparr> pool_active := bt_insert p (cr_id c) (pool_active s) \<rparr>"
proof (cases "bt_get (pool_credentials s) p")
  case None
  with sel show ?thesis
    by (simp add: select_provider_credential_locked_def Let_def filed_def sub_map_def split: prod.splits option.splits)
next
  case (Some m)
  let ?mode = "provider_credential_pool_mode_locked s p"
  define av where "av = usable_credentials env p now m s"
  define chosen where "chosen = choose_credential ?mode m (bt_get (pool_active s) p) av"
  have av: "c \<in> set av \<longleftrightarrow> filed p c s \<and> usable env p now s c" for c
    using usable_credentials_filed [OF wf Some] by (simp add: av_def)
  have none: "av = []" if "chosen = None" "?mode \<noteq> ''manual''"
    using choose_available [OF that(2), where m = m and a = "bt_get (pool_active s) p" and av = av] that(1) by (simp add: chosen_def)
  have ok: "filed p c s \<and> enabled c \<and> (?mode \<noteq> ''manual'' \<longrightarrow> usable env p now s c)" if "chosen = Some c" for c
    using choose_available [of ?mode, where m = m and a = "bt_get (pool_active s) p" and av = av] fallback_enabled [OF wf Some, of "bt_get (pool_active s) p" c]
      that av usable_enabled
    by (cases "?mode = ''manual''") (auto simp: chosen_def choose_credential_def)
  have "(res, t) = (case chosen of
      Some c \<Rightarrow> if cr_status c \<noteq> ''disabled'' then (Some c, s\<lparr> pool_active := bt_insert p (cr_id c) (pool_active s) \<rparr>)
               else (Some c, s)
    | None \<Rightarrow> (None, s))"
    unfolding sel [symmetric] select_provider_credential_locked_def Let_def Some option.case
      av_def [symmetric] chosen_def [symmetric] ..
  then show ?thesis using ok none av by (cases chosen) (auto simp: enabled_def)
qed

lemma select_keeps_wf:
  assumes "apply_selected_provider_credential_for_request env p cfg now s = (res, t)" "pool_wf s"
  shows "pool_wf t"
proof -
  obtain c u where sel: "select_provider_credential_locked env p now s = (c, u)" by force
  then have "t = u" using assms(1)
    by (auto simp: apply_selected_provider_credential_for_request_def Let_def split: option.splits)
  with select_cases [OF assms(2) sel] assms(2) show ?thesis
    by (auto simp: filed_def intro: activate_keeps_wf split: option.splits)
qed

lemma rotate_cases:
  assumes wf: "pool_wf s" and rot: "rotate_provider_credential_locked env p now s = (res, t)"
  shows "res = None \<and> t = s
    \<or> (\<exists>c. filed p c s \<and> usable env p now s c \<and> t = s\<lparr> pool_active := bt_insert p (cr_id c) (pool_active s) \<rparr>)"
proof (cases "bt_get (pool_credentials s) p")
  case None
  with rot show ?thesis by (simp add: rotate_provider_credential_locked_def)
next
  case (Some m)
  let ?av = "usable_credentials env p now m s"
  let ?chosen = "if ?av = [] then None else case bt_get (pool_active s) p of
      Some i \<Rightarrow> next_after ?av i | None \<Rightarrow> first_of_list ?av"
  have "c \<in> set ?av" if "?chosen = Some c" for c
    using that by (auto dest: next_after_mem first_of_list_mem split: if_splits option.splits)
  then show ?thesis
    using rot Some usable_credentials_filed [OF wf Some]
    by (cases ?chosen) (auto simp: rotate_provider_credential_locked_def Let_def)
qed

lemma outcome_keeps_wf: "pool_wf s \<Longrightarrow> pool_wf (record_provider_outcome_for_credential env p cid ok code msg now s)"
proof -
  assume wf: "pool_wf s"
  obtain kind u where u: "record_provider_health_locked p ok code msg now s = (kind, u)" by force
  define v where "v = (case cid of None \<Rightarrow> u
      | Some i \<Rightarrow> record_provider_credential_health_locked p i ok code msg kind now u)"
  have "pool_credentials v = pool_credentials s" "pool_active v = pool_active s"
    using u by (auto simp: v_def record_provider_health_locked_def record_provider_credential_health_locked_def Let_def
        split: option.splits)
  with wf have v: "pool_wf v" by (simp add: pool_wf_def)
  obtain res t where rot: "rotate_provider_credential_locked env p now v = (res, t)" by force
  from rotate_cases [OF v rot] have t: "pool_wf t"
    using v by (auto simp: filed_def dest: usable_enabled intro: activate_keeps_wf)
  then have "pool_wf (t\<lparr> pool_health := h \<rparr>)" for h by (simp add: pool_wf_def)
  with v t rot show ?thesis
    by (simp add: record_provider_outcome_for_credential_def u v_def [symmetric] Let_def split: option.splits)
qed

lemma pool_wf_empty: "pool_wf empty_pool"
  by (simp add: pool_wf_def empty_pool_def sub_map_def credentials_wf_def active_wf_def)

interpretation pool: inductive_invariant "\<lambda>s. s = empty_pool" "pool_step parse_url env" pool_wf for parse_url env
proof
  show "pool_wf t" if "pool_wf s" "pool_step parse_url env s t" for s t
    using that(2,1)
  proof cases
    case test then show ?thesis using that(1) by (simp add: record_provider_test_for_credential_def pool_wf_def)
  next
    case clear then show ?thesis using that(1) by (simp add: clear_provider_tests_def pool_wf_def)
  qed (blast intro: upsert_keeps_wf set_mode_keeps_wf set_active_keeps_wf delete_keeps_wf select_keeps_wf
      outcome_keeps_wf that(1))+
qed (simp add: pool_wf_empty)


definition sample_credential :: credential where
  "sample_credential = \<lparr> cr_id = ''main'', cr_provider_id = ''openai'', cr_name = ''Main'', cr_api_key_env = ''KEY'',
     cr_base_url = None, cr_status = ''active'', cr_created_at_ms = 0, cr_updated_at_ms = 0 \<rparr>"

definition sample_pool :: pool where
  "sample_pool = snd (store_credential 7 sample_credential empty_pool)"

definition sample_env :: "string \<Rightarrow> string option" where
  "sample_env name = (if name = ''KEY'' then Some ''secret'' else None)"

definition sample_provider :: provider_config where
  "sample_provider = \<lparr> pc_display_name = ''OpenAI'', pc_protocol = OpenaiCompat, pc_base_url = ''https://api.openai.com/v1'',
     pc_api_key_env = None, pc_api_key = None, pc_api_key_required = True, pc_default_model = ''m'', pc_models = [''m''],
     pc_model_prefixes = [], pc_passthrough_unknown_models = False, pc_deduplicate_stream_text = False,
     pc_buffer_stream_text = False, pc_tool_use = default_tool_use_config ''openai'' OpenaiCompat False \<rparr>"

lemma sample_pool_eq:
  "sample_pool = empty_pool\<lparr>
     pool_credentials := [(''openai'', [(''main'', sample_credential\<lparr> cr_created_at_ms := 7, cr_updated_at_ms := 7 \<rparr>)])],
     pool_active := [(''openai'', ''main'')] \<rparr>"
  by (simp add: sample_pool_def store_credential_def sample_credential_def empty_pool_def sub_map_def Let_def
      active_after_upsert_def next_enabled_provider_credential_id_def set_active_def bt_values_def bt_remove_def bt_retain_def)

lemma sample_pool_reach: "reach (\<lambda>s. s = empty_pool) (pool_step parse_url env) sample_pool"
proof -
  have t: "trim ''main'' = ''main''" "trim ''openai'' = ''openai''" "trim ''Main'' = ''Main''" "trim ''KEY'' = ''KEY''"
      "trim ''active'' = ''active''" by (simp_all add: graphic_literal)
  have "upsert_provider_credential parse_url env 7 sample_credential empty_pool
      = Inr (store_credential 7 sample_credential empty_pool)"
    by (simp add: upsert_provider_credential_def sample_credential_def validate_provider_id_def
        validate_provider_credential_id_def validate_non_empty_def validate_env_name_def validate_credential_base_url_def
        validate_credential_status_def t to_ascii_lowercase_def lower_char_def char_class_defs)
  then have "pool_step parse_url env empty_pool sample_pool"
    by (auto simp: sample_pool_def intro: pool_step.upsert [where r' = "fst (store_credential 7 sample_credential empty_pool)"])
  then show ?thesis by (rule reach_step [OF reach_init, rotated]) simp
qed


text \<open>
  C19: what a request gets from a pool that rotates.  When a credential is handed out, it is a
  stored credential of the provider that is enabled and not cooling down, whose key is set in the
  environment and is the key of the returned configuration, and it becomes the active one.  A
  request is refused, as not ready, only when no stored credential is usable, and it goes out with
  the provider's own key only when none is stored.
\<close>

theorem pool_hands_out_usable_credential:
  assumes "reach (\<lambda>s. s = empty_pool) (pool_step parse_url env) s"
    and "provider_credential_pool_mode_locked s p \<noteq> ''manual''"
    and "apply_selected_provider_credential_for_request env p cfg now s = (res, t)"
  shows "case res of
      Inl e \<Rightarrow> (\<exists>m. e = NotReady m) \<and> (\<forall>c. filed p c s \<longrightarrow> \<not> usable env p now s c)
    | Inr (None, cfg') \<Rightarrow> cfg' = cfg \<and> (\<forall>c. \<not> filed p c s)
    | Inr (Some i, cfg') \<Rightarrow>
        (\<exists>c. filed p c s \<and> usable env p now s c \<and> cr_id c = i \<and> bt_get (pool_active t) p = Some i
           \<and> pc_api_key cfg' = env (cr_api_key_env c) \<and> pc_api_key cfg' \<noteq> None)"
proof -
  obtain c u where sel: "select_provider_credential_locked env p now s = (c, u)" by force
  note cases = select_cases [OF pool.reach_inv [OF assms(1)] sel]
  show ?thesis
  proof (cases c)
    case None
    have "\<not> filed p x s" if "bt_get (pool_credentials s) p = None \<or> bt_get (pool_credentials s) p = Some []" for x
      using that by (auto simp: filed_def sub_map_def)
    with None cases assms(2,3) sel show ?thesis
      by (auto simp: apply_selected_provider_credential_for_request_def Let_def split: if_splits option.splits)
  next
    case (Some x)
    with cases assms(2) have x: "filed p x s" "usable env p now s x"
        "u = s\<lparr> pool_active := bt_insert p (cr_id x) (pool_active s) \<rparr>" by auto
    from x(2) obtain v where v: "env (cr_api_key_env x) = Some v" "trim v \<noteq> []"
      by (auto simp: usable_def provider_credential_is_usable_def split: option.splits)
    from assms(3) sel Some x v show ?thesis
      by (auto simp: apply_selected_provider_credential_for_request_def Let_def intro!: exI [of _ x])
  qed
qed

theorem pool_hands_out_usable_credential_witness:
  "\<exists>cfg t. apply_selected_provider_credential_for_request sample_env ''openai'' sample_provider 9 sample_pool
      = (Inr (Some ''main'', cfg), t) \<and> pc_api_key cfg = Some ''secret''"
proof -
  obtain res t where r: "apply_selected_provider_credential_for_request sample_env ''openai'' sample_provider 9 sample_pool = (res, t)"
    by force
  have tr: "trim ''secret'' = ''secret''" by (simp add: graphic_literal)
  have "\<exists>cfg. res = Inr (Some ''main'', cfg) \<and> pc_api_key cfg = Some ''secret''"
    using r [symmetric]
    by (simp add: apply_selected_provider_credential_for_request_def select_provider_credential_locked_def sample_pool_eq
        bt_get_def choose_credential_def usable_credentials_def provider_credential_is_usable_def or_else_def
        provider_credential_pool_mode_locked_def empty_pool_def bt_values_def sample_env_def sample_credential_def tr)
  then obtain cfg where cfg: "res = Inr (Some ''main'', cfg)" "pc_api_key cfg = Some ''secret''" by blast
  have "provider_credential_pool_mode_locked sample_pool ''openai'' \<noteq> ''manual''"
    by (simp add: provider_credential_pool_mode_locked_def sample_pool_eq empty_pool_def)
  from pool_hands_out_usable_credential [OF sample_pool_reach [of "\<lambda>_. Inl []" sample_env] this r] cfg r
  show ?thesis by auto
qed

section \<open>Round robin is fair\<close>

definition turn :: "credential list \<Rightarrow> string \<Rightarrow> string" where
  "turn cs i = (case round_robin_provider_credential cs (Some i) of Some c \<Rightarrow> cr_id c | None \<Rightarrow> i)"

lemma dropWhile_distinct:
  "distinct (map cr_id cs) \<Longrightarrow> n < length cs \<Longrightarrow> dropWhile (\<lambda>c. cr_id c \<noteq> cr_id (cs ! n)) cs = drop n cs"
proof (induction cs arbitrary: n)
  case (Cons c cs)
  then show ?case by (cases n) (auto simp: image_iff)
qed simp

lemma find_first: "xs \<noteq> [] \<Longrightarrow> P (hd xs) \<Longrightarrow> List.find P xs = Some (hd xs)"
  by (cases xs) auto

lemma turn_next:
  assumes d: "distinct (map cr_id cs)" and n: "n < length cs"
  shows "turn cs (cr_id (cs ! n)) = cr_id (cs ! (Suc n mod length cs))"
proof -
  have ne: "cr_id (cs ! k) \<noteq> cr_id (cs ! n)" if "k < length cs" "k \<noteq> n" for k
    using d n that by (simp add: distinct_conv_nth)
  have step: "next_after cs (cr_id (cs ! n)) = List.find (\<lambda>c. cr_id c \<noteq> cr_id (cs ! n)) (drop (Suc n) cs @ cs)"
    by (simp add: next_after_def dropWhile_distinct [OF d n])
  consider (inner) "Suc n < length cs" | (wrap) "Suc n = length cs" "n \<noteq> 0" | (single) "length cs = 1" "n = 0"
    using n by (cases "Suc n < length cs"; cases n) auto
  then show ?thesis
  proof cases
    case inner
    then have "next_after cs (cr_id (cs ! n)) = Some (cs ! Suc n)"
      unfolding step by (subst find_first) (auto simp: hd_append hd_drop_conv_nth ne)
    with inner show ?thesis by (auto simp: turn_def round_robin_provider_credential_def or_else_def)
  next
    case wrap
    have "cs \<noteq> []" using n by auto
    with wrap have "next_after cs (cr_id (cs ! n)) = Some (cs ! 0)"
      unfolding step using n ne [of 0] by (subst find_first) (auto simp: hd_conv_nth)
    with wrap n show ?thesis by (auto simp: turn_def round_robin_provider_credential_def or_else_def)
  next
    case single
    then obtain c where "cs = [c]" by (cases cs) auto
    with single show ?thesis
      by (simp add: turn_def round_robin_provider_credential_def next_after_def or_else_def first_of_list_def)
  qed
qed

text \<open>
  C20: round robin is fair: as long as the usable credentials stay the same, the \<open>k\<close>-th selection
  after the one at position \<open>n\<close> is the one at position \<open>n + k\<close>, counted round the list, so that each
  of the \<open>m\<close> credentials is used exactly once in \<open>m\<close> consecutive requests.
\<close>

theorem round_robin_is_fair:
  assumes "distinct (map cr_id cs)" "n < length cs"
  shows "(turn cs ^^ k) (cr_id (cs ! n)) = cr_id (cs ! ((n + k) mod length cs))"
proof (induction k)
  case (Suc k)
  have "(n + k) mod length cs < length cs" using assms(2) by (cases cs) simp_all
  from turn_next [OF assms(1) this] show ?case by (simp add: Suc mod_Suc_eq)
qed (use assms in simp)

theorem round_robin_is_fair_witness:
  "(turn [sample_credential, sample_credential\<lparr> cr_id := ''spare'' \<rparr>] ^^ 3) ''main'' = ''spare''"
proof -
  have "(3::nat) mod Suc (Suc 0) = 1" by code_simp
  then show ?thesis
    using round_robin_is_fair [of "[sample_credential, sample_credential\<lparr> cr_id := ''spare'' \<rparr>]" 0 3]
    by (simp add: sample_credential_def)
qed

section \<open>Cooldowns\<close>

lemma cooldown_seconds_range: "30 \<le> cooldown_seconds n \<and> cooldown_seconds n \<le> 300"
  by (simp add: cooldown_seconds_def)

lemma credential_cooldown_seconds_range:
  "30 \<le> credential_cooldown_seconds kind n \<and> credential_cooldown_seconds kind n \<le> 1800
   \<and> (kind = ''account'' \<longrightarrow> credential_cooldown_seconds kind n = 1800)"
  using cooldown_seconds_range [of n]
  by (auto simp: credential_cooldown_seconds_def ACCOUNT_ISSUE_CREDENTIAL_COOLDOWN_SECONDS_def Let_def)

lemma update_health_cooldown:
  "ph_cooldown_until_ms (update_health ok code msg kind now cooldown h) =
     (if ok then None
      else cooldown (if provider_failure_can_trigger_cooldown kind then sat_add32 (ph_consecutive_failures h) 1 else 0)
             (ph_cooldown_until_ms h))"
  by (simp add: update_health_def Let_def)

text \<open>\<open>until\<close> is an instant between \<open>lo\<close> and \<open>hi\<close> seconds after \<open>now\<close>.\<close>

definition ends_within :: "nat \<Rightarrow> nat \<Rightarrow> u64 \<Rightarrow> u64 option \<Rightarrow> bool" where
  "ends_within lo hi now until \<longleftrightarrow>
     (\<exists>seconds. lo \<le> seconds \<and> seconds \<le> hi \<and> until = Some (sat_add now (seconds * 1000)))"

lemma ends_withinI: "lo \<le> n \<Longrightarrow> n \<le> hi \<Longrightarrow> hi \<le> 1800 \<Longrightarrow> ends_within lo hi now (Some (sat_add now (sat_mul n 1000)))"
  by (auto simp: ends_within_def sat_mul_def u64_max_def intro!: exI [of _ n])

text \<open>
  Cooldowns are bounded and deserved.  A success clears the cooldown of the provider and of the
  credential.  A failure starts a cooldown of 30 to 300 seconds for the provider, or leaves the old
  one; for the credential, of 30 to 1800 seconds and of the full 1800 when the account is at fault.
  A failure that says nothing about the provider (neither account, rate limit, configuration nor an
  upstream error) changes neither.
\<close>

theorem cooldown_bounds:
  assumes "record_provider_health_locked p ok code msg now s = (kind, t)"
    and "bt_get (pool_health t) p = Some h"
    and "bt_get (sub_map (pool_credential_health (record_provider_credential_health_locked p i ok code msg kind now t)) p) i = Some k"
  shows "(if ok then ph_cooldown_until_ms h = None \<and> ph_cooldown_until_ms k = None
      else (ph_cooldown_until_ms h = Option.bind (bt_get (pool_health s) p) ph_cooldown_until_ms
              \<or> ends_within 30 300 now (ph_cooldown_until_ms h))
         \<and> (if kind = ''account'' then ends_within 1800 1800 now (ph_cooldown_until_ms k)
            else if provider_failure_can_trigger_cooldown kind
            then ph_cooldown_until_ms k = Option.bind (bt_get (sub_map (pool_credential_health s) p) i) ph_cooldown_until_ms
                   \<or> ends_within 30 1800 now (ph_cooldown_until_ms k)
            else ph_cooldown_until_ms h = Option.bind (bt_get (pool_health s) p) ph_cooldown_until_ms
                   \<and> ph_cooldown_until_ms k = Option.bind (bt_get (sub_map (pool_credential_health s) p) i) ph_cooldown_until_ms))"
proof -
  have t: "pool_credential_health t = pool_credential_health s"
    using assms(1) by (auto simp: record_provider_health_locked_def Let_def)
  have old: "ph_cooldown_until_ms (case x of None \<Rightarrow> new_health | Some h \<Rightarrow> h) = Option.bind x ph_cooldown_until_ms" for x
    by (simp add: new_health_def split: option.splits)
  have oldc: "ph_cooldown_until_ms (case x of None \<Rightarrow> new_credential_health | Some h \<Rightarrow> h) = Option.bind x ph_cooldown_until_ms" for x
    by (simp add: new_credential_health_def new_health_def provider_health.defs split: option.splits)
  define f where "f = (if provider_failure_can_trigger_cooldown kind
      then sat_add32 (ph_consecutive_failures (case bt_get (pool_health s) p of Some h \<Rightarrow> h | None \<Rightarrow> new_health)) 1 else 0)"
  have h: "ph_cooldown_until_ms h = (if ok then None
      else if provider_failure_can_trigger_cooldown kind \<and> (f \<ge> 3 \<or> code = 429 \<or> code \<ge> 500)
      then Some (sat_add now (sat_mul (cooldown_seconds f) 1000))
      else Option.bind (bt_get (pool_health s) p) ph_cooldown_until_ms)"
    using assms(1,2) by (auto simp: record_provider_health_locked_def Let_def update_health_cooldown old f_def cong: if_cong)
  define g where "g = (if provider_failure_can_trigger_cooldown kind
      then sat_add32 (ph_consecutive_failures
        (case bt_get (sub_map (pool_credential_health s) p) i of Some h \<Rightarrow> h | None \<Rightarrow> new_credential_health)) 1 else 0)"
  have k: "ph_cooldown_until_ms k = (if ok then None
      else if provider_failure_can_trigger_cooldown kind \<and> (should_rotate_provider_credential kind \<or> g \<ge> 3)
      then Some (sat_add now (sat_mul (credential_cooldown_seconds kind g) 1000))
      else Option.bind (bt_get (sub_map (pool_credential_health s) p) i) ph_cooldown_until_ms)"
    using assms(3) by (auto simp: record_provider_credential_health_locked_def Let_def t update_health_cooldown oldc g_def cong: if_cong)
  have acc: "provider_failure_can_trigger_cooldown ''account''" "should_rotate_provider_credential ''account''"
    by (simp_all add: provider_failure_can_trigger_cooldown_def should_rotate_provider_credential_def)
  show ?thesis
    unfolding h k using cooldown_seconds_range [of f] credential_cooldown_seconds_range [of kind g] acc
    by (cases ok; cases "kind = ''account''") (simp_all add: ends_withinI)
qed

theorem cooldown_bounds_witness:
  "\<exists>t k. record_provider_health_locked ''openai'' False 401 None 1000 empty_pool = (''account'', t)
     \<and> bt_get (sub_map (pool_credential_health
          (record_provider_credential_health_locked ''openai'' ''main'' False 401 None ''account'' 1000 t)) ''openai'') ''main'' = Some k
     \<and> ends_within 1800 1800 1000 (ph_cooldown_until_ms k)"
proof -
  have "fst (provider_failure_guidance (Some 401) None) = ''account''"
    by (simp add: provider_failure_guidance_def Let_def)
  then obtain t where t: "record_provider_health_locked ''openai'' False 401 None 1000 empty_pool = (''account'', t)"
    by (simp add: record_provider_health_locked_def Let_def)
  then obtain h where h: "bt_get (pool_health t) ''openai'' = Some h"
    by (auto simp: record_provider_health_locked_def Let_def)
  obtain k where k: "bt_get (sub_map (pool_credential_health
      (record_provider_credential_health_locked ''openai'' ''main'' False 401 None ''account'' 1000 t)) ''openai'') ''main'' = Some k"
    by (simp add: record_provider_credential_health_locked_def Let_def)
  from cooldown_bounds [OF t h k] t k show ?thesis by simp
qed

end
