(* ===== verification/Tool_Use.thy ===== *)
theory Tool_Use
  imports Provider_Config Json "HOL-Library.AList" "HOL-Library.Multiset"
begin

text \<open>
  Tool use on the Anthropic side, \<^verbatim>\<open>src/tool_use.rs\<close> (with the request type of
  \<^verbatim>\<open>src/types.rs\<close>): what a request may say about tools, what tool turns may look like in a
  conversation, and what an upstream answer may call.  The JSON Schema compiler and validator are
  parameters; so is the text of their errors.  A loop over an enumerated list takes the index of
  its first element.
\<close>

section \<open>Requests\<close>

record anthropic_request =
  ar_model :: string
  ar_max_tokens :: "u64 option"
  ar_messages :: "json list"
  ar_system :: "json option"
  ar_stream :: "bool option"
  ar_extra :: "(string \<times> json) list"

definition get_str :: "json \<Rightarrow> string \<Rightarrow> string option" where
  "get_str v k = Option.bind (json_get v k) as_str"

definition get_array :: "json \<Rightarrow> string \<Rightarrow> json list option" where
  "get_array v k = Option.bind (json_get v k) as_array"

definition get_bool :: "json \<Rightarrow> string \<Rightarrow> bool option" where
  "get_bool v k = Option.bind (json_get v k) as_bool"

definition or_default :: "'a \<Rightarrow> 'a option \<Rightarrow> 'a" where
  "or_default d x = (case x of Some v \<Rightarrow> v | None \<Rightarrow> d)"

fun is_object :: "json \<Rightarrow> bool" where
  "is_object (JObj m) = True"
| "is_object _ = False"

fun is_string :: "json \<Rightarrow> bool" where
  "is_string (JStr s) = True"
| "is_string _ = False"

fun is_array :: "json \<Rightarrow> bool" where
  "is_array (JArr xs) = True"
| "is_array _ = False"

fun is_boolean :: "json \<Rightarrow> bool" where
  "is_boolean (JBool b) = True"
| "is_boolean _ = False"

definition indexed :: "string \<Rightarrow> nat \<Rightarrow> string" where
  "indexed path i = path @ ''['' @ show_nat i @ '']''"

section \<open>Tool definitions\<close>

definition validate_tool_name :: "string \<Rightarrow> string \<Rightarrow> unit result" where
  "validate_tool_name name path =
     (let len = char_count name
      in if len = 0 \<or> len > 64 then Inl (InvalidRequest (path @ '' must be 1-64 characters''))
         else if \<not> list_all (\<lambda>ch. is_alnum ch \<or> ch = CHR ''_'' \<or> ch = CHR ''-'') name
         then Inl (InvalidRequest (path @ '' may only contain letters, numbers, '' @ [CHR 0x27] @ ''_'' @ [CHR 0x27] @
                '' and '' @ [CHR 0x27] @ ''-'' @ [CHR 0x27]))
         else Inr ())"

function (sequential) reject_external_schema_references :: "json \<Rightarrow> string \<Rightarrow> unit result"
  and reject_in_members :: "(string \<times> json) list \<Rightarrow> string \<Rightarrow> unit result"
  and reject_in_items :: "json list \<Rightarrow> nat \<Rightarrow> string \<Rightarrow> unit result" where
  "reject_external_schema_references (JObj members) path = reject_in_members members path"
| "reject_external_schema_references (JArr items) path = reject_in_items items 0 path"
| "reject_external_schema_references _ path = Inr ()"
| "reject_in_members [] path = Inr ()"
| "reject_in_members ((key, child) # rest) path =
     (let child_path = path @ ''.'' @ key
      in if key \<in> {''$ref'', ''$dynamicRef''}
            \<and> (case as_str child of Some reference \<Rightarrow> \<not> starts_with ''#'' reference | None \<Rightarrow> False)
         then Inl (InvalidRequest (child_path @
                '' must be a local JSON Pointer; external schema references are disabled''))
         else and_then (reject_external_schema_references child child_path) (\<lambda>_. reject_in_members rest path))"
| "reject_in_items [] index path = Inr ()"
| "reject_in_items (child # rest) index path =
     and_then (reject_external_schema_references child (indexed path index)) (\<lambda>_. reject_in_items rest (Suc index) path)"
  by pat_completeness auto
termination
  by (relation "measure (\<lambda>x. case x of
      Inl (v, _) \<Rightarrow> 2 * size v
    | Inr (Inl (ms, _)) \<Rightarrow> Suc (2 * size_list (size_prod (\<lambda>_. 0) size) ms)
    | Inr (Inr (vs, _, _)) \<Rightarrow> Suc (2 * size_list size vs))")
    (auto simp: size_list_conv_sum_list)

definition compile_tool_schema :: "(json \<Rightarrow> string + 'v) \<Rightarrow> json \<Rightarrow> string \<Rightarrow> 'v result" where
  "compile_tool_schema validator_for schema path =
     and_then (reject_external_schema_references schema path) (\<lambda>_.
       case validator_for schema of
         Inl error \<Rightarrow> Inl (InvalidRequest (path @ '' is not a valid JSON Schema: '' @ error))
       | Inr validator \<Rightarrow> Inr validator)"

definition validate_tool_definition :: "(json \<Rightarrow> string + 'v) \<Rightarrow> json \<Rightarrow> string \<Rightarrow> string list \<Rightarrow> string list result" where
  "validate_tool_definition validator_for tool path names =
     and_then (ok_or (InvalidRequest (path @ '' must be an object'')) (as_object tool)) (\<lambda>_.
     and_then (ok_or (InvalidRequest (path @ ''.name is required'')) (get_str tool ''name'')) (\<lambda>name.
     and_then (validate_tool_name name (path @ ''.name'')) (\<lambda>_.
     and_then (ensure (name \<notin> set names) (InvalidRequest (path @ ''.name duplicates another tool''))) (\<lambda>_.
     and_then (ensure (\<not> (case json_get tool ''description'' of Some d \<Rightarrow> \<not> is_string d | None \<Rightarrow> False))
                 (InvalidRequest (path @ ''.description must be a string''))) (\<lambda>_.
     and_then (ok_or (InvalidRequest (path @ ''.input_schema must be an object''))
                 (Option.bind (json_get tool ''input_schema'') as_object)) (\<lambda>schema.
     and_then (ensure (get_str (JObj schema) ''type'' = Some ''object'')
                 (InvalidRequest (path @ ''.input_schema.type must be object''))) (\<lambda>_.
     and_then (compile_tool_schema validator_for (JObj schema) (path @ ''.input_schema'')) (\<lambda>_.
     and_then (ensure (\<not> (case json_get tool ''strict'' of Some v \<Rightarrow> \<not> is_boolean v | None \<Rightarrow> False))
                 (InvalidRequest (path @ ''.strict must be a boolean''))) (\<lambda>_.
       Inr (name # names))))))))))"

fun validate_tool_list :: "(json \<Rightarrow> string + 'v) \<Rightarrow> json list \<Rightarrow> nat \<Rightarrow> string list \<Rightarrow> string list result" where
  "validate_tool_list validator_for [] index names = Inr names"
| "validate_tool_list validator_for (tool # tools) index names =
     and_then (validate_tool_definition validator_for tool (indexed ''tools'' index) names)
       (validate_tool_list validator_for tools (Suc index))"

definition validate_tool_definitions :: "(json \<Rightarrow> string + 'v) \<Rightarrow> json \<Rightarrow> string list result" where
  "validate_tool_definitions validator_for tools =
     and_then (ok_or (InvalidRequest ''tools must be an array'') (as_array tools)) (\<lambda>tools.
       validate_tool_list validator_for tools 0 [])"

section \<open>Tool choice\<close>

definition validate_tool_name_is_defined :: "string \<Rightarrow> string list option \<Rightarrow> string \<Rightarrow> unit result" where
  "validate_tool_name_is_defined name tool_names path =
     (case tool_names of
        Some names \<Rightarrow> if name \<notin> set names
          then Inl (InvalidRequest (path @ '' `'' @ name @ ''` must match a defined tool'')) else Inr ()
      | None \<Rightarrow> Inr ())"

definition validate_tool_choice_shape :: "json \<Rightarrow> string list option \<Rightarrow> unit result" where
  "validate_tool_choice_shape tool_choice tool_names =
     and_then (ok_or (InvalidRequest ''tool_choice must be an object'') (as_object tool_choice)) (\<lambda>_.
     and_then (ok_or (InvalidRequest ''tool_choice.type is required'') (get_str tool_choice ''type'')) (\<lambda>choice_type.
     and_then (ensure (choice_type \<in> {''auto'', ''any'', ''none'', ''tool''})
                 (InvalidRequest ''tool_choice.type must be auto, any, none, or tool'')) (\<lambda>_.
     and_then
       (if choice_type = ''tool''
        then and_then (ok_or (InvalidRequest ''tool_choice.name is required'') (get_str tool_choice ''name'')) (\<lambda>name.
             and_then (validate_tool_name name ''tool_choice.name'') (\<lambda>_.
               validate_tool_name_is_defined name tool_names ''tool_choice.name''))
        else case json_get tool_choice ''name'' of
               None \<Rightarrow> Inr ()
             | Some v \<Rightarrow>
                 and_then (ok_or (InvalidRequest ''tool_choice.name must be a string'') (as_str v)) (\<lambda>name.
                 and_then (validate_tool_name name ''tool_choice.name'') (\<lambda>_.
                   validate_tool_name_is_defined name tool_names ''tool_choice.name''))) (\<lambda>_.
     and_then (ensure (\<not> (choice_type \<in> {''any'', ''tool''} \<and> (tool_names = None \<or> tool_names = Some [])))
                 (InvalidRequest (''tool_choice.type='' @ choice_type @ '' requires at least one tool''))) (\<lambda>_.
       ensure (\<not> (case json_get tool_choice ''disable_parallel_tool_use'' of Some v \<Rightarrow> \<not> is_boolean v | None \<Rightarrow> False))
         (InvalidRequest ''tool_choice.disable_parallel_tool_use must be a boolean''))))))"

section \<open>Tool blocks\<close>

definition validate_tool_use_block :: "string \<Rightarrow> json \<Rightarrow> string \<Rightarrow> unit result" where
  "validate_tool_use_block role block path =
     and_then (ensure (role = ''assistant'')
                 (InvalidRequest (path @ '' tool_use blocks are only valid in assistant messages''))) (\<lambda>_.
     and_then (ok_or (InvalidRequest (path @ ''.id is required for tool_use'')) (get_str block ''id'')) (\<lambda>i.
     and_then (ensure (trim i \<noteq> []) (InvalidRequest (path @ ''.id must not be empty for tool_use''))) (\<lambda>_.
     and_then (ok_or (InvalidRequest (path @ ''.name is required'')) (get_str block ''name'')) (\<lambda>name.
     and_then (validate_tool_name name (path @ ''.name'')) (\<lambda>_.
       ensure (case json_get block ''input'' of Some v \<Rightarrow> is_object v | None \<Rightarrow> False)
         (InvalidRequest (path @ ''.input must be an object'')))))))"

fun first_non_object :: "json list \<Rightarrow> nat \<Rightarrow> string \<Rightarrow> unit result" where
  "first_non_object [] index path = Inr ()"
| "first_non_object (block # blocks) index path =
     (if \<not> is_object block then Inl (InvalidRequest (indexed (path @ ''.content'') index @ '' must be an object''))
      else first_non_object blocks (Suc index) path)"

definition validate_tool_result_block :: "string \<Rightarrow> json \<Rightarrow> string \<Rightarrow> unit result" where
  "validate_tool_result_block role block path =
     and_then (ensure (role = ''user'')
                 (InvalidRequest (path @ '' tool_result blocks are only valid in user messages''))) (\<lambda>_.
     and_then (ok_or (InvalidRequest (path @ ''.tool_use_id is required'')) (get_str block ''tool_use_id'')) (\<lambda>i.
     and_then (ensure (trim i \<noteq> []) (InvalidRequest (path @ ''.tool_use_id must not be empty''))) (\<lambda>_.
     and_then
       (case json_get block ''content'' of
          None \<Rightarrow> Inr ()
        | Some content \<Rightarrow>
            and_then (ensure (is_string content \<or> is_array content)
                        (InvalidRequest (path @ ''.content must be a string or array''))) (\<lambda>_.
              case as_array content of None \<Rightarrow> Inr () | Some blocks \<Rightarrow> first_non_object blocks 0 path)) (\<lambda>_.
       ensure (\<not> (case json_get block ''is_error'' of Some v \<Rightarrow> \<not> is_boolean v | None \<Rightarrow> False))
         (InvalidRequest (path @ ''.is_error must be a boolean''))))))"

definition validate_block :: "string \<Rightarrow> json \<Rightarrow> string \<Rightarrow> bool \<Rightarrow> bool result" where
  "validate_block role block path saw_non_tool_result =
     and_then (ok_or (InvalidRequest (path @ '' must be an object'')) (as_object block)) (\<lambda>_.
     and_then (ok_or (InvalidRequest (path @ ''.type is required'')) (get_str block ''type'')) (\<lambda>block_type.
     and_then
       (if block_type = ''text''
        then and_then (ok_or (InvalidRequest (path @ ''.text is required'')) (json_get block ''text'')) (\<lambda>text.
               ensure (is_string text) (InvalidRequest (path @ ''.text must be a string'')))
        else if block_type = ''tool_use'' then validate_tool_use_block role block path
        else if block_type = ''tool_result''
        then and_then (ensure (\<not> saw_non_tool_result)
                         (InvalidRequest (path @ '' tool_result blocks must come before other content''))) (\<lambda>_.
               validate_tool_result_block role block path)
        else Inr ()) (\<lambda>_.
       Inr (saw_non_tool_result \<or> block_type \<noteq> ''tool_result''))))"

fun validate_blocks :: "string \<Rightarrow> json list \<Rightarrow> string \<Rightarrow> nat \<Rightarrow> bool \<Rightarrow> unit result" where
  "validate_blocks role [] path index saw = Inr ()"
| "validate_blocks role (block # blocks) path index saw =
     and_then (validate_block role block (indexed path index) saw) (validate_blocks role blocks path (Suc index))"

definition validate_message_tool_blocks :: "json \<Rightarrow> nat \<Rightarrow> unit result" where
  "validate_message_tool_blocks message message_index =
     (case as_object message of
        None \<Rightarrow> Inr ()
      | Some _ \<Rightarrow>
          (case get_array message ''content'' of
             None \<Rightarrow> Inr ()
           | Some blocks \<Rightarrow>
               validate_blocks (or_default [] (get_str message ''role'')) blocks
                 (indexed ''messages'' message_index @ ''.content'') 0 False))"

fun validate_messages :: "json list \<Rightarrow> nat \<Rightarrow> unit result" where
  "validate_messages [] index = Inr ()"
| "validate_messages (message # messages) index =
     and_then (validate_message_tool_blocks message index) (\<lambda>_. validate_messages messages (Suc index))"

section \<open>Tool turns\<close>

text \<open>The identifiers seen so far and those that wait for their result.\<close>

record turn_state =
  seen_tool_use_ids :: "string list"
  pending_tool_use_ids :: "string list"

definition turn_block ::
  "string list option \<Rightarrow> string \<Rightarrow> json \<Rightarrow> string \<Rightarrow> turn_state \<Rightarrow> turn_state result" where
  "turn_block tool_names role block path st =
     (if \<not> is_object block then Inr st
      else if get_str block ''type'' = Some ''tool_use'' \<and> role = ''assistant''
      then let i = or_default [] (get_str block ''id'')
           in if i \<in> set (seen_tool_use_ids st)
              then Inl (InvalidRequest (path @ ''.id duplicates a previous tool_use id''))
              else and_then (validate_tool_name_is_defined (or_default [] (get_str block ''name'')) tool_names (path @ ''.name''))
                     (\<lambda>_. Inr \<lparr> seen_tool_use_ids = i # seen_tool_use_ids st,
                                 pending_tool_use_ids = List.insert i (pending_tool_use_ids st) \<rparr>)
      else if get_str block ''type'' = Some ''tool_result'' \<and> role = ''user''
      then let i = or_default [] (get_str block ''tool_use_id'')
           in if i \<notin> set (seen_tool_use_ids st)
              then Inl (InvalidRequest (path @ ''.tool_use_id `'' @ i @ ''` does not match a previous tool_use id''))
              else if i \<notin> set (pending_tool_use_ids st)
              then Inl (InvalidRequest (path @ ''.tool_use_id `'' @ i @ ''` has already been answered''))
              else Inr (st\<lparr> pending_tool_use_ids := removeAll i (pending_tool_use_ids st) \<rparr>)
      else Inr st)"

fun turn_blocks ::
  "string list option \<Rightarrow> string \<Rightarrow> json list \<Rightarrow> string \<Rightarrow> nat \<Rightarrow> turn_state \<Rightarrow> turn_state result" where
  "turn_blocks tool_names role [] path index st = Inr st"
| "turn_blocks tool_names role (block # blocks) path index st =
     and_then (turn_block tool_names role block (indexed path index) st)
       (turn_blocks tool_names role blocks path (Suc index))"

definition turn_message :: "string list option \<Rightarrow> json \<Rightarrow> nat \<Rightarrow> turn_state \<Rightarrow> turn_state result" where
  "turn_message tool_names message index st =
     (let role = or_default [] (get_str message ''role''); path = indexed ''messages'' index
      in case get_array message ''content'' of
           None \<Rightarrow>
             if pending_tool_use_ids st \<noteq> []
             then Inl (InvalidRequest (path @ '' must immediately return all pending tool_result blocks''))
             else Inr st
         | Some blocks \<Rightarrow>
             (let resolving = pending_tool_use_ids st \<noteq> []
              in if resolving \<and> role \<noteq> ''user''
                 then Inl (InvalidRequest (path @ '' must be a user message immediately returning pending tool results''))
                 else and_then (turn_blocks tool_names role blocks (path @ ''.content'') 0 st) (\<lambda>st'.
                        if resolving \<and> pending_tool_use_ids st' \<noteq> []
                        then Inl (InvalidRequest (path @ '' must return every pending tool_result in one user message''))
                        else Inr st')))"

fun turn_messages :: "string list option \<Rightarrow> json list \<Rightarrow> nat \<Rightarrow> turn_state \<Rightarrow> turn_state result" where
  "turn_messages tool_names [] index st = Inr st"
| "turn_messages tool_names (message # messages) index st =
     and_then (turn_message tool_names message index st) (turn_messages tool_names messages (Suc index))"

definition no_turns :: turn_state where
  "no_turns = \<lparr> seen_tool_use_ids = [], pending_tool_use_ids = [] \<rparr>"

definition validate_tool_turn_references :: "anthropic_request \<Rightarrow> string list option \<Rightarrow> unit result" where
  "validate_tool_turn_references request tool_names =
     and_then (turn_messages tool_names (ar_messages request) 0 no_turns) (\<lambda>st.
       if pending_tool_use_ids st \<noteq> []
       then Inl (InvalidRequest ''the final assistant tool_use must be followed by a user tool_result message'')
       else Inr ())"

definition validate_anthropic_tooling :: "(json \<Rightarrow> string + 'v) \<Rightarrow> anthropic_request \<Rightarrow> unit result" where
  "validate_anthropic_tooling validator_for request =
     and_then (case bt_get (ar_extra request) ''tools'' of
                 Some tools \<Rightarrow> and_then (validate_tool_definitions validator_for tools) (\<lambda>names. Inr (Some names))
               | None \<Rightarrow> Inr None) (\<lambda>tool_names.
     and_then (case bt_get (ar_extra request) ''tool_choice'' of
                 Some tool_choice \<Rightarrow> validate_tool_choice_shape tool_choice tool_names
               | None \<Rightarrow> Inr ()) (\<lambda>_.
     and_then (validate_messages (ar_messages request) 0) (\<lambda>_.
       validate_tool_turn_references request tool_names)))"

section \<open>Provider capabilities\<close>

definition message_has_tool_block :: "json \<Rightarrow> bool" where
  "message_has_tool_block message =
     (case get_array message ''content'' of
        None \<Rightarrow> False
      | Some blocks \<Rightarrow> list_ex (\<lambda>b. get_str b ''type'' \<in> {Some ''tool_use'', Some ''tool_result''}) blocks)"

definition request_uses_tools :: "anthropic_request \<Rightarrow> bool" where
  "request_uses_tools request \<longleftrightarrow>
     bt_get (ar_extra request) ''tools'' \<noteq> None \<or> bt_get (ar_extra request) ''tool_choice'' \<noteq> None
     \<or> list_ex message_has_tool_block (ar_messages request)"

definition validate_anthropic_tool_capabilities :: "anthropic_request \<Rightarrow> string \<Rightarrow> tool_use_config \<Rightarrow> unit result" where
  "validate_anthropic_tool_capabilities request provider_id tool_use =
     (if \<not> request_uses_tools request then Inr ()
      else if \<not> tu_supported tool_use
      then Inl (InvalidRequest (''provider `'' @ provider_id @ ''` does not support tool use''))
      else if bt_get (ar_extra request) ''tool_choice'' \<noteq> None \<and> \<not> tu_tool_choice tool_use
      then Inl (InvalidRequest (''provider `'' @ provider_id @ ''` does not support tool_choice''))
      else if \<not> tu_parallel_tool_calls tool_use
              \<and> Option.bind (bt_get (ar_extra request) ''tool_choice'') (\<lambda>v. get_bool v ''disable_parallel_tool_use'') = Some False
      then Inl (InvalidRequest (''provider `'' @ provider_id @ ''` does not support parallel tool calls''))
      else Inr ())"

section \<open>Upstream answers\<close>

record 'v tool_response_policy =
  tp_validation :: tool_response_validation
  tp_allowed_names :: "string list option"
  tp_input_validators :: "(string \<times> 'v) list"
  tp_minimum_calls :: nat
  tp_maximum_calls :: "nat option"

fun compile_validators ::
  "(json \<Rightarrow> string + 'v) \<Rightarrow> json list \<Rightarrow> nat \<Rightarrow> (string \<times> 'v) list \<Rightarrow> (string \<times> 'v) list result" where
  "compile_validators validator_for [] index acc = Inr acc"
| "compile_validators validator_for (tool # tools) index acc =
     and_then (ok_or (InvalidRequest (indexed ''tools'' index @ ''.name is required'')) (get_str tool ''name'')) (\<lambda>name.
     and_then (ok_or (InvalidRequest (indexed ''tools'' index @ ''.input_schema must be an object''))
                 (json_get tool ''input_schema'')) (\<lambda>schema.
     and_then (compile_tool_schema validator_for schema (indexed ''tools'' index @ ''.input_schema'')) (\<lambda>validator.
       compile_validators validator_for tools (Suc index) (AList.update name validator acc))))"

definition call_limits :: "tool_use_config \<Rightarrow> json option \<Rightarrow> string list option \<Rightarrow> string list option \<times> nat \<times> nat option" where
  "call_limits tool_use tool_choice allowed =
     (let maximum = (if \<not> tu_parallel_tool_calls tool_use then Some 1 else None)
      in case tool_choice of
           None \<Rightarrow> (allowed, 0, maximum)
         | Some choice \<Rightarrow>
             (let kind = get_str choice ''type'';
                  (allowed, minimum, maximum) =
                    (if kind = Some ''none'' then (allowed, 0, Some 0)
                     else if kind = Some ''any'' then (allowed, 1, maximum)
                     else if kind = Some ''tool''
                     then (case get_str choice ''name'' of Some name \<Rightarrow> Some [name] | None \<Rightarrow> allowed, 1, maximum)
                     else (allowed, 0, maximum))
              in (allowed, minimum,
                  if get_bool choice ''disable_parallel_tool_use'' = Some True then Some 1 else maximum)))"

definition for_anthropic_request ::
  "(json \<Rightarrow> string + 'v) \<Rightarrow> anthropic_request \<Rightarrow> tool_use_config \<Rightarrow> 'v tool_response_policy result" where
  "for_anthropic_request validator_for request tool_use =
     (let tools = Option.bind (bt_get (ar_extra request) ''tools'') as_array;
          allowed = Some (case tools of Some ts \<Rightarrow> List.map_filter (\<lambda>t. get_str t ''name'') ts | None \<Rightarrow> [])
      in and_then (if tu_response_validation tool_use = StrictValidation
                   then compile_validators validator_for (or_default [] tools) 0 [] else Inr []) (\<lambda>validators.
           let (allowed, minimum, maximum) = call_limits tool_use (bt_get (ar_extra request) ''tool_choice'') allowed
           in Inr \<lparr> tp_validation = tu_response_validation tool_use, tp_allowed_names = allowed,
                    tp_input_validators = validators, tp_minimum_calls = minimum, tp_maximum_calls = maximum \<rparr>))"

definition validate_name :: "'v tool_response_policy \<Rightarrow> string option \<Rightarrow> string result" where
  "validate_name policy name =
     (if tp_validation policy = BestEffortValidation then Inr (or_default ''tool'' name)
      else and_then (ok_or (UpstreamProtocol ''OpenAI-compatible tool call is missing a function name'')
                       (Option.bind name (\<lambda>n. if trim n \<noteq> [] then Some n else None))) (\<lambda>name.
             case tp_allowed_names policy of
               Some allowed \<Rightarrow> if name \<notin> set allowed
                 then Inl (UpstreamProtocol (''OpenAI-compatible upstream returned undeclared tool `'' @ name @ ''`''))
                 else Inr name
             | None \<Rightarrow> Inr name))"

definition parse_arguments ::
  "(string \<Rightarrow> string + json) \<Rightarrow> ('v \<Rightarrow> json \<Rightarrow> (string \<times> string) option) \<Rightarrow>
   'v tool_response_policy \<Rightarrow> string \<Rightarrow> string \<Rightarrow> json result" where
  "parse_arguments from_str validate policy name arguments =
     and_then
       (if trim arguments = [] then Inr (JObj [])
        else case from_str arguments of
               Inr value \<Rightarrow>
                 if is_object value then Inr value
                 else if tp_validation policy = BestEffortValidation then Inr (JObj [(''_raw_arguments'', value)])
                 else Inl (UpstreamProtocol ''OpenAI-compatible tool arguments must be a JSON object'')
             | Inl error \<Rightarrow>
                 if tp_validation policy = BestEffortValidation then Inr (JObj [(''_raw_arguments'', JStr arguments)])
                 else Inl (UpstreamProtocol (''OpenAI-compatible tool arguments are invalid JSON: '' @ error))) (\<lambda>value.
       if tp_validation policy = StrictValidation
       then and_then (ok_or (UpstreamProtocol ''OpenAI-compatible tool call has no compiled input schema'')
                        (map_of (tp_input_validators policy) name)) (\<lambda>validator.
              case validate validator value of
                Some (instance_path, schema_path) \<Rightarrow> Inl (ToolArgumentsInvalid instance_path schema_path None)
              | None \<Rightarrow> Inr value)
       else Inr value)"

definition validate_call_summary :: "'v tool_response_policy \<Rightarrow> nat \<Rightarrow> string option \<Rightarrow> unit result" where
  "validate_call_summary policy call_count finish_reason =
     (if tp_validation policy = BestEffortValidation then Inr ()
      else if call_count < tp_minimum_calls policy
      then Inl (UpstreamProtocol (''OpenAI-compatible upstream returned '' @ show_nat call_count @
             '' tool calls, but tool_choice requires at least '' @ show_nat (tp_minimum_calls policy)))
      else if (case tp_maximum_calls policy of Some maximum \<Rightarrow> call_count > maximum | None \<Rightarrow> False)
      then Inl (UpstreamProtocol (''OpenAI-compatible upstream returned '' @ show_nat call_count @
             '' tool calls, exceeding the allowed maximum of '' @ show_nat (or_default 0 (tp_maximum_calls policy))))
      else let stopped_for_tools = finish_reason \<in> {Some ''tool_calls'', Some ''function_call''}
           in if call_count > 0 \<and> \<not> stopped_for_tools
              then Inl (UpstreamProtocol
                     ''OpenAI-compatible upstream returned tool calls without a tool_calls finish reason'')
              else if call_count = 0 \<and> stopped_for_tools
              then Inl (UpstreamProtocol
                     ''OpenAI-compatible upstream returned a tool_calls finish reason without a tool call'')
              else Inr ())"

section \<open>What an accepted request contains\<close>

text \<open>A schema that refers to a document other than itself.\<close>

definition external_reference :: "json \<Rightarrow> bool" where
  "external_reference schema \<longleftrightarrow>
     (\<exists>members key reference. inside (JObj members) schema \<and> key \<in> {''$ref'', ''$dynamicRef''}
        \<and> (key, JStr reference) \<in> set members \<and> \<not> starts_with ''#'' reference)"

lemma external_reference_leaf [simp]:
  "\<not> external_reference JNull" "\<not> external_reference (JBool b)" "\<not> external_reference (JNum n)"
  "\<not> external_reference (JStr s)"
  by (auto simp: external_reference_def inside_simps)

definition member_reference :: "string \<times> json \<Rightarrow> bool" where
  "member_reference member \<longleftrightarrow> (\<exists>key reference. member = (key, JStr reference)
     \<and> key \<in> {''$ref'', ''$dynamicRef''} \<and> \<not> starts_with ''#'' reference)"

lemma external_reference_object:
  "external_reference (JObj members) \<longleftrightarrow>
     list_ex (\<lambda>member. member_reference member \<or> external_reference (snd member)) members"
  unfolding external_reference_def member_reference_def inside_simps list_ex_iff
  by (auto simp: inside_simps) (metis snd_conv)+

lemma external_reference_array: "external_reference (JArr items) \<longleftrightarrow> list_ex external_reference items"
  unfolding external_reference_def inside_simps list_ex_iff by (auto simp: inside_simps)

lemma rejected_member:
  "(key \<in> {''$ref'', ''$dynamicRef''}
      \<and> (case as_str child of Some reference \<Rightarrow> \<not> starts_with ''#'' reference | None \<Rightarrow> False))
   \<longleftrightarrow> member_reference (key, child)"
  by (cases child) (auto simp: member_reference_def)

lemma reject_external_schema_references_iff:
  "reject_external_schema_references v path = Inr () \<longleftrightarrow> \<not> external_reference v"
  "reject_in_members members path = Inr () \<longleftrightarrow>
     \<not> list_ex (\<lambda>member. member_reference member \<or> external_reference (snd member)) members"
  "reject_in_items items index path = Inr () \<longleftrightarrow> \<not> list_ex external_reference items"
  by (induction v path and members path and items index path
        rule: reject_external_schema_references_reject_in_members_reject_in_items.induct)
    (simp_all add: external_reference_object external_reference_array rejected_member Let_def result_iffs
      del: insert_iff)

text \<open>A tool definition the gateway accepts: a short name, and a schema it can compile on its own.\<close>

definition self_contained_tool :: "(json \<Rightarrow> string + 'v) \<Rightarrow> json \<Rightarrow> bool" where
  "self_contained_tool validator_for tool \<longleftrightarrow>
     (\<exists>name schema. get_str tool ''name'' = Some name \<and> 0 < char_count name \<and> char_count name \<le> 64
        \<and> json_get tool ''input_schema'' = Some (JObj schema) \<and> is_ok (validator_for (JObj schema))
        \<and> \<not> external_reference (JObj schema))"

lemma as_object_Some_iff: "as_object v = Some m \<longleftrightarrow> v = JObj m"
  by (cases v) auto

lemma as_array_Some_iff: "as_array v = Some xs \<longleftrightarrow> v = JArr xs"
  by (cases v) auto

lemma compile_tool_schema_Inr_iff:
  "compile_tool_schema validator_for schema path = Inr v \<longleftrightarrow>
     validator_for schema = Inr v \<and> \<not> external_reference schema"
  by (cases "validator_for schema")
    (auto simp: compile_tool_schema_def result_iffs reject_external_schema_references_iff(1) simp del: reject_external_schema_references.simps)

lemma validate_tool_definition_accepts:
  assumes "validate_tool_definition validator_for tool path names = Inr names'"
  shows "self_contained_tool validator_for tool
    \<and> (\<exists>name. get_str tool ''name'' = Some name \<and> name \<notin> set names \<and> names' = name # names)"
  using assms
  by (auto simp: validate_tool_definition_def self_contained_tool_def result_iffs compile_tool_schema_Inr_iff
      validate_tool_name_def Let_def bind_eq_Some_conv as_object_Some_iff
      split: if_splits)

lemma validate_tool_list_accepts:
  assumes "validate_tool_list validator_for tools index names = Inr names'" and "distinct names"
  shows "list_all (self_contained_tool validator_for) tools
    \<and> (\<exists>new. map (\<lambda>t. get_str t ''name'') tools = map Some (rev new) \<and> names' = new @ names \<and> distinct names')"
  using assms
proof (induction tools arbitrary: index names)
  case (Cons tool tools)
  then obtain mid where mid: "validate_tool_definition validator_for tool (indexed ''tools'' index) names = Inr mid"
    and rest: "validate_tool_list validator_for tools (Suc index) mid = Inr names'"
    by (auto simp: result_iffs)
  from validate_tool_definition_accepts [OF mid] obtain name where
    name: "get_str tool ''name'' = Some name" "name \<notin> set names" "mid = name # names"
    and ok: "self_contained_tool validator_for tool" by blast
  from Cons.IH [OF rest] Cons.prems(2) name obtain new where
    "list_all (self_contained_tool validator_for) tools" "map (\<lambda>t. get_str t ''name'') tools = map Some (rev new)"
    "names' = new @ mid" "distinct names'" by auto
  with name ok show ?case by (auto intro!: exI [of _ "new @ [name]"])
qed auto

lemma validate_tool_definitions_accepts:
  assumes "validate_tool_definitions validator_for tools = Inr names"
  obtains ts where "tools = JArr ts" "list_all (self_contained_tool validator_for) ts"
    "map (\<lambda>t. get_str t ''name'') ts = map Some (rev names)" "distinct names"
proof -
  from assms obtain ts where "tools = JArr ts" "validate_tool_list validator_for ts 0 [] = Inr names"
    by (auto simp: validate_tool_definitions_def result_iffs as_array_Some_iff)
  with validate_tool_list_accepts [OF this(2)] that show thesis by auto
qed

section \<open>Tool turns as a specification\<close>

definition block_ids :: "string \<Rightarrow> string \<Rightarrow> json list \<Rightarrow> string list" where
  "block_ids kind key blocks =
     map (\<lambda>b. or_default [] (get_str b key)) (filter (\<lambda>b. is_object b \<and> get_str b ''type'' = Some kind) blocks)"

definition message_blocks :: "string \<Rightarrow> json \<Rightarrow> json list" where
  "message_blocks role message =
     (if or_default [] (get_str message ''role'') = role then or_default [] (get_array message ''content'') else [])"

text \<open>The calls an assistant message makes, their tools, and the results a user message returns.\<close>

definition tool_uses :: "json \<Rightarrow> string list" where
  "tool_uses message = block_ids ''tool_use'' ''id'' (message_blocks ''assistant'' message)"

definition tool_use_names :: "json \<Rightarrow> string list" where
  "tool_use_names message = block_ids ''tool_use'' ''name'' (message_blocks ''assistant'' message)"

definition tool_results :: "json \<Rightarrow> string list" where
  "tool_results message = block_ids ''tool_result'' ''tool_use_id'' (message_blocks ''user'' message)"

definition names_defined :: "string list option \<Rightarrow> string list \<Rightarrow> bool" where
  "names_defined tool_names names = (case tool_names of None \<Rightarrow> True | Some defined \<Rightarrow> set names \<subseteq> set defined)"

lemma names_defined_simps [simp]:
  "names_defined tool_names []"
  "names_defined tool_names (xs @ ys) \<longleftrightarrow> names_defined tool_names xs \<and> names_defined tool_names ys"
  by (auto simp: names_defined_def split: option.splits)

lemma names_defined_Cons:
  "names_defined tool_names (n # ns) \<longleftrightarrow> (case tool_names of None \<Rightarrow> True | Some defined \<Rightarrow> n \<in> set defined)
     \<and> names_defined tool_names ns"
  by (auto simp: names_defined_def split: option.splits)

lemma validate_tool_name_is_defined_iff:
  "validate_tool_name_is_defined n tool_names path = Inr () \<longleftrightarrow>
     (case tool_names of None \<Rightarrow> True | Some defined \<Rightarrow> n \<in> set defined)"
  by (auto simp: validate_tool_name_is_defined_def split: option.splits)

lemma block_ids_Nil [simp]: "block_ids kind key [] = []"
  by (simp add: block_ids_def)

lemma block_ids_Cons:
  "block_ids kind key (b # blocks) =
     (if is_object b \<and> get_str b ''type'' = Some kind then [or_default [] (get_str b key)] else []) @ block_ids kind key blocks"
  by (simp add: block_ids_def)

lemma turn_blocks_assistant:
  "turn_blocks tool_names ''assistant'' blocks path index st = Inr st' \<longleftrightarrow>
     distinct (block_ids ''tool_use'' ''id'' blocks)
     \<and> set (block_ids ''tool_use'' ''id'' blocks) \<inter> set (seen_tool_use_ids st) = {}
     \<and> names_defined tool_names (block_ids ''tool_use'' ''name'' blocks)
     \<and> st' = \<lparr> seen_tool_use_ids = rev (block_ids ''tool_use'' ''id'' blocks) @ seen_tool_use_ids st,
               pending_tool_use_ids = fold List.insert (block_ids ''tool_use'' ''id'' blocks) (pending_tool_use_ids st) \<rparr>"
proof (induction blocks arbitrary: index st)
  case (Cons b blocks)
  show ?case
    by (cases "is_object b \<and> get_str b ''type'' = Some ''tool_use''")
      (auto simp: turn_block_def Let_def result_iffs Cons.IH block_ids_Cons names_defined_Cons
        validate_tool_name_is_defined_iff)
qed auto

lemma turn_blocks_user:
  assumes "set (pending_tool_use_ids st) \<subseteq> set (seen_tool_use_ids st)"
  shows "turn_blocks tool_names ''user'' blocks path index st = Inr st' \<longleftrightarrow>
     distinct (block_ids ''tool_result'' ''tool_use_id'' blocks)
     \<and> set (block_ids ''tool_result'' ''tool_use_id'' blocks) \<subseteq> set (pending_tool_use_ids st)
     \<and> st' = st\<lparr> pending_tool_use_ids := fold removeAll (block_ids ''tool_result'' ''tool_use_id'' blocks) (pending_tool_use_ids st) \<rparr>"
  using assms
proof (induction blocks arbitrary: index st)
  case (Cons b blocks)
  have sub: "set (pending_tool_use_ids (st\<lparr>pending_tool_use_ids := removeAll i (pending_tool_use_ids st)\<rparr>))
      \<subseteq> set (seen_tool_use_ids (st\<lparr>pending_tool_use_ids := removeAll i (pending_tool_use_ids st)\<rparr>))" for i
    using Cons.prems by auto
  show ?case using Cons.prems
    by (cases "is_object b \<and> get_str b ''type'' = Some ''tool_result''")
      (auto simp: turn_block_def Let_def result_iffs Cons.IH [OF sub] Cons.IH block_ids_Cons)
qed auto

lemma turn_blocks_other:
  "role \<noteq> ''assistant'' \<Longrightarrow> role \<noteq> ''user'' \<Longrightarrow> turn_blocks tool_names role blocks path index st = Inr st"
  by (induction blocks arbitrary: index) (auto simp: turn_block_def)

text \<open>
  One message: it returns exactly the results that wait, and its own calls become the pending ones.
\<close>

lemma set_fold_insert [simp]: "set (fold List.insert xs ys) = set xs \<union> set ys"
  by (induction xs arbitrary: ys) auto

lemma set_fold_removeAll [simp]: "set (fold removeAll xs ys) = set ys - set xs"
  by (induction xs arbitrary: ys) auto

lemma list_empty_iff_set: "xs = [] \<longleftrightarrow> set xs = {}"
  by simp

lemma turn_message_iff:
  assumes "set (pending_tool_use_ids st) \<subseteq> set (seen_tool_use_ids st)"
  shows "turn_message tool_names message index st = Inr st' \<longleftrightarrow>
    distinct (tool_results message) \<and> set (tool_results message) = set (pending_tool_use_ids st)
    \<and> distinct (tool_uses message) \<and> set (tool_uses message) \<inter> set (seen_tool_use_ids st) = {}
    \<and> names_defined tool_names (tool_use_names message)
    \<and> st' = \<lparr> seen_tool_use_ids = rev (tool_uses message) @ seen_tool_use_ids st,
              pending_tool_use_ids = fold List.insert (tool_uses message) (fold removeAll (tool_results message) (pending_tool_use_ids st)) \<rparr>"
proof (cases "get_array message ''content''")
  case None
  then show ?thesis
    by (auto simp: turn_message_def Let_def tool_results_def tool_uses_def tool_use_names_def message_blocks_def or_default_def)
next
  case (Some blocks)
  define role where "role = or_default [] (get_str message ''role'')"
  consider "role = ''assistant''" | "role = ''user''" | "role \<noteq> ''assistant''" "role \<noteq> ''user''" by blast
  then show ?thesis
  proof cases
    case 1
    have [simp]: "message_blocks ''assistant'' message = blocks" "message_blocks ''user'' message = []"
      using 1 Some unfolding role_def by (simp_all add: message_blocks_def or_default_def)
    show ?thesis
      using 1 Some unfolding role_def
      by (auto simp: turn_message_def Let_def result_iffs turn_blocks_assistant tool_results_def tool_uses_def tool_use_names_def)
  next
    case 2
    have [simp]: "message_blocks ''user'' message = blocks" "message_blocks ''assistant'' message = []"
      using 2 Some unfolding role_def by (simp_all add: message_blocks_def or_default_def)
    show ?thesis
      using 2 Some unfolding role_def
      by (auto simp: turn_message_def Let_def result_iffs turn_blocks_user [OF assms] tool_results_def tool_uses_def
          tool_use_names_def list_empty_iff_set simp del: set_empty split: if_splits)
  next
    case 3
    have [simp]: "message_blocks ''user'' message = []" "message_blocks ''assistant'' message = []"
      using 3 Some unfolding role_def by (simp_all add: message_blocks_def)
    show ?thesis
      using 3 Some unfolding role_def
      by (auto simp: turn_message_def Let_def turn_blocks_other tool_results_def tool_uses_def tool_use_names_def)
  qed
qed

lemma mset_eq_mset_set_iff: "mset xs = mset_set (set ys) \<longleftrightarrow> distinct xs \<and> set xs = set ys"
proof
  assume eq: "mset xs = mset_set (set ys)"
  have same: "set xs = set ys" using arg_cong [OF eq, of set_mset] by simp
  moreover have "distinct xs"
    using eq same by (simp add: distinct_count_atmost_1 count_mset_set')
  ultimately show "distinct xs \<and> set xs = set ys" by simp
qed (use mset_set_set in metis)

lemma turn_messages_iff:
  assumes "set (pending_tool_use_ids st) \<subseteq> set (seen_tool_use_ids st)"
  shows "(\<exists>st'. turn_messages tool_names messages index st = Inr st' \<and> pending_tool_use_ids st' = []) \<longleftrightarrow>
    distinct (concat (map tool_uses messages))
    \<and> set (concat (map tool_uses messages)) \<inter> set (seen_tool_use_ids st) = {}
    \<and> names_defined tool_names (concat (map tool_use_names messages))
    \<and> map (\<lambda>m. mset (tool_results m)) messages @ [{#}] =
       mset_set (set (pending_tool_use_ids st)) # map (\<lambda>m. mset (tool_uses m)) messages"
  using assms
proof (induction messages arbitrary: st index)
  case Nil
  then show ?case by (auto simp: mset_set_empty_iff)
next
  case (Cons m ms)
  define after where "after = \<lparr> seen_tool_use_ids = rev (tool_uses m) @ seen_tool_use_ids st,
    pending_tool_use_ids = fold List.insert (tool_uses m) (fold removeAll (tool_results m) (pending_tool_use_ids st)) \<rparr>"
  define good where "good \<longleftrightarrow> distinct (tool_results m) \<and> set (tool_results m) = set (pending_tool_use_ids st)
    \<and> distinct (tool_uses m) \<and> set (tool_uses m) \<inter> set (seen_tool_use_ids st) = {}
    \<and> names_defined tool_names (tool_use_names m)"
  have step: "turn_message tool_names m index st = Inr st1 \<longleftrightarrow> good \<and> st1 = after" for st1
    unfolding turn_message_iff [OF Cons.prems] good_def after_def by blast
  have seen: "seen_tool_use_ids after = rev (tool_uses m) @ seen_tool_use_ids st" by (simp add: after_def)
  have pending: "good \<Longrightarrow> set (pending_tool_use_ids after) = set (tool_uses m)" by (auto simp: after_def good_def)
  have "(\<exists>st'. turn_messages tool_names (m # ms) index st = Inr st' \<and> pending_tool_use_ids st' = []) \<longleftrightarrow>
    good \<and> (\<exists>st'. turn_messages tool_names ms (Suc index) after = Inr st' \<and> pending_tool_use_ids st' = [])"
    by (auto simp: result_iffs step)
  also have "\<dots> \<longleftrightarrow> good \<and> distinct (concat (map tool_uses ms))
      \<and> set (concat (map tool_uses ms)) \<inter> (set (tool_uses m) \<union> set (seen_tool_use_ids st)) = {}
      \<and> names_defined tool_names (concat (map tool_use_names ms))
      \<and> map (\<lambda>m. mset (tool_results m)) ms @ [{#}] = mset_set (set (tool_uses m)) # map (\<lambda>m. mset (tool_uses m)) ms"
    using Cons.IH [of after "Suc index"] pending seen by auto
  also have "\<dots> \<longleftrightarrow> distinct (concat (map tool_uses (m # ms)))
      \<and> set (concat (map tool_uses (m # ms))) \<inter> set (seen_tool_use_ids st) = {}
      \<and> names_defined tool_names (concat (map tool_use_names (m # ms)))
      \<and> map (\<lambda>m. mset (tool_results m)) (m # ms) @ [{#}] =
         mset_set (set (pending_tool_use_ids st)) # map (\<lambda>m. mset (tool_uses m)) (m # ms)"
    by (auto simp: good_def mset_eq_mset_set_iff mset_set_set)
  finally show ?case .
qed

text \<open>
  C21: Tool turns.  The check of the tool turns of a conversation accepts exactly the
  conversations in which no tool call identifier is used twice, every call names a declared tool
  when the request declares tools, and each message returns the results of precisely the calls of the message
  before it, each once: nothing is left unanswered at the end, answered twice, late or early.
\<close>

theorem tool_turns_are_answered:
  "validate_tool_turn_references request tool_names = Inr () \<longleftrightarrow>
     distinct (concat (map tool_uses (ar_messages request)))
     \<and> names_defined tool_names (concat (map tool_use_names (ar_messages request)))
     \<and> map (\<lambda>m. mset (tool_results m)) (ar_messages request) @ [{#}] =
        {#} # map (\<lambda>m. mset (tool_uses m)) (ar_messages request)"
proof -
  have "validate_tool_turn_references request tool_names = Inr () \<longleftrightarrow>
    (\<exists>st'. turn_messages tool_names (ar_messages request) 0 no_turns = Inr st' \<and> pending_tool_use_ids st' = [])"
    by (auto simp: validate_tool_turn_references_def result_iffs split: if_splits)
  also have "\<dots> \<longleftrightarrow> distinct (concat (map tool_uses (ar_messages request)))
     \<and> names_defined tool_names (concat (map tool_use_names (ar_messages request)))
     \<and> map (\<lambda>m. mset (tool_results m)) (ar_messages request) @ [{#}] =
        {#} # map (\<lambda>m. mset (tool_uses m)) (ar_messages request)"
    using turn_messages_iff [of no_turns tool_names "ar_messages request" 0] by (simp add: no_turns_def)
  finally show ?thesis .
qed

text \<open>
  C22: Tool definitions.  The tools of an accepted request are an array of definitions with
  distinct names of 1 to 64 characters, each with an object schema that the schema compiler takes
  and that refers to no other document at any depth: compiling or applying it fetches nothing.
\<close>

theorem accepted_tools_are_self_contained:
  assumes "validate_anthropic_tooling validator_for request = Inr ()"
    and "bt_get (ar_extra request) ''tools'' = Some tools"
  shows "\<exists>ts. tools = JArr ts \<and> list_all (self_contained_tool validator_for) ts
    \<and> distinct (map (\<lambda>t. get_str t ''name'') ts)"
proof -
  from assms obtain names where "validate_tool_definitions validator_for tools = Inr names"
    by (auto simp: validate_anthropic_tooling_def result_iffs)
  then obtain ts where "tools = JArr ts" "list_all (self_contained_tool validator_for) ts"
    "map (\<lambda>t. get_str t ''name'') ts = map Some (rev names)" "distinct names"
    by (rule validate_tool_definitions_accepts)
  moreover have "distinct (map Some (rev names))" using \<open>distinct names\<close> by (simp add: distinct_map)
  ultimately show ?thesis by auto
qed

definition sample_tool :: json where
  "sample_tool = JObj [(''input_schema'', JObj [(''$ref'', JStr ''#/x''), (''type'', JStr ''object'')]), (''name'', JStr ''ls'')]"

definition sample_tools_request :: anthropic_request where
  "sample_tools_request = \<lparr> ar_model = ''m'', ar_max_tokens = None, ar_messages = [], ar_system = None,
     ar_stream = None, ar_extra = [(''tools'', JArr [sample_tool])] \<rparr>"

theorem accepted_tools_are_self_contained_witness:
  "validate_anthropic_tooling (\<lambda>schema. Inr schema) sample_tools_request = Inr ()
   \<and> (\<exists>ts. JArr [sample_tool] = JArr ts \<and> list_all (self_contained_tool (\<lambda>schema. Inr schema)) ts
        \<and> distinct (map (\<lambda>t. get_str t ''name'') ts))"
proof -
  have ok: "validate_anthropic_tooling (\<lambda>schema. Inr schema) sample_tools_request = Inr ()"
    by code_simp
  show ?thesis
    using ok accepted_tools_are_self_contained [of "\<lambda>schema. Inr schema" sample_tools_request "JArr [sample_tool]"]
    by (simp add: sample_tools_request_def bt_get_def)
qed

text \<open>
  A \<^verbatim>\<open>tool_choice\<close> of type \<^verbatim>\<open>none\<close> bounds the calls of a strict answer by zero, unless the client
  also disables parallel calls: then the bound is one.
\<close>

lemma none_choice_may_admit_a_call:
  assumes "bt_get (ar_extra request) ''tool_choice'' =
      Some (JObj [(''disable_parallel_tool_use'', JBool True), (''type'', JStr ''none'')])"
    and "for_anthropic_request validator_for request tool_use = Inr policy"
  shows "validate_call_summary policy 1 (Some ''tool_calls'') = Inr ()"
  using assms
  by (auto simp: for_anthropic_request_def call_limits_def Let_def result_iffs get_str_def get_bool_def
      validate_call_summary_def bt_get_def)

end
