(* ===== verification/Protocol_Bridge.thy ===== *)
theory Protocol_Bridge
  imports Tool_Use
begin

text \<open>
  The bridge between the Anthropic and the OpenAI-compatible protocol, \<^verbatim>\<open>src/types.rs\<close>: how a
  Messages request becomes a Chat Completions request and how the answer comes back.  Objects
  built by \<^verbatim>\<open>json!\<close> are sorted maps.  Parameters: \<open>to_string\<close> and \<open>from_str\<close> of serde_json,
  and \<open>fresh n\<close>, the UUID drawn for the \<open>n\<close>-th tool call of a message.
\<close>

section \<open>Building blocks\<close>

definition obj :: "(string \<times> json) list \<Rightarrow> json" where
  "obj kvs = JObj (bt_of_list kvs)"

definition newline :: string where
  "newline = [CHR 0x0A]"

fun join_with :: "string \<Rightarrow> string list \<Rightarrow> string" where
  "join_with sep [] = []"
| "join_with sep [x] = x"
| "join_with sep (x # y # rest) = x @ sep @ join_with sep (y # rest)"

definition json_field :: "json \<Rightarrow> string \<Rightarrow> json" where
  "json_field v k = or_default JNull (json_get v k)"

lemma json_get_size: "json_get v k = Some w \<Longrightarrow> size w < size v"
  by (cases v) (auto simp: bt_get_def dest!: map_of_SomeD size_list_estimation' [where f = "size_prod (\<lambda>_. 0) size" and y = "size w"] split: prod.splits)

section \<open>Text of content\<close>

function (sequential) content_to_text :: "json \<Rightarrow> string"
  and block_texts :: "json list \<Rightarrow> string list" where
  "content_to_text (JStr text) = text"
| "content_to_text (JArr blocks) = join_with newline (block_texts blocks)"
| "content_to_text _ = []"
| "block_texts [] = []"
| "block_texts (block # blocks) =
     (if get_str block ''type'' = Some ''text''
      then case get_str block ''text'' of Some text \<Rightarrow> [text] | None \<Rightarrow> []
      else if get_str block ''type'' = Some ''tool_result''
      then [content_to_text (json_field block ''content'')]
      else []) @ block_texts blocks"
  by pat_completeness auto
termination
proof (relation "measure (\<lambda>x. case x of Inl v \<Rightarrow> 2 * size v | Inr vs \<Rightarrow> Suc (2 * size_list size vs))", goal_cases)
  case (3 block blocks)
  then have "size (json_field block ''content'') \<le> size block"
    by (cases "json_get block ''content''") (auto simp: json_field_def or_default_def dest: json_get_size)
  then show ?case by simp
qed auto

definition tool_result_to_text :: "json \<Rightarrow> string" where
  "tool_result_to_text block =
     (let content = content_to_text (json_field block ''content'')
      in if get_bool block ''is_error'' = Some True
         then if content = [] then ''ModelPort tool execution error''
              else ''ModelPort tool execution error:'' @ newline @ content
         else content)"

section \<open>Messages\<close>

definition tool_id :: "(nat \<Rightarrow> string) \<Rightarrow> nat \<Rightarrow> json \<Rightarrow> string" where
  "tool_id fresh n call = (case get_str call ''id'' of Some i \<Rightarrow> i | None \<Rightarrow> ''toolu_'' @ fresh n)"

definition assistant_tool_call ::
  "(json \<Rightarrow> string + string) \<Rightarrow> (nat \<Rightarrow> string) \<Rightarrow> nat \<Rightarrow> json \<Rightarrow> json result" where
  "assistant_tool_call to_string fresh n block =
     (let i = tool_id fresh n block
      in and_then (ok_or (InvalidRequest ''tool_use.name is required'') (get_str block ''name'')) (\<lambda>name.
           let input = or_default (JObj []) (json_get block ''input'')
           in case to_string input of
                Inl error \<Rightarrow> Inl (Json error)
              | Inr arguments \<Rightarrow>
                  Inr (obj [(''id'', JStr i), (''type'', JStr ''function''),
                            (''function'', obj [(''name'', JStr name), (''arguments'', JStr arguments)])])))"

fun assistant_blocks ::
  "(json \<Rightarrow> string + string) \<Rightarrow> (nat \<Rightarrow> string) \<Rightarrow> json list \<Rightarrow> string \<times> json list \<Rightarrow> (string \<times> json list) result" where
  "assistant_blocks to_string fresh [] acc = Inr acc"
| "assistant_blocks to_string fresh (block # blocks) (text, tool_calls) =
     (if get_str block ''type'' = Some ''text''
      then assistant_blocks to_string fresh blocks (text @ or_default [] (get_str block ''text''), tool_calls)
      else if get_str block ''type'' = Some ''tool_use''
      then and_then (assistant_tool_call to_string fresh (length tool_calls) block) (\<lambda>call.
             assistant_blocks to_string fresh blocks (text, tool_calls @ [call]))
      else assistant_blocks to_string fresh blocks (text, tool_calls))"

definition convert_assistant_message ::
  "(json \<Rightarrow> string + string) \<Rightarrow> (nat \<Rightarrow> string) \<Rightarrow> json list \<Rightarrow> json list result" where
  "convert_assistant_message to_string fresh blocks =
     and_then (assistant_blocks to_string fresh blocks ([], [])) (\<lambda>(text, tool_calls).
       Inr [obj ([(''role'', JStr ''assistant''), (''content'', JStr text)] @
                 (if tool_calls \<noteq> [] then [(''tool_calls'', JArr tool_calls)] else []))])"

definition plain_message :: "string \<Rightarrow> string \<Rightarrow> json" where
  "plain_message role text = obj [(''role'', JStr role), (''content'', JStr text)]"

definition tool_message :: "json \<Rightarrow> json" where
  "tool_message block =
     obj [(''role'', JStr ''tool''), (''tool_call_id'', JStr (or_default ''toolu_missing'' (get_str block ''tool_use_id''))),
          (''content'', JStr (tool_result_to_text block))]"

fun user_blocks :: "json list \<Rightarrow> json list \<times> string list \<Rightarrow> json list \<times> string list" where
  "user_blocks [] acc = acc"
| "user_blocks (block # blocks) (messages, text_parts) =
     (if get_str block ''type'' = Some ''text''
      then user_blocks blocks (messages, text_parts @ (case get_str block ''text'' of Some text \<Rightarrow> [text] | None \<Rightarrow> []))
      else if get_str block ''type'' = Some ''tool_result''
      then user_blocks blocks
             ((if text_parts \<noteq> [] then messages @ [plain_message ''user'' (join_with newline text_parts)] else messages)
              @ [tool_message block], [])
      else user_blocks blocks (messages, text_parts))"

definition convert_user_message :: "json list \<Rightarrow> json list" where
  "convert_user_message blocks =
     (let (messages, text_parts) = user_blocks blocks ([], [])
      in if text_parts \<noteq> [] \<or> messages = []
         then messages @ [plain_message ''user'' (join_with newline text_parts)] else messages)"

definition convert_message ::
  "(json \<Rightarrow> string + string) \<Rightarrow> (nat \<Rightarrow> string) \<Rightarrow> json \<Rightarrow> json list result" where
  "convert_message to_string fresh message =
     and_then (ok_or (InvalidRequest ''message.role is required'') (get_str message ''role'')) (\<lambda>role.
       let content = json_field message ''content''
       in case as_str content of
            Some text \<Rightarrow> Inr [plain_message role text]
          | None \<Rightarrow>
              (case as_array content of
                 None \<Rightarrow> Inr [plain_message role (content_to_text content)]
               | Some blocks \<Rightarrow>
                   if role = ''assistant'' then convert_assistant_message to_string fresh blocks
                   else if role = ''user'' then Inr (convert_user_message blocks)
                   else Inr [plain_message role (content_to_text content)]))"

section \<open>Requests\<close>

definition convert_tool :: "json \<Rightarrow> json" where
  "convert_tool tool =
     obj [(''type'', JStr ''function''),
          (''function'', obj ([(''name'', or_default (JStr ''tool'') (json_get tool ''name'')),
                              (''description'', or_default (JStr []) (json_get tool ''description'')),
                              (''parameters'', or_default (obj [(''type'', JStr ''object''), (''properties'', JObj [])])
                                                 (json_get tool ''input_schema''))] @
                             (case json_get tool ''strict'' of Some strict \<Rightarrow> [(''strict'', strict)] | None \<Rightarrow> [])))]"

definition convert_tools :: "json \<Rightarrow> json result" where
  "convert_tools tools =
     and_then (ok_or (InvalidRequest ''tools must be an array'') (as_array tools)) (\<lambda>tools.
       Inr (JArr (map convert_tool tools)))"

definition convert_tool_choice :: "json \<Rightarrow> json" where
  "convert_tool_choice tool_choice =
     (let kind = get_str tool_choice ''type''
      in if kind = Some ''none'' then JStr ''none''
         else if kind = Some ''auto'' then JStr ''auto''
         else if kind = Some ''any'' then JStr ''required''
         else if kind = Some ''tool''
         then (case get_str tool_choice ''name'' of
                 Some name \<Rightarrow> obj [(''type'', JStr ''function''), (''function'', obj [(''name'', JStr name)])]
               | None \<Rightarrow> tool_choice)
         else tool_choice)"

definition copy_optional :: "(string \<times> json) list \<Rightarrow> string \<Rightarrow> (string \<times> json) list \<Rightarrow> (string \<times> json) list" where
  "copy_optional source key target =
     (case bt_get source key of Some value \<Rightarrow> bt_insert key value target | None \<Rightarrow> target)"

datatype max_tokens_field = MaxCompletionTokens | MaxTokens | BothFields

definition insert_max_tokens :: "u64 option \<Rightarrow> max_tokens_field \<Rightarrow> (string \<times> json) list \<Rightarrow> (string \<times> json) list" where
  "insert_max_tokens max_tokens field body =
     (case max_tokens of
        None \<Rightarrow> body
      | Some n \<Rightarrow>
          (case field of
             MaxCompletionTokens \<Rightarrow> bt_insert ''max_completion_tokens'' (JNum (PosInt n)) body
           | MaxTokens \<Rightarrow> bt_insert ''max_tokens'' (JNum (PosInt n)) body
           | BothFields \<Rightarrow>
               bt_insert ''max_tokens'' (JNum (PosInt n)) (bt_insert ''max_completion_tokens'' (JNum (PosInt n)) body)))"

fun convert_messages ::
  "(json \<Rightarrow> string + string) \<Rightarrow> (nat \<Rightarrow> nat \<Rightarrow> string) \<Rightarrow> nat \<Rightarrow> json list \<Rightarrow> json list result" where
  "convert_messages to_string fresh index [] = Inr []"
| "convert_messages to_string fresh index (message # messages) =
     and_then (convert_message to_string (fresh index) message) (\<lambda>converted.
     and_then (convert_messages to_string fresh (Suc index) messages) (\<lambda>rest.
       Inr (converted @ rest)))"

definition system_messages :: "json option \<Rightarrow> json list" where
  "system_messages system =
     (case system of
        None \<Rightarrow> []
      | Some s \<Rightarrow> (let content = content_to_text s in if content \<noteq> [] then [plain_message ''system'' content] else []))"

definition insert_tool_choice :: "json option \<Rightarrow> (string \<times> json) list \<Rightarrow> (string \<times> json) list" where
  "insert_tool_choice tool_choice body =
     (case tool_choice of
        None \<Rightarrow> body
      | Some choice \<Rightarrow>
          (let body = bt_insert ''tool_choice'' (convert_tool_choice choice) body
           in case get_bool choice ''disable_parallel_tool_use'' of
                Some disable_parallel \<Rightarrow> bt_insert ''parallel_tool_calls'' (JBool (\<not> disable_parallel)) body
              | None \<Rightarrow> body))"

definition anthropic_to_openai_request ::
  "(json \<Rightarrow> string + 'v) \<Rightarrow> (json \<Rightarrow> string + string) \<Rightarrow> (nat \<Rightarrow> nat \<Rightarrow> string) \<Rightarrow>
   anthropic_request \<Rightarrow> string \<Rightarrow> bool \<Rightarrow> max_tokens_field \<Rightarrow> json result" where
  "anthropic_to_openai_request validator_for to_string fresh request model stream field =
     and_then (validate_anthropic_tooling validator_for request) (\<lambda>_.
     and_then (convert_messages to_string fresh 0 (ar_messages request)) (\<lambda>converted.
       let extra = ar_extra request;
           body = bt_insert ''stream'' (JBool stream) (bt_insert ''model'' (JStr model) []);
           body = insert_max_tokens (ar_max_tokens request) field body;
           body = bt_insert ''messages'' (JArr (system_messages (ar_system request) @ converted)) body;
           body = fold (copy_optional extra)
             [''temperature'', ''top_p'', ''top_k'', ''presence_penalty'', ''frequency_penalty'', ''seed''] body;
           body = (case bt_get extra ''stop_sequences'' of Some stop \<Rightarrow> bt_insert ''stop'' stop body | None \<Rightarrow> body)
       in and_then (case bt_get extra ''tools'' of
                      None \<Rightarrow> Inr body
                    | Some tools \<Rightarrow> and_then (convert_tools tools) (\<lambda>tools. Inr (bt_insert ''tools'' tools body))) (\<lambda>body.
            Inr (JObj (insert_tool_choice (bt_get extra ''tool_choice'') body)))))"

section \<open>Native requests and error events\<close>

text \<open>
  A request as serde writes it: the fields of the structure, absent options as null, then the
  flattened rest; the model is replaced by the routed one.
\<close>

definition option_value :: "('a \<Rightarrow> json) \<Rightarrow> 'a option \<Rightarrow> json" where
  "option_value f x = (case x of Some v \<Rightarrow> f v | None \<Rightarrow> JNull)"

definition anthropic_request_value :: "anthropic_request \<Rightarrow> string \<Rightarrow> json" where
  "anthropic_request_value request model =
     obj ([(''model'', JStr (ar_model request)),
           (''max_tokens'', option_value (\<lambda>n. JNum (PosInt n)) (ar_max_tokens request)),
           (''messages'', JArr (ar_messages request)), (''system'', option_value (\<lambda>v. v) (ar_system request)),
           (''stream'', option_value JBool (ar_stream request))] @ ar_extra request @ [(''model'', JStr model)])"

record count_tokens_request =
  ct_model :: string
  ct_messages :: "json list"
  ct_system :: "json option"
  ct_extra :: "(string \<times> json) list"

definition as_message_request :: "count_tokens_request \<Rightarrow> anthropic_request" where
  "as_message_request request =
     \<lparr> ar_model = ct_model request, ar_max_tokens = None, ar_messages = ct_messages request,
       ar_system = ct_system request, ar_stream = None, ar_extra = ct_extra request \<rparr>"

definition anthropic_count_tokens_request_value :: "count_tokens_request \<Rightarrow> string \<Rightarrow> json" where
  "anthropic_count_tokens_request_value request model =
     obj ([(''model'', JStr (ct_model request)), (''messages'', JArr (ct_messages request)),
           (''system'', option_value (\<lambda>v. v) (ct_system request))] @ ct_extra request @ [(''model'', JStr model)])"

fun error_event_kind :: "app_error \<Rightarrow> string" where
  "error_event_kind (InvalidRequest _) = ''invalid_request_error''"
| "error_event_kind (IdempotencyConflict _) = ''invalid_request_error''"
| "error_event_kind (StateConflict _) = ''invalid_request_error''"
| "error_event_kind (NotFound _) = ''invalid_request_error''"
| "error_event_kind (ProviderNotFound _) = ''invalid_request_error''"
| "error_event_kind (PricingUnverified _) = ''invalid_request_error''"
| "error_event_kind Auth = ''authentication_error''"
| "error_event_kind (Forbidden _) = ''permission_error''"
| "error_event_kind (QuotaExceeded _) = ''rate_limit_error''"
| "error_event_kind (RateLimited _ _) = ''rate_limit_error''"
| "error_event_kind (MissingSecret _) = ''server_error''"
| "error_event_kind (Config _) = ''server_error''"
| "error_event_kind (Database _) = ''server_error''"
| "error_event_kind (NotReady _) = ''server_error''"
| "error_event_kind (Transport _) = ''api_error''"
| "error_event_kind (Upstream _ _ _) = ''api_error''"
| "error_event_kind (UpstreamProtocol _) = ''api_error''"
| "error_event_kind (ToolArgumentsInvalid _ _ _) = ''api_error''"
| "error_event_kind (Io _) = ''server_error''"
| "error_event_kind (Json _) = ''server_error''"

text \<open>An event is its name and its data; the text of the data is the writer's.\<close>

definition anthropic_error_event :: "app_error \<Rightarrow> string \<times> json" where
  "anthropic_error_event error =
     (''error'', obj [(''type'', JStr ''error''),
        (''error'', obj [(''type'', JStr (error_event_kind error)), (''message'', JStr (client_safe_message error))])])"

section \<open>Answers\<close>

definition map_finish_reason :: "string \<Rightarrow> string" where
  "map_finish_reason reason =
     (if reason = ''length'' then ''max_tokens''
      else if reason \<in> {''tool_calls'', ''function_call''} then ''tool_use''
      else ''end_turn'')"

text \<open>A tool-use block from a call: \<open>f\<close> holds name and arguments.\<close>

definition tool_use_block ::
  "(string \<Rightarrow> string + json) \<Rightarrow> ('v \<Rightarrow> json \<Rightarrow> (string \<times> string) option) \<Rightarrow>
   'v tool_response_policy \<Rightarrow> string \<Rightarrow> json \<Rightarrow> json result" where
  "tool_use_block from_str validate policy i f =
     and_then (validate_name policy (get_str f ''name'')) (\<lambda>name.
     and_then (parse_arguments from_str validate policy name (or_default ''{}'' (get_str f ''arguments''))) (\<lambda>input.
       Inr (obj [(''type'', JStr ''tool_use''), (''id'', JStr i), (''name'', JStr name), (''input'', input)])))"

fun response_calls ::
  "(string \<Rightarrow> string + json) \<Rightarrow> ('v \<Rightarrow> json \<Rightarrow> (string \<times> string) option) \<Rightarrow> (nat \<Rightarrow> string) \<Rightarrow>
   'v tool_response_policy \<Rightarrow> nat \<Rightarrow> string list \<Rightarrow> json list \<Rightarrow> json list result" where
  "response_calls from_str validate fresh policy n ids [] = Inr []"
| "response_calls from_str validate fresh policy n ids (call # calls) =
     (let i = tool_id fresh n call
      in if tp_validation policy = StrictValidation \<and> i \<in> set ids
         then Inl (UpstreamProtocol (''OpenAI-compatible upstream returned duplicate tool call id `'' @ i @ ''`''))
         else and_then (tool_use_block from_str validate policy i (json_field call ''function'')) (\<lambda>block.
              and_then (response_calls from_str validate fresh policy (Suc n) (i # ids) calls) (\<lambda>blocks.
                Inr (block # blocks))))"

definition answer_calls ::
  "(string \<Rightarrow> string + json) \<Rightarrow> ('v \<Rightarrow> json \<Rightarrow> (string \<times> string) option) \<Rightarrow> (nat \<Rightarrow> string) \<Rightarrow>
   'v tool_response_policy \<Rightarrow> json \<Rightarrow> json list result" where
  "answer_calls from_str validate fresh policy message =
     and_then (response_calls from_str validate fresh policy 0 [] (or_default [] (get_array message ''tool_calls''))) (\<lambda>blocks.
       if blocks \<noteq> [] then Inr blocks
       else case json_get message ''function_call'' of
              None \<Rightarrow> Inr []
            | Some function_call \<Rightarrow>
                and_then (tool_use_block from_str validate policy (''toolu_'' @ fresh 0) function_call) (\<lambda>block.
                  Inr [block]))"

definition text_blocks :: "json \<Rightarrow> json list" where
  "text_blocks message =
     (case get_str message ''content'' of
        Some text \<Rightarrow> if text \<noteq> [] then [obj [(''type'', JStr ''text''), (''text'', JStr text)]] else []
      | None \<Rightarrow> [])"

definition openai_response_to_anthropic ::
  "(string \<Rightarrow> string + json) \<Rightarrow> ('v \<Rightarrow> json \<Rightarrow> (string \<times> string) option) \<Rightarrow> (nat \<Rightarrow> string) \<Rightarrow>
   json \<Rightarrow> string \<Rightarrow> 'v tool_response_policy \<Rightarrow> json result" where
  "openai_response_to_anthropic from_str validate fresh response requested_model policy =
     and_then (ok_or (UpstreamProtocol ''OpenAI-compatible response has no choices'')
                 (case get_array response ''choices'' of Some (choice # _) \<Rightarrow> Some choice | _ \<Rightarrow> None)) (\<lambda>choice.
     and_then (ok_or (UpstreamProtocol ''OpenAI-compatible response has no message'') (json_get choice ''message'')) (\<lambda>message.
     let finish_reason = get_str choice ''finish_reason''
     in and_then (answer_calls from_str validate fresh policy message) (\<lambda>calls.
        and_then (validate_call_summary policy (length calls) finish_reason) (\<lambda>_.
          let usage = json_field response ''usage'';
              tokens = (\<lambda>k. or_default 0 (Option.bind (json_get usage k) as_u64))
          in Inr (obj [(''id'', JStr (''msg_'' @ or_default ''modelport'' (get_str response ''id''))),
                       (''type'', JStr ''message''), (''role'', JStr ''assistant''), (''model'', JStr requested_model),
                       (''content'', JArr (text_blocks message @ calls)),
                       (''stop_reason'', JStr (case finish_reason of Some r \<Rightarrow> map_finish_reason r | None \<Rightarrow> ''end_turn'')),
                       (''stop_sequence'', JNull),
                       (''usage'', obj [(''input_tokens'', JNum (PosInt (tokens ''prompt_tokens''))),
                                        (''output_tokens'', JNum (PosInt (tokens ''completion_tokens'')))])])))))"

lemma json_get_obj [simp]: "json_get (obj kvs) k = map_of (rev kvs) k"
proof -
  have "bt_get (foldl (\<lambda>m (k, v). bt_insert k v m) m kvs) k = (case map_of (rev kvs) k of Some v \<Rightarrow> Some v | None \<Rightarrow> bt_get m k)" for m
    by (induction kvs arbitrary: m) (auto simp: map_add_def split: option.splits)
  then show ?thesis by (simp add: obj_def bt_of_list_def split: option.splits)
qed

lemma get_obj [simp]:
  "get_str (obj kvs) k = Option.bind (map_of (rev kvs) k) as_str"
  "get_array (obj kvs) k = Option.bind (map_of (rev kvs) k) as_array"
  by (simp_all add: get_str_def get_array_def)

section \<open>Hidden reasoning\<close>

definition visible :: "json \<Rightarrow> bool" where
  "visible block \<longleftrightarrow> get_str block ''type'' \<noteq> Some ''thinking'' \<and> get_str block ''type'' \<noteq> Some ''redacted_thinking''"

lemma hidden_type:
  assumes "\<not> visible block"
  shows "get_str block ''type'' \<noteq> Some ''text''" "get_str block ''type'' \<noteq> Some ''tool_use''"
    "get_str block ''type'' \<noteq> Some ''tool_result''"
  using assms by (auto simp: visible_def)

lemma block_texts_visible: "block_texts (filter visible blocks) = block_texts blocks"
  by (induction blocks) (auto simp: hidden_type)

lemma content_to_text_visible: "content_to_text (JArr (filter visible blocks)) = content_to_text (JArr blocks)"
  by (simp add: block_texts_visible)

lemma assistant_blocks_visible:
  "assistant_blocks to_string fresh (filter visible blocks) acc = assistant_blocks to_string fresh blocks acc"
proof (induction blocks arbitrary: acc)
  case (Cons b blocks)
  then show ?case by (cases acc) (auto simp: hidden_type and_then_def split: sum.splits)
qed simp

lemma user_blocks_visible: "user_blocks (filter visible blocks) acc = user_blocks blocks acc"
proof (induction blocks arbitrary: acc)
  case (Cons b blocks)
  then show ?case by (cases acc) (auto simp: hidden_type)
qed simp

text \<open>Two messages that differ at most in thinking blocks.\<close>

definition same_visible :: "json \<Rightarrow> json \<Rightarrow> bool" where
  "same_visible m m' \<longleftrightarrow> m = m' \<or> (get_str m ''role'' = get_str m' ''role''
     \<and> (\<exists>xs ys. json_get m ''content'' = Some (JArr xs) \<and> json_get m' ''content'' = Some (JArr ys)
            \<and> filter visible xs = filter visible ys))"

lemma convert_message_same_visible:
  assumes "same_visible m m'"
  shows "convert_message to_string fresh m = convert_message to_string fresh m'"
proof -
  have "convert_message to_string fresh m = convert_message to_string fresh m'"
    if role: "get_str m ''role'' = get_str m' ''role''"
      and xs: "json_get m ''content'' = Some (JArr xs)" and ys: "json_get m' ''content'' = Some (JArr ys)"
      and same: "filter visible xs = filter visible ys" for xs ys
  proof -
    have "content_to_text (JArr xs) = content_to_text (JArr ys)"
      using content_to_text_visible [of xs] content_to_text_visible [of ys] same by metis
    moreover have "convert_assistant_message to_string fresh xs = convert_assistant_message to_string fresh ys"
      using assistant_blocks_visible [of to_string fresh xs] assistant_blocks_visible [of to_string fresh ys] same
      unfolding convert_assistant_message_def by metis
    moreover have "convert_user_message xs = convert_user_message ys"
      using user_blocks_visible [of xs] user_blocks_visible [of ys] same unfolding convert_user_message_def by metis
    ultimately show ?thesis
      using role xs ys by (simp add: convert_message_def json_field_def or_default_def cong: if_cong)
  qed
  with assms show ?thesis by (auto simp: same_visible_def)
qed

lemma convert_messages_same_visible:
  "list_all2 same_visible ms ms' \<Longrightarrow> convert_messages to_string fresh index ms = convert_messages to_string fresh index ms'"
proof (induction arbitrary: index rule: list_all2_induct)
  case (Cons m ms m' ms')
  show ?case by (simp add: convert_message_same_visible [OF Cons(1)] Cons.IH)
qed simp

text \<open>
  C24: Hidden reasoning stays behind.  Thinking and redacted-thinking blocks have no influence on
  what the upstream receives: two accepted requests whose messages differ only in such blocks
  convert to the same request.
\<close>

theorem hidden_reasoning_is_not_forwarded:
  assumes "list_all2 same_visible (ar_messages request) messages"
    and "validate_anthropic_tooling validator_for request = Inr ()"
    and "validate_anthropic_tooling validator_for (request\<lparr> ar_messages := messages \<rparr>) = Inr ()"
  shows "anthropic_to_openai_request validator_for to_string fresh request model stream field =
    anthropic_to_openai_request validator_for to_string fresh (request\<lparr> ar_messages := messages \<rparr>) model stream field"
  using assms by (simp add: anthropic_to_openai_request_def convert_messages_same_visible [OF assms(1)])

definition thinking_message :: json where
  "thinking_message = JObj [(''content'', JArr [JObj [(''thinking'', JStr ''secret''), (''type'', JStr ''thinking'')],
     JObj [(''text'', JStr ''hello''), (''type'', JStr ''text'')]]), (''role'', JStr ''assistant'')]"

definition spoken_message :: json where
  "spoken_message = JObj [(''content'', JArr [JObj [(''text'', JStr ''hello''), (''type'', JStr ''text'')]]),
     (''role'', JStr ''assistant'')]"

definition plain_request :: "json list \<Rightarrow> anthropic_request" where
  "plain_request messages = \<lparr> ar_model = ''m'', ar_max_tokens = None, ar_messages = messages, ar_system = None,
     ar_stream = None, ar_extra = [] \<rparr>"

theorem hidden_reasoning_is_not_forwarded_witness:
  "anthropic_to_openai_request Inr (\<lambda>_. Inr ''{}'') (\<lambda>_ _. ''u'') (plain_request [thinking_message]) ''m'' False MaxTokens =
   anthropic_to_openai_request Inr (\<lambda>_. Inr ''{}'') (\<lambda>_ _. ''u'') (plain_request [spoken_message]) ''m'' False MaxTokens"
proof -
  have "list_all2 same_visible (ar_messages (plain_request [thinking_message])) [spoken_message]"
    by (simp add: plain_request_def same_visible_def thinking_message_def spoken_message_def visible_def bt_get_def get_str_def)
  moreover have "validate_anthropic_tooling (Inr :: json \<Rightarrow> string + json) (plain_request [thinking_message]) = Inr ()"
    by code_simp
  moreover have "validate_anthropic_tooling (Inr :: json \<Rightarrow> string + json) (plain_request [spoken_message]) = Inr ()"
    by code_simp
  ultimately show ?thesis
    using hidden_reasoning_is_not_forwarded [of "plain_request [thinking_message]" "[spoken_message]" "Inr :: json \<Rightarrow> string + json"]
    by (simp add: plain_request_def)
qed

section \<open>Strict answers\<close>

text \<open>A call the request allows: to a declared tool, with an input that its own schema accepts.\<close>

definition allowed_call ::
  "(json \<Rightarrow> string + 'v) \<Rightarrow> ('v \<Rightarrow> json \<Rightarrow> (string \<times> string) option) \<Rightarrow> json list \<Rightarrow> json \<Rightarrow> bool" where
  "allowed_call validator_for validate tools block \<longleftrightarrow>
     (\<exists>tool\<in>set tools. \<exists>name input schema validator.
        get_str block ''name'' = Some name \<and> json_get block ''input'' = Some input \<and> is_object input
        \<and> get_str tool ''name'' = Some name \<and> json_get tool ''input_schema'' = Some schema
        \<and> validator_for schema = Inr validator \<and> validate validator input = None)"

definition declared_tools :: "anthropic_request \<Rightarrow> json list" where
  "declared_tools request = or_default [] (Option.bind (bt_get (ar_extra request) ''tools'') as_array)"

definition answer_tool_uses :: "json \<Rightarrow> json list" where
  "answer_tool_uses answer =
     filter (\<lambda>block. get_str block ''type'' = Some ''tool_use'') (or_default [] (get_array answer ''content''))"

lemma compile_validators_sound:
  assumes "compile_validators validator_for tools index acc = Inr validators" "map_of validators name = Some v"
  shows "map_of acc name = Some v \<or> (\<exists>tool\<in>set tools. \<exists>schema. get_str tool ''name'' = Some name
    \<and> json_get tool ''input_schema'' = Some schema \<and> validator_for schema = Inr v)"
  using assms
proof (induction tools arbitrary: index acc)
  case (Cons tool tools)
  then obtain n schema w where t: "get_str tool ''name'' = Some n" "json_get tool ''input_schema'' = Some schema"
      "validator_for schema = Inr w"
      "compile_validators validator_for tools (Suc index) (AList.update n w acc) = Inr validators"
    by (auto simp: result_iffs compile_tool_schema_Inr_iff)
  from Cons.IH [OF t(4) Cons.prems(2)] show ?case
    using t(1-3) by (auto simp: update_conv split: if_splits)
qed simp

lemma no_pair_iff: "(\<forall>a b. x \<noteq> Some (a, b)) \<longleftrightarrow> x = None"
  by (cases x) auto

lemma parse_arguments_strict:
  assumes "parse_arguments from_str validate policy name arguments = Inr input" "tp_validation policy = StrictValidation"
  shows "is_object input \<and> (\<exists>v. map_of (tp_input_validators policy) name = Some v \<and> validate v input = None)"
  using assms
  by (auto simp: result_iffs parse_arguments_def no_pair_iff split: if_splits sum.splits option.splits)

lemma tool_use_block_strict:
  assumes "tool_use_block from_str validate policy i f = Inr block" "tp_validation policy = StrictValidation"
  obtains name input v where
    "block = obj [(''type'', JStr ''tool_use''), (''id'', JStr i), (''name'', JStr name), (''input'', input)]"
    "is_object input" "map_of (tp_input_validators policy) name = Some v" "validate v input = None"
proof -
  from assms(1) obtain name input where
    "parse_arguments from_str validate policy name (or_default ''{}'' (get_str f ''arguments'')) = Inr input"
    "block = obj [(''type'', JStr ''tool_use''), (''id'', JStr i), (''name'', JStr name), (''input'', input)]"
    by (auto simp: tool_use_block_def result_iffs)
  with parse_arguments_strict [OF this(1) assms(2)] that show thesis by blast
qed

lemma response_calls_strict:
  assumes "response_calls from_str validate fresh policy n ids calls = Inr blocks" "tp_validation policy = StrictValidation"
    and "\<And>i f b. tool_use_block from_str validate policy i f = Inr b \<Longrightarrow> P b"
  shows "list_all P blocks \<and> (\<exists>is. map (\<lambda>b. get_str b ''id'') blocks = map Some is \<and> distinct is \<and> set is \<inter> set ids = {})"
  using assms(1)
proof (induction calls arbitrary: n ids blocks)
  case (Cons call calls)
  then obtain b bs where b: "tool_use_block from_str validate policy (tool_id fresh n call) (json_field call ''function'') = Inr b"
      and new: "tool_id fresh n call \<notin> set ids" and blocks: "blocks = b # bs"
      and rest: "response_calls from_str validate fresh policy (Suc n) (tool_id fresh n call # ids) calls = Inr bs"
    using assms(2) by (auto simp: Let_def result_iffs split: if_splits)
  have i: "get_str b ''id'' = Some (tool_id fresh n call)"
    by (rule tool_use_block_strict [OF b assms(2)]) simp
  from Cons.IH [OF rest] obtain "is" where "list_all P bs" "map (\<lambda>b. get_str b ''id'') bs = map Some is" "distinct is"
      "set is \<inter> set (tool_id fresh n call # ids) = {}" by blast
  with assms(3) [OF b] new i show ?case
    by (auto simp: blocks intro!: exI [of _ "tool_id fresh n call # is"])
qed auto

lemma answer_calls_strict:
  assumes "answer_calls from_str validate fresh policy message = Inr blocks" "tp_validation policy = StrictValidation"
    and "\<And>i f b. tool_use_block from_str validate policy i f = Inr b \<Longrightarrow> P b"
  shows "list_all P blocks \<and> distinct (map (\<lambda>b. get_str b ''id'') blocks)"
proof -
  from assms(1) obtain bs where bs:
      "response_calls from_str validate fresh policy 0 [] (or_default [] (get_array message ''tool_calls'')) = Inr bs"
      and cases: "blocks = bs \<or> blocks = [] \<or> (\<exists>i f b. blocks = [b] \<and> tool_use_block from_str validate policy i f = Inr b)"
    by (auto simp: answer_calls_def result_iffs split: if_splits option.splits)
  from response_calls_strict [where P = P, OF bs assms(2)] assms(3) obtain "is" where
    "list_all P bs" "map (\<lambda>b. get_str b ''id'') bs = map Some is" "distinct is" by blast
  then have "list_all P bs \<and> distinct (map (\<lambda>b. get_str b ''id'') bs)" by (simp add: distinct_map)
  with cases assms(3) show ?thesis by auto
qed

lemma tool_use_blocks_of_answer:
  assumes "list_all (\<lambda>b. get_str b ''type'' = Some ''tool_use'') calls"
  shows "filter (\<lambda>b. get_str b ''type'' = Some ''tool_use'') (text_blocks message @ calls) = calls"
  using assms by (auto simp: text_blocks_def list_all_iff split: option.splits)

lemma tool_use_block_type:
  "tool_use_block from_str validate policy i f = Inr b \<Longrightarrow> get_str b ''type'' = Some ''tool_use''"
  by (auto simp: tool_use_block_def result_iffs)

lemma strict_policy:
  assumes "for_anthropic_request validator_for request tool_use = Inr policy"
    and "tu_response_validation tool_use = StrictValidation"
  shows "tp_validation policy = StrictValidation"
    and "compile_validators validator_for (declared_tools request) 0 [] = Inr (tp_input_validators policy)"
  using assms by (auto simp: for_anthropic_request_def Let_def result_iffs declared_tools_def case_prod_unfold)

lemma strict_policy_block:
  assumes "for_anthropic_request validator_for request tool_use = Inr policy"
    and "tu_response_validation tool_use = StrictValidation"
    and "tool_use_block from_str validate policy i f = Inr b"
  shows "allowed_call validator_for validate (declared_tools request) b"
proof -
  note strict = strict_policy(1) [OF assms(1,2)] and comp = strict_policy(2) [OF assms(1,2)]
  from tool_use_block_strict [OF assms(3) strict] obtain name input v where
    b: "b = obj [(''type'', JStr ''tool_use''), (''id'', JStr i), (''name'', JStr name), (''input'', input)]"
    "is_object input" "map_of (tp_input_validators policy) name = Some v" "validate v input = None" by blast
  from compile_validators_sound [OF comp b(3)] obtain tool schema where
    "tool \<in> set (declared_tools request)" "get_str tool ''name'' = Some name"
    "json_get tool ''input_schema'' = Some schema" "validator_for schema = Inr v" by auto
  with b show ?thesis unfolding allowed_call_def by (intro bexI [of _ tool]) auto
qed


definition strict_tool_use :: tool_use_config where
  "strict_tool_use = (default_tool_use_config ''openai'' OpenaiCompat False)\<lparr> tu_response_validation := StrictValidation \<rparr>"

definition sample_answer :: json where
  "sample_answer = JObj [(''choices'', JArr [JObj [(''finish_reason'', JStr ''tool_calls''),
     (''message'', JObj [(''tool_calls'', JArr [JObj [(''function'', JObj [(''arguments'', JStr ''{}''), (''name'', JStr ''ls'')]),
        (''id'', JStr ''c1'')]])])]])]"


section \<open>Round trip of assistant turns\<close>

text \<open>What serde_json promises of a value: its text is not blank and parses to the value.\<close>

definition reads_back :: "(json \<Rightarrow> string + string) \<Rightarrow> (string \<Rightarrow> string + json) \<Rightarrow> json \<Rightarrow> bool" where
  "reads_back to_string from_str v \<longleftrightarrow> (\<exists>text. to_string v = Inr text \<and> trim text \<noteq> [] \<and> from_str text = Inr v)"

definition is_tool_use :: "json \<Rightarrow> bool" where
  "is_tool_use block \<longleftrightarrow> get_str block ''type'' = Some ''tool_use''"

definition tool_use_of :: "json \<Rightarrow> json" where
  "tool_use_of block =
     obj [(''type'', JStr ''tool_use''), (''id'', JStr (or_default [] (get_str block ''id''))),
          (''name'', JStr (or_default [] (get_str block ''name''))), (''input'', json_field block ''input'')]"

definition spoken_text :: "json list \<Rightarrow> string" where
  "spoken_text blocks =
     concat (map (\<lambda>b. or_default [] (get_str b ''text'')) (filter (\<lambda>b. get_str b ''type'' = Some ''text'') blocks))"

definition complete_call :: "(json \<Rightarrow> string + string) \<Rightarrow> (string \<Rightarrow> string + json) \<Rightarrow> json \<Rightarrow> bool" where
  "complete_call to_string from_str block \<longleftrightarrow>
     get_str block ''id'' \<noteq> None \<and> get_str block ''name'' \<noteq> None
     \<and> (\<exists>input. json_get block ''input'' = Some input \<and> is_object input \<and> reads_back to_string from_str input)"

definition same_call :: "(string \<Rightarrow> string + json) \<Rightarrow> json \<Rightarrow> json \<Rightarrow> bool" where
  "same_call from_str block call \<longleftrightarrow>
     (\<exists>i name input text. get_str block ''id'' = Some i
        \<and> get_str block ''name'' = Some name \<and> json_get block ''input'' = Some input \<and> is_object input
        \<and> trim text \<noteq> [] \<and> from_str text = Inr input
        \<and> call = obj [(''id'', JStr i), (''type'', JStr ''function''),
                      (''function'', obj [(''name'', JStr name), (''arguments'', JStr text)])])"

lemma assistant_tool_call_ok:
  assumes "complete_call to_string from_str block"
  obtains call where "assistant_tool_call to_string fresh n block = Inr call" "same_call from_str block call"
proof -
  from assms obtain i name input s where
    "get_str block ''id'' = Some i" "get_str block ''name'' = Some name" "json_get block ''input'' = Some input"
    "is_object input" "to_string input = Inr s" "trim s \<noteq> []" "from_str s = Inr input"
    by (auto simp: complete_call_def reads_back_def)
  then show thesis
    by (intro that [of "obj [(''id'', JStr i), (''type'', JStr ''function''),
          (''function'', obj [(''name'', JStr name), (''arguments'', JStr s)])]"])
      (auto simp: assistant_tool_call_def same_call_def tool_id_def or_default_def Let_def)
qed

lemma assistant_blocks_ok:
  assumes "list_all (\<lambda>b. is_tool_use b \<longrightarrow> complete_call to_string from_str b) blocks"
  shows "\<exists>new. assistant_blocks to_string fresh blocks (said, calls) = Inr (said @ spoken_text blocks, calls @ new)
    \<and> list_all2 (same_call from_str) (filter is_tool_use blocks) new"
  using assms
proof (induction blocks arbitrary: said calls)
  case (Cons b blocks)
  then have rest: "list_all (\<lambda>b. is_tool_use b \<longrightarrow> complete_call to_string from_str b) blocks" by simp
  show ?case
  proof (cases "is_tool_use b")
    case True
    with Cons.prems have "complete_call to_string from_str b" by simp
    then obtain call where call: "assistant_tool_call to_string fresh (length calls) b = Inr call" "same_call from_str b call"
      by (rule assistant_tool_call_ok)
    from Cons.IH [OF rest, of said "calls @ [call]"] obtain new where
      "assistant_blocks to_string fresh blocks (said, calls @ [call]) = Inr (said @ spoken_text blocks, (calls @ [call]) @ new)"
      "list_all2 (same_call from_str) (filter is_tool_use blocks) new" by blast
    moreover have "get_str b ''type'' = Some ''tool_use''" using True by (simp add: is_tool_use_def)
    ultimately show ?thesis
      using True call by (intro exI [of _ "call # new"]) (simp add: spoken_text_def)
  next
    case False
    then have "get_str b ''type'' \<noteq> Some ''tool_use''" by (simp add: is_tool_use_def)
    with Cons.IH [OF rest, of "said @ (if get_str b ''type'' = Some ''text'' then or_default [] (get_str b ''text'') else [])" calls] False
    show ?thesis by (auto simp: spoken_text_def)
  qed
qed (simp add: spoken_text_def)

lemma tool_use_block_same_call:
  assumes "same_call from_str block call" "tp_validation policy = BestEffortValidation"
  shows "tool_use_block from_str validate policy (tool_id fresh n call) (json_field call ''function'') = Inr (tool_use_of block)"
  using assms
  by (auto simp: same_call_def tool_use_block_def tool_id_def json_field_def or_default_def validate_name_def
      parse_arguments_def tool_use_of_def)

lemma response_calls_same_call:
  assumes "list_all2 (same_call from_str) blocks calls" "tp_validation policy = BestEffortValidation"
  shows "response_calls from_str validate fresh policy n ids calls = Inr (map tool_use_of blocks)"
  using assms(1)
proof (induction arbitrary: n ids rule: list_all2_induct)
  case (Cons b bs c cs)
  show ?case
    by (simp add: Let_def assms(2) tool_use_block_same_call [OF Cons(1) assms(2)] Cons.IH)
qed simp

lemma validate_blocks_tool_use:
  assumes "validate_blocks ''assistant'' blocks path k saw = Inr ()" "b \<in> set blocks" "is_tool_use b"
  shows "get_str b ''id'' \<noteq> None \<and> get_str b ''name'' \<noteq> None \<and> (\<exists>m. json_get b ''input'' = Some (JObj m))"
  using assms
proof (induction blocks arbitrary: k saw)
  case (Cons c blocks)
  from Cons.prems(1) obtain saw' where c: "validate_block ''assistant'' c (indexed path k) saw = Inr saw'"
    and rest: "validate_blocks ''assistant'' blocks path (Suc k) saw' = Inr ()" by (auto simp: result_iffs)
  have "is_object v \<Longrightarrow> \<exists>m. v = JObj m" for v by (cases v) auto
  with c Cons.IH [OF rest] Cons.prems(2,3) show ?case
    by (auto simp: validate_block_def validate_tool_use_block_def is_tool_use_def result_iffs split: option.splits)
qed simp

lemma assistant_turn_reads_back:
  assumes "validate_blocks ''assistant'' blocks path k saw = Inr ()"
    and "list_all (\<lambda>b. is_tool_use b \<longrightarrow> reads_back to_string from_str (json_field b ''input'')) blocks"
    and "tp_validation policy = BestEffortValidation"
  shows "\<exists>message. convert_assistant_message to_string fresh blocks = Inr [message]
    \<and> text_blocks message = (if spoken_text blocks = [] then []
        else [obj [(''type'', JStr ''text''), (''text'', JStr (spoken_text blocks))]])
    \<and> answer_calls from_str validate fresh' policy message = Inr (map tool_use_of (filter is_tool_use blocks))"
proof -
  have "list_all (\<lambda>b. is_tool_use b \<longrightarrow> complete_call to_string from_str b) blocks"
    using assms(2) validate_blocks_tool_use [OF assms(1)]
    by (fastforce simp: list_all_iff complete_call_def json_field_def or_default_def)
  from assistant_blocks_ok [OF this, of fresh "[]" "[]"] obtain calls where
    run: "assistant_blocks to_string fresh blocks ([], []) = Inr (spoken_text blocks, calls)"
    and same: "list_all2 (same_call from_str) (filter is_tool_use blocks) calls" by auto
  define message where "message = obj ([(''role'', JStr ''assistant''), (''content'', JStr (spoken_text blocks))] @
      (if calls \<noteq> [] then [(''tool_calls'', JArr calls)] else []))"
  have "convert_assistant_message to_string fresh blocks = Inr [message]"
    by (simp add: convert_assistant_message_def run message_def)
  moreover have "answer_calls from_str validate fresh' policy message = Inr (map tool_use_of (filter is_tool_use blocks))"
    using response_calls_same_call [OF same assms(3)] same
    by (auto simp: answer_calls_def message_def or_default_def)
  moreover have "text_blocks message = (if spoken_text blocks = [] then []
      else [obj [(''type'', JStr ''text''), (''text'', JStr (spoken_text blocks))]])"
    by (simp add: text_blocks_def message_def)
  ultimately show ?thesis by blast
qed


definition calling_blocks :: "json list" where
  "calling_blocks = [JObj [(''text'', JStr ''hello''), (''type'', JStr ''text'')],
     JObj [(''id'', JStr ''c1''), (''input'', JObj []), (''name'', JStr ''ls''), (''type'', JStr ''tool_use'')]]"

definition lenient_policy :: "json tool_response_policy" where
  "lenient_policy = \<lparr> tp_validation = BestEffortValidation, tp_allowed_names = None, tp_input_validators = [],
     tp_minimum_calls = 0, tp_maximum_calls = None \<rparr>"


text \<open>
  C27: A null \<^verbatim>\<open>function_call\<close> is read as a call.  When validation is lenient, an answer that
  carries the field with the value null, as servers do that write out all fields of the older
  protocol, gets a tool call that the model never made: named \<^verbatim>\<open>tool\<close>, with an empty input,
  whatever the finish reason.
\<close>

theorem null_function_call_becomes_a_call:
  assumes "json_get message ''function_call'' = Some JNull"
    and "or_default [] (get_array message ''tool_calls'') = []"
    and "tp_validation policy = BestEffortValidation"
    and "from_str ''{}'' = Inr (JObj [])"
  shows "answer_calls from_str validate fresh policy message =
      Inr [obj [(''type'', JStr ''tool_use''), (''id'', JStr (''toolu_'' @ fresh 0)), (''name'', JStr ''tool''),
                (''input'', JObj [])]]
    \<and> validate_call_summary policy 1 (Some ''stop'') = Inr ()"
  using assms
  by (simp add: answer_calls_def tool_use_block_def validate_name_def parse_arguments_def get_str_def or_default_def
      validate_call_summary_def)

theorem null_function_call_becomes_a_call_witness:
  "answer_calls (\<lambda>_. Inr (JObj [])) (\<lambda>_ _. None) (\<lambda>_. ''u'') lenient_policy
     (JObj [(''content'', JStr ''hello''), (''function_call'', JNull)]) =
   Inr [obj [(''type'', JStr ''tool_use''), (''id'', JStr ''toolu_u''), (''name'', JStr ''tool''), (''input'', JObj [])]]"
  using null_function_call_becomes_a_call [of "JObj [(''content'', JStr ''hello''), (''function_call'', JNull)]"
      lenient_policy "\<lambda>_. Inr (JObj [])" "\<lambda>_ _. None" "\<lambda>_. ''u''"]
  by (simp add: bt_get_def get_array_def or_default_def lenient_policy_def)

end
