(* ===== verification/Fidelity.thy ===== *)
theory Fidelity
  imports Protocol_Bridge
begin

text \<open>
  The strict fidelity check of \<^verbatim>\<open>src/fidelity.rs\<close>: which Messages requests may be sent to an
  OpenAI-compatible provider without losing what they say.  Each audit returns the issues it
  pushes, in order.
\<close>

section \<open>Audits\<close>

definition audit_block_keys :: "json \<Rightarrow> string \<Rightarrow> string list \<Rightarrow> string list" where
  "audit_block_keys block path allowed =
     (case as_object block of
        None \<Rightarrow> [path @ '' must be an object'']
      | Some members \<Rightarrow>
          map (\<lambda>key. path @ ''.'' @ key @ '' cannot be preserved'')
            (filter (\<lambda>key. key \<notin> set allowed) (map fst members)))"

fun audit_system_blocks :: "nat \<Rightarrow> json list \<Rightarrow> string list" where
  "audit_system_blocks index [] = []"
| "audit_system_blocks index (block # blocks) =
     audit_block_keys block (indexed ''system'' index) [''type'', ''text''] @
     (if get_str block ''type'' \<noteq> Some ''text''
      then [indexed ''system'' index @ '' non-text block cannot be preserved''] else []) @
     audit_system_blocks (Suc index) blocks"

definition audit_system :: "json \<Rightarrow> string list" where
  "audit_system system =
     (if is_string system then []
      else case as_array system of
             None \<Rightarrow> [''system must be a string for strict OpenAI-compatible conversion'']
           | Some blocks \<Rightarrow>
               (if length blocks \<noteq> 1 then [''system content block boundaries cannot be preserved''] else []) @
               audit_system_blocks 0 blocks)"

definition audit_other_block :: "json \<Rightarrow> string \<Rightarrow> string list" where
  "audit_other_block block block_path =
     (case get_str block ''type'' of
        Some kind \<Rightarrow> [block_path @ '' `'' @ kind @ ''` block cannot be preserved'']
      | None \<Rightarrow> [block_path @ '' block type is missing''])"

fun audit_assistant_blocks :: "nat \<Rightarrow> json list \<Rightarrow> string \<Rightarrow> string list" where
  "audit_assistant_blocks index [] path = []"
| "audit_assistant_blocks index (block # blocks) path =
     (let block_path = indexed path index
      in if get_str block ''type'' = Some ''text'' then audit_block_keys block block_path [''type'', ''text'']
         else if get_str block ''type'' = Some ''tool_use''
         then audit_block_keys block block_path [''type'', ''id'', ''name'', ''input'']
         else audit_other_block block block_path) @
     audit_assistant_blocks (Suc index) blocks path"

fun audit_tool_result_blocks :: "nat \<Rightarrow> json list \<Rightarrow> string \<Rightarrow> string list" where
  "audit_tool_result_blocks index [] path = []"
| "audit_tool_result_blocks index (block # blocks) path =
     (let block_path = indexed (path @ ''.content'') index
      in audit_block_keys block block_path [''type'', ''text''] @
         (if get_str block ''type'' \<noteq> Some ''text''
          then [block_path @ '' non-text tool result cannot be preserved''] else [])) @
     audit_tool_result_blocks (Suc index) blocks path"

definition audit_tool_result_content :: "json \<Rightarrow> string \<Rightarrow> string list" where
  "audit_tool_result_content content path =
     (if is_string content then []
      else case as_array content of
             None \<Rightarrow> [path @ ''.content cannot be converted without loss'']
           | Some blocks \<Rightarrow> audit_tool_result_blocks 0 blocks path)"

fun audit_user_blocks :: "nat \<Rightarrow> json list \<Rightarrow> string \<Rightarrow> string list" where
  "audit_user_blocks index [] path = []"
| "audit_user_blocks index (block # blocks) path =
     (let block_path = indexed path index
      in if get_str block ''type'' = Some ''text'' then audit_block_keys block block_path [''type'', ''text'']
         else if get_str block ''type'' = Some ''tool_result''
         then audit_block_keys block block_path [''type'', ''tool_use_id'', ''content''] @
              (case json_get block ''content'' of
                 Some content \<Rightarrow> audit_tool_result_content content block_path | None \<Rightarrow> [])
         else audit_other_block block block_path) @
     audit_user_blocks (Suc index) blocks path"

definition audit_message_content :: "json \<Rightarrow> nat \<Rightarrow> string list" where
  "audit_message_content message index =
     (let role = or_default [] (get_str message ''role'');
          content = json_field message ''content'';
          path = indexed ''messages'' index @ ''.content''
      in if is_string content then []
         else case as_array content of
                None \<Rightarrow> [path @ '' must be a string or supported content blocks'']
              | Some blocks \<Rightarrow>
                  if role = ''assistant'' then audit_assistant_blocks 0 blocks path
                  else if role = ''user'' then audit_user_blocks 0 blocks path
                  else [''role `'' @ role @ ''` with structured content cannot be preserved''])"

fun audit_messages :: "nat \<Rightarrow> json list \<Rightarrow> string list" where
  "audit_messages index [] = []"
| "audit_messages index (message # messages) =
     audit_message_content message index @ audit_messages (Suc index) messages"

definition audit_tool_choice :: "json \<Rightarrow> string list" where
  "audit_tool_choice tool_choice =
     (case as_object tool_choice of
        None \<Rightarrow> []
      | Some members \<Rightarrow>
          map (\<lambda>key. ''tool_choice field `'' @ key @ ''` cannot be preserved'')
            (filter (\<lambda>key. key \<notin> {''type'', ''name'', ''disable_parallel_tool_use''}) (map fst members)))"

definition supported_fields :: "string list" where
  "supported_fields = [''temperature'', ''top_p'', ''top_k'', ''presence_penalty'', ''frequency_penalty'', ''seed'',
     ''stop_sequences'', ''tools'', ''tool_choice'']"

fun audit_tools :: "nat \<Rightarrow> json list \<Rightarrow> string list" where
  "audit_tools index [] = []"
| "audit_tools index (tool # tools) =
     audit_block_keys tool (indexed ''tools'' index) [''name'', ''description'', ''input_schema'', ''strict''] @
     audit_tools (Suc index) tools"

definition audit_extra_fields :: "anthropic_request \<Rightarrow> string list" where
  "audit_extra_fields request =
     map (\<lambda>key. ''request field `'' @ key @ ''` cannot be preserved'')
       (filter (\<lambda>key. key \<notin> set supported_fields) (map fst (ar_extra request))) @
     (case Option.bind (bt_get (ar_extra request) ''tools'') as_array of
        Some tools \<Rightarrow> audit_tools 0 tools | None \<Rightarrow> []) @
     (case bt_get (ar_extra request) ''tool_choice'' of Some choice \<Rightarrow> audit_tool_choice choice | None \<Rightarrow> [])"

definition fidelity_issues :: "anthropic_request \<Rightarrow> string list" where
  "fidelity_issues request =
     (case ar_system request of Some system \<Rightarrow> audit_system system | None \<Rightarrow> []) @
     audit_messages 0 (ar_messages request) @ audit_extra_fields request"

definition validate_anthropic_to_openai_fidelity :: "anthropic_request \<Rightarrow> unit result" where
  "validate_anthropic_to_openai_fidelity request =
     (let issues = fidelity_issues request
      in if issues = [] then Inr ()
         else Inl (InvalidRequest (''strict fidelity refused Anthropic -> OpenAI-compatible conversion: '' @
                join_with ''; '' issues @ ''. Use fidelity_mode='' @ [CHR 0x22] @ ''best_effort'' @ [CHR 0x22] @
                '' or route this model to an Anthropic-compatible provider.'')))"

section \<open>What an accepted request says\<close>

definition only_keys :: "string list \<Rightarrow> json \<Rightarrow> bool" where
  "only_keys allowed block \<longleftrightarrow> (\<exists>members. block = JObj members \<and> set (map fst members) \<subseteq> set allowed)"

definition block_kind :: "string \<Rightarrow> string list \<Rightarrow> json \<Rightarrow> bool" where
  "block_kind kind keys block \<longleftrightarrow> get_str block ''type'' = Some kind \<and> only_keys (''type'' # keys) block"

definition plain_content :: "json \<Rightarrow> bool" where
  "plain_content content \<longleftrightarrow>
     is_string content \<or> (\<exists>blocks. content = JArr blocks \<and> list_all (block_kind ''text'' [''text'']) blocks)"

definition faithful_block :: "string \<Rightarrow> json \<Rightarrow> bool" where
  "faithful_block role block \<longleftrightarrow>
     block_kind ''text'' [''text''] block
     \<or> (role = ''assistant'' \<and> block_kind ''tool_use'' [''id'', ''name'', ''input''] block)
     \<or> (role = ''user'' \<and> block_kind ''tool_result'' [''tool_use_id'', ''content''] block
        \<and> pred_option plain_content (json_get block ''content''))"

definition faithful_message :: "json \<Rightarrow> bool" where
  "faithful_message message \<longleftrightarrow>
     is_string (json_field message ''content'')
     \<or> (\<exists>role blocks. get_str message ''role'' = Some role \<and> role \<in> {''assistant'', ''user''}
          \<and> json_field message ''content'' = JArr blocks \<and> list_all (faithful_block role) blocks)"

definition faithful_system :: "json \<Rightarrow> bool" where
  "faithful_system system \<longleftrightarrow>
     is_string system \<or> (\<exists>block. system = JArr [block] \<and> block_kind ''text'' [''text''] block)"

definition faithful_extra :: "(string \<times> json) list \<Rightarrow> bool" where
  "faithful_extra extra \<longleftrightarrow>
     set (map fst extra) \<subseteq> set supported_fields
     \<and> pred_option (list_all (only_keys [''name'', ''description'', ''input_schema'', ''strict'']))
         (Option.bind (bt_get extra ''tools'') as_array)
     \<and> pred_option (\<lambda>members. set (map fst members) \<subseteq> {''type'', ''name'', ''disable_parallel_tool_use''})
         (Option.bind (bt_get extra ''tool_choice'') as_object)"

lemma filter_not_Nil_iff: "filter (\<lambda>k. k \<notin> S) (map fst m) = [] \<longleftrightarrow> set (map fst m) \<subseteq> S"
  by (auto simp: filter_empty_conv)

lemma audit_block_keys_Nil_iff: "audit_block_keys block path allowed = [] \<longleftrightarrow> only_keys allowed block"
  by (cases block) (auto simp: audit_block_keys_def only_keys_def filter_empty_conv)

lemma audit_other_block_nonempty [simp]: "audit_other_block block path \<noteq> []"
  by (simp add: audit_other_block_def split: option.splits)

lemma audit_assistant_blocks_Nil_iff:
  "audit_assistant_blocks index blocks path = [] \<longleftrightarrow> list_all (faithful_block ''assistant'') blocks"
  by (induction index blocks path rule: audit_assistant_blocks.induct)
    (auto simp: Let_def faithful_block_def block_kind_def audit_block_keys_Nil_iff)

lemma audit_tool_result_blocks_Nil_iff:
  "audit_tool_result_blocks index blocks path = [] \<longleftrightarrow> list_all (block_kind ''text'' [''text'']) blocks"
  by (induction index blocks path rule: audit_tool_result_blocks.induct)
    (auto simp: Let_def block_kind_def audit_block_keys_Nil_iff)

lemma audit_tool_result_content_Nil_iff: "audit_tool_result_content content path = [] \<longleftrightarrow> plain_content content"
  by (cases content) (simp_all add: audit_tool_result_content_def plain_content_def audit_tool_result_blocks_Nil_iff)

lemma audit_user_blocks_Nil_iff:
  "audit_user_blocks index blocks path = [] \<longleftrightarrow> list_all (faithful_block ''user'') blocks"
  by (induction index blocks path rule: audit_user_blocks.induct)
    (auto simp: Let_def faithful_block_def block_kind_def audit_block_keys_Nil_iff audit_tool_result_content_Nil_iff
      split: option.splits)

lemma audit_message_content_Nil_iff: "audit_message_content message index = [] \<longleftrightarrow> faithful_message message"
  by (cases "json_field message ''content''"; cases "get_str message ''role''")
    (auto simp: audit_message_content_def faithful_message_def Let_def or_default_def audit_assistant_blocks_Nil_iff
      audit_user_blocks_Nil_iff)

lemma audit_messages_Nil_iff: "audit_messages index messages = [] \<longleftrightarrow> list_all faithful_message messages"
  by (induction index messages rule: audit_messages.induct) (auto simp: audit_message_content_Nil_iff)

lemma audit_system_blocks_Nil_iff:
  "audit_system_blocks index blocks = [] \<longleftrightarrow> list_all (block_kind ''text'' [''text'']) blocks"
  by (induction index blocks rule: audit_system_blocks.induct) (auto simp: block_kind_def audit_block_keys_Nil_iff)

lemma audit_system_Nil_iff: "audit_system system = [] \<longleftrightarrow> faithful_system system"
  by (cases system)
    (auto simp: audit_system_def faithful_system_def audit_system_blocks_Nil_iff length_Suc_conv split: if_splits)

lemma audit_tools_Nil_iff:
  "audit_tools index tools = [] \<longleftrightarrow> list_all (only_keys [''name'', ''description'', ''input_schema'', ''strict'']) tools"
  by (induction index tools rule: audit_tools.induct) (simp_all add: audit_block_keys_Nil_iff)

lemma audit_tool_choice_Nil_iff:
  "audit_tool_choice choice = [] \<longleftrightarrow>
     pred_option (\<lambda>members. set (map fst members) \<subseteq> {''type'', ''name'', ''disable_parallel_tool_use''}) (as_object choice)"
  unfolding audit_tool_choice_def by (cases choice) (simp_all only: as_object.simps option.case option.pred_inject map_is_Nil_conv filter_not_Nil_iff simp_thms)

lemma audit_extra_fields_Nil_iff: "audit_extra_fields request = [] \<longleftrightarrow> faithful_extra (ar_extra request)"
  unfolding audit_extra_fields_def faithful_extra_def append_is_Nil_conv map_is_Nil_conv filter_not_Nil_iff
  by (simp add: audit_tools_Nil_iff audit_tool_choice_Nil_iff split: option.splits bind_splits)

lemma strict_fidelity_accepts_iff:
  "validate_anthropic_to_openai_fidelity request = Inr () \<longleftrightarrow>
     pred_option faithful_system (ar_system request)
     \<and> list_all faithful_message (ar_messages request)
     \<and> faithful_extra (ar_extra request)"
  by (simp add: validate_anthropic_to_openai_fidelity_def fidelity_issues_def Let_def audit_messages_Nil_iff
      audit_extra_fields_Nil_iff audit_system_Nil_iff split: option.splits)

text \<open>
  C26: What strict fidelity lets through.  The check accepts exactly the requests whose system
  prompt is a string or one text block, whose messages are strings or user and assistant turns
  built of text, tool-use and text-only tool-result blocks without further fields, and whose
  other fields, tools and tool choice have only members with a counterpart on the other side.
\<close>

theorem strict_fidelity_accepts:
  "validate_anthropic_to_openai_fidelity request = Inr () \<longleftrightarrow>
     pred_option faithful_system (ar_system request)
     \<and> list_all faithful_message (ar_messages request)
     \<and> faithful_extra (ar_extra request)"
  by (rule strict_fidelity_accepts_iff)

lemma rebuild_from_keys: "distinct (map fst a) \<Longrightarrow> map (\<lambda>k. (k, the (map_of a k))) (map fst a) = a"
  by (simp add: comp_def) (rule map_idI, auto)

lemma bt_get_Cons: "bt_get ((k, v) # m) k' = (if k' = k then Some v else bt_get m k')"
  by (simp add: bt_get_def)

lemma bt_ext:
  assumes "bt_wf a" "bt_wf b" "\<And>k. bt_get a k = bt_get b k"
  shows "a = b"
proof -
  have "map_of a = map_of b" using assms(3) by (auto simp: bt_get_def)
  then have "set a = set b" using assms(1,2) by (metis bt_wf_distinct map_of_inject_set)
  then have "map fst a = map fst b"
    using assms(1,2) by (intro sorted_distinct_set_unique) (auto simp: bt_wf_def strict_sorted_iff)
  with \<open>map_of a = map_of b\<close> show ?thesis
    using rebuild_from_keys [OF bt_wf_distinct [OF assms(1)]] rebuild_from_keys [OF bt_wf_distinct [OF assms(2)]] by metis
qed

text \<open>A tool-use block with exactly the four members is the block the bridge reads back.\<close>

lemma as_str_Some_iff: "as_str v = Some s \<longleftrightarrow> v = JStr s"
  by (cases v) auto

lemma exact_tool_use:
  assumes "json_wf block" "block_kind ''tool_use'' [''id'', ''name'', ''input''] block"
    and "get_str block ''id'' \<noteq> None \<and> get_str block ''name'' \<noteq> None \<and> (\<exists>m. json_get block ''input'' = Some (JObj m))"
  shows "tool_use_of block = block"
proof -
  obtain members where b: "block = JObj members" and keys: "set (map fst members) \<subseteq> {''type'', ''id'', ''name'', ''input''}"
    using assms(2) by (auto simp: block_kind_def only_keys_def)
  obtain i n m where vals: "bt_get members ''id'' = Some (JStr i)" "bt_get members ''name'' = Some (JStr n)"
      "bt_get members ''input'' = Some (JObj m)" "bt_get members ''type'' = Some (JStr ''tool_use'')"
    using assms(2,3) by (auto simp: b block_kind_def get_str_def bind_eq_Some_conv as_str_Some_iff)
  have "bt_get members k = bt_get (bt_of_list [(''type'', JStr ''tool_use''), (''id'', JStr i), (''name'', JStr n), (''input'', JObj m)]) k" for k
  proof (cases "k \<in> {''type'', ''id'', ''name'', ''input''}")
    case True
    then show ?thesis using vals by (auto simp: bt_of_list_def bt_get_Cons)
  next
    case False
    then have "k \<notin> fst ` set members" using keys by auto
    then have "bt_get members k = None" by (simp add: bt_get_def map_of_eq_None_iff)
    with False show ?thesis by (auto simp: bt_of_list_def bt_get_Cons)
  qed
  then have "members = bt_of_list [(''type'', JStr ''tool_use''), (''id'', JStr i), (''name'', JStr n), (''input'', JObj m)]"
    by (intro bt_ext bt_wf_of_list) (use assms(1) in \<open>simp_all add: b\<close>)
  with vals show ?thesis by (simp add: b tool_use_of_def obj_def get_str_def or_default_def json_field_def)
qed

text \<open>
  Strict fidelity keeps tool calls to the letter.  In a request that both checks accept, reading
  an assistant turn back from the converted message returns its very tool-use blocks, in order.
\<close>

theorem strict_fidelity_keeps_tool_calls:
  assumes "list_all (faithful_block ''assistant'') blocks" and "list_all json_wf blocks"
    and "validate_blocks ''assistant'' blocks path k saw = Inr ()"
    and "list_all (\<lambda>b. is_tool_use b \<longrightarrow> reads_back to_string from_str (json_field b ''input'')) blocks"
    and "tp_validation policy = BestEffortValidation"
  shows "\<exists>message. convert_assistant_message to_string fresh blocks = Inr [message]
    \<and> answer_calls from_str validate fresh' policy message = Inr (filter is_tool_use blocks)"
proof -
  have "map tool_use_of (filter is_tool_use blocks) = filter is_tool_use blocks"
  proof (rule map_idI)
    fix b assume "b \<in> set (filter is_tool_use blocks)"
    then have b: "b \<in> set blocks" "is_tool_use b" by auto
    from b assms(1) have "block_kind ''tool_use'' [''id'', ''name'', ''input''] b"
      by (auto simp: list_all_iff faithful_block_def block_kind_def is_tool_use_def)
    with exact_tool_use [OF _ this validate_blocks_tool_use [OF assms(3) b]] assms(2) b show "tool_use_of b = b"
      by (simp add: list_all_iff)
  qed
  with assistant_turn_reads_back [OF assms(3-5), of fresh validate fresh'] show ?thesis by auto
qed

theorem strict_fidelity_keeps_tool_calls_witness:
  "\<exists>message. convert_assistant_message (\<lambda>_. Inr ''{}'') (\<lambda>_. ''u'') calling_blocks = Inr [message]
    \<and> answer_calls (\<lambda>_. Inr (JObj [])) (\<lambda>_ _. None) (\<lambda>_. ''v'') lenient_policy message = Inr (drop 1 calling_blocks)"
proof -
  have v: "validate_blocks ''assistant'' calling_blocks ''p'' 0 False = Inr ()" by code_simp
  have t: "trim ''{}'' \<noteq> []" by code_simp
  have r: "list_all (\<lambda>b. is_tool_use b \<longrightarrow> reads_back (\<lambda>_. Inr ''{}'') (\<lambda>_. Inr (JObj [])) (json_field b ''input'')) calling_blocks"
    by (simp add: calling_blocks_def is_tool_use_def reads_back_def json_field_def get_str_def bt_get_def or_default_def t)
  have f: "list_all (faithful_block ''assistant'') calling_blocks"
    by (simp add: calling_blocks_def faithful_block_def block_kind_def only_keys_def get_str_def bt_get_def)
  have w: "list_all json_wf calling_blocks" by code_simp
  have p: "tp_validation lenient_policy = BestEffortValidation" by (simp add: lenient_policy_def)
  have "filter is_tool_use calling_blocks = drop 1 calling_blocks" by code_simp
  with strict_fidelity_keeps_tool_calls [OF f w v r p, of "\<lambda>_. ''u''" "\<lambda>_ _. None" "\<lambda>_. ''v''"] show ?thesis by simp
qed

text \<open>
  Text is kept only up to the boundaries of its blocks: two assistant turns that both checks
  accept, one with two text blocks and one with a single block, convert to the same message.
\<close>

definition text_block :: "string \<Rightarrow> json" where
  "text_block s = JObj [(''text'', JStr s), (''type'', JStr ''text'')]"

definition assistant_turn :: "json list \<Rightarrow> json" where
  "assistant_turn blocks = JObj [(''content'', JArr blocks), (''role'', JStr ''assistant'')]"

lemma strict_fidelity_merges_text_blocks:
  fixes a b :: string
  defines "two \<equiv> plain_request [assistant_turn [text_block a, text_block b]]"
    and "one \<equiv> plain_request [assistant_turn [text_block (a @ b)]]"
  shows "validate_anthropic_to_openai_fidelity two = Inr ()" "validate_anthropic_to_openai_fidelity one = Inr ()"
    and "two \<noteq> one"
    and "anthropic_to_openai_request validator_for to_string fresh two model stream field =
      anthropic_to_openai_request validator_for to_string fresh one model stream field"
proof -
  note defs = two_def one_def plain_request_def assistant_turn_def text_block_def get_str_def get_array_def bt_get_def or_default_def
  show "validate_anthropic_to_openai_fidelity two = Inr ()" "validate_anthropic_to_openai_fidelity one = Inr ()" "two \<noteq> one"
    by (simp_all add: strict_fidelity_accepts_iff defs faithful_message_def json_field_def faithful_block_def block_kind_def
        only_keys_def faithful_extra_def)
  show "anthropic_to_openai_request validator_for to_string fresh two model stream field =
      anthropic_to_openai_request validator_for to_string fresh one model stream field"
    by (simp add: anthropic_to_openai_request_def validate_anthropic_tooling_def validate_message_tool_blocks_def
        validate_block_def ensure_def validate_tool_turn_references_def turn_message_def turn_block_def no_turns_def
        convert_message_def convert_assistant_message_def json_field_def defs)
qed

end
