(* ===== verification/Utf8.thy ===== *)
theory Utf8
  imports Prelude
begin

text \<open>
  UTF-8 as the sources use it through the standard library: \<^verbatim>\<open>String::from_utf8_lossy\<close>, which
  replaces each maximal invalid part by U+FFFD, and \<^verbatim>\<open>str::chars\<close> on the bytes of a string.
\<close>

definition byte_in :: "nat \<Rightarrow> nat \<Rightarrow> nat \<Rightarrow> string \<Rightarrow> bool" where
  "byte_in lo hi i s \<longleftrightarrow> i < length s \<and> in_range lo hi (s ! i)"

text \<open>The sequence at the front of a non-empty string: its length and whether it is valid.\<close>

definition second_of_three :: "string \<Rightarrow> bool" where
  "second_of_three s =
     (if byte_in 224 224 0 s then byte_in 160 191 1 s
      else if byte_in 237 237 0 s then byte_in 128 159 1 s else byte_in 128 191 1 s)"

definition second_of_four :: "string \<Rightarrow> bool" where
  "second_of_four s =
     (if byte_in 240 240 0 s then byte_in 144 191 1 s
      else if byte_in 244 244 0 s then byte_in 128 143 1 s else byte_in 128 191 1 s)"

definition utf8_step :: "string \<Rightarrow> nat \<times> bool" where
  "utf8_step s =
     (if byte_in 0 127 0 s then (1, True)
      else if byte_in 194 223 0 s then (if byte_in 128 191 1 s then (2, True) else (1, False))
      else if byte_in 224 239 0 s
      then (if \<not> second_of_three s then (1, False) else if byte_in 128 191 2 s then (3, True) else (2, False))
      else if byte_in 240 244 0 s
      then (if \<not> second_of_four s then (1, False) else if \<not> byte_in 128 191 2 s then (2, False)
            else if byte_in 128 191 3 s then (4, True) else (3, False))
      else (1, False))"

lemma utf8_step_pos: "0 < fst (utf8_step s)"
  by (simp add: utf8_step_def)

definition replacement :: string where
  "replacement = [CHR 0xEF, CHR 0xBF, CHR 0xBD]"

function from_utf8_lossy :: "string \<Rightarrow> string" where
  "from_utf8_lossy s =
     (if s = [] then []
      else (if snd (utf8_step s) then take (fst (utf8_step s)) s else replacement)
           @ from_utf8_lossy (drop (fst (utf8_step s)) s))"
  by pat_completeness auto
termination
  by (relation "measure length") (use utf8_step_pos in \<open>auto simp: diff_less\<close>)

declare from_utf8_lossy.simps [simp del]

function utf8_valid :: "string \<Rightarrow> bool" where
  "utf8_valid s = (if s = [] then True else snd (utf8_step s) \<and> utf8_valid (drop (fst (utf8_step s)) s))"
  by pat_completeness auto
termination
  by (relation "measure length") (use utf8_step_pos in \<open>auto simp: diff_less\<close>)

declare utf8_valid.simps [simp del]

lemma byte_in_append: "i < length s \<Longrightarrow> byte_in lo hi i (s @ t) \<longleftrightarrow> byte_in lo hi i s"
  by (simp add: byte_in_def nth_append)

lemma byte_in_take: "i < k \<Longrightarrow> byte_in lo hi i (take k s) \<longleftrightarrow> byte_in lo hi i s"
  by (auto simp: byte_in_def)

text \<open>The valid sequences by length; each stays valid whatever follows it.\<close>

lemma byte_in_exclusive: "byte_in lo hi i s \<Longrightarrow> hi < lo' \<or> hi' < lo \<Longrightarrow> \<not> byte_in lo' hi' i s"
  by (auto simp: byte_in_def in_range_def)

lemma utf8_step_cases:
  assumes "snd (utf8_step s)"
  obtains (one) "byte_in 0 127 0 s" "utf8_step s = (1, True)"
    | (two) "byte_in 194 223 0 s" "byte_in 128 191 1 s" "utf8_step s = (2, True)"
    | (three) "byte_in 224 239 0 s" "second_of_three s" "byte_in 128 191 2 s" "utf8_step s = (3, True)"
    | (four) "byte_in 240 244 0 s" "second_of_four s" "byte_in 128 191 2 s" "byte_in 128 191 3 s" "utf8_step s = (4, True)"
  using assms by (simp add: utf8_step_def split: if_splits)

lemma utf8_stepI:
  "byte_in 0 127 0 s \<Longrightarrow> utf8_step s = (1, True)"
  "byte_in 194 223 0 s \<Longrightarrow> byte_in 128 191 1 s \<Longrightarrow> utf8_step s = (2, True)"
  "byte_in 224 239 0 s \<Longrightarrow> second_of_three s \<Longrightarrow> byte_in 128 191 2 s \<Longrightarrow> utf8_step s = (3, True)"
  "byte_in 240 244 0 s \<Longrightarrow> second_of_four s \<Longrightarrow> byte_in 128 191 2 s \<Longrightarrow> byte_in 128 191 3 s \<Longrightarrow> utf8_step s = (4, True)"
  by (simp_all add: utf8_step_def byte_in_exclusive)

lemma utf8_step_valid_take:
  assumes "snd (utf8_step s)"
  shows "fst (utf8_step s) \<le> length s" "utf8_step (take (fst (utf8_step s)) s @ t) = utf8_step s"
proof -
  have len: "byte_in lo hi i s \<Longrightarrow> Suc i \<le> length s" for lo hi i by (simp add: byte_in_def)
  have keep: "k \<le> length s \<Longrightarrow> i < k \<Longrightarrow> byte_in lo hi i (take k s @ t) \<longleftrightarrow> byte_in lo hi i s" for k lo hi i
    by (simp add: byte_in_append byte_in_take)
  show "fst (utf8_step s) \<le> length s"
    using assms by (cases rule: utf8_step_cases) (auto dest!: len)
  from assms show "utf8_step (take (fst (utf8_step s)) s @ t) = utf8_step s"
  proof (cases rule: utf8_step_cases)
    case one
    then show ?thesis using len [OF one(1)] by (simp add: utf8_stepI keep)
  next
    case two
    then show ?thesis using len [OF two(2)] by (simp add: utf8_stepI keep)
  next
    case three
    have "3 \<le> length s" using len [OF three(3)] by simp
    then have "second_of_three (take 3 s @ t) = second_of_three s" by (simp add: second_of_three_def keep)
    with three \<open>3 \<le> length s\<close> show ?thesis by (simp add: utf8_stepI keep)
  next
    case four
    have "4 \<le> length s" using len [OF four(4)] by simp
    then have "second_of_four (take 4 s @ t) = second_of_four s" by (simp add: second_of_four_def keep)
    with four \<open>4 \<le> length s\<close> show ?thesis by (simp add: utf8_stepI keep)
  qed
qed

lemma from_utf8_lossy_id: "utf8_valid s \<Longrightarrow> from_utf8_lossy s = s"
proof (induction s rule: from_utf8_lossy.induct)
  case (1 s)
  then show ?case
    by (subst from_utf8_lossy.simps) (use utf8_valid.simps [of s] in auto)
qed

lemma utf8_valid_from_utf8_lossy: "utf8_valid (from_utf8_lossy s)"
proof (induction s rule: from_utf8_lossy.induct)
  case (1 s)
  show ?case
  proof (cases "s = []")
    case False
    show ?thesis
    proof (cases "snd (utf8_step s)")
      case True
      note step = utf8_step_valid_take [OF True]
      from 1 [OF False] True False show ?thesis
        by (subst from_utf8_lossy.simps, subst utf8_valid.simps) (simp add: step)
    next
      case bad: False
      have "utf8_step (replacement @ t) = (3, True)" for t
        by (simp add: utf8_step_def second_of_three_def byte_in_def in_range_def replacement_def)
      with 1 [OF False] bad False show ?thesis
        by (subst from_utf8_lossy.simps, subst utf8_valid.simps) (simp add: replacement_def)
    qed
  qed (simp add: from_utf8_lossy.simps utf8_valid.simps)
qed

end
