(* ===== verification/Error_Redaction.thy ===== *)
theory Error_Redaction
  imports Json Utf8
begin

text \<open>
  What remains of an upstream error body, the sanitising half of \<^verbatim>\<open>src/http.rs\<close>: members with
  telling names and tokens behind known markers are replaced, long texts are cut.  Reading and
  writing JSON text are parameters.
\<close>

section \<open>Sanitising\<close>

definition MAX_ERROR_BODY_CHARS :: nat where
  "MAX_ERROR_BODY_CHARS = 8192"

definition truncate_body :: "string \<Rightarrow> string" where
  "truncate_body value =
     (if char_count value \<le> MAX_ERROR_BODY_CHARS then value
      else take_chars MAX_ERROR_BODY_CHARS value @ ''... [truncated]'')"

definition sensitive_key :: "string \<Rightarrow> bool" where
  "sensitive_key key =
     list_ex (\<lambda>part. contains part (to_ascii_lowercase key))
       [''api_key'', ''apikey'', ''authorization'', ''access_token'', ''refresh_token'', ''secret'', ''password'', ''credential'']"

text \<open>The first occurrence of a marker, as \<^verbatim>\<open>find\<close> and the two slices around it.\<close>

fun split_first :: "string \<Rightarrow> string \<Rightarrow> (string \<times> string) option" where
  "split_first marker [] = (if marker = [] then Some ([], []) else None)"
| "split_first marker (c # s) =
     (if starts_with marker (c # s) then Some ([], drop (length marker) (c # s))
      else map_option (\<lambda>(before, after). (c # before, after)) (split_first marker s))"

definition substitute :: string where
  "substitute = ''[redacted]''"

definition secret_char :: "char \<Rightarrow> bool" where
  "secret_char ch \<longleftrightarrow> is_alnum ch \<or> ch = CHR ''-'' \<or> ch = CHR ''_'' \<or> ch = CHR ''.''"

lemma split_first_Some: "split_first marker s = Some (before, after) \<Longrightarrow> s = before @ marker @ after"
  by (induction marker s arbitrary: before rule: split_first.induct)
    (auto simp: starts_with_iff_prefix prefix_def split: if_splits)

text \<open>The markers of the source are not empty, on which the loop relies.\<close>

function redact_after_marker :: "string \<Rightarrow> string \<Rightarrow> string" where
  "redact_after_marker value marker =
     (case if marker = [] then None else split_first marker value of
        None \<Rightarrow> value
      | Some (before, after_marker) \<Rightarrow>
          (let secret_len = length (takeWhile secret_char after_marker)
           in before @ marker @
              (if secret_len \<ge> 8 then substitute @ redact_after_marker (drop secret_len after_marker) marker
               else redact_after_marker after_marker marker)))"
  by pat_completeness auto
termination
  by (relation "measure (length \<circ> fst)") (auto dest!: split_first_Some intro!: le_less_trans [OF diff_le_self] split: if_splits)

declare redact_after_marker.simps [simp del]

definition redact_secret_fragments :: "string \<Rightarrow> string" where
  "redact_secret_fragments value =
     redact_after_marker (redact_after_marker (redact_after_marker value ''Bearer '') ''sk-'') ''sk_m''"

function (sequential) redact_json_value :: "json \<Rightarrow> json"
  and redact_members :: "(string \<times> json) list \<Rightarrow> (string \<times> json) list"
  and redact_items :: "json list \<Rightarrow> json list" where
  "redact_json_value (JObj members) = JObj (redact_members members)"
| "redact_json_value (JArr values) = JArr (redact_items values)"
| "redact_json_value (JStr value) = JStr (redact_secret_fragments value)"
| "redact_json_value v = v"
| "redact_members [] = []"
| "redact_members ((key, v) # rest) =
     (key, if sensitive_key key then JStr substitute else redact_json_value v) # redact_members rest"
| "redact_items [] = []"
| "redact_items (v # rest) = redact_json_value v # redact_items rest"
  by pat_completeness auto
termination
  by (relation "measure (\<lambda>x. case x of
      Inl v \<Rightarrow> 2 * size v
    | Inr (Inl ms) \<Rightarrow> Suc (2 * size_list (size_prod (\<lambda>_. 0) size) ms)
    | Inr (Inr vs) \<Rightarrow> Suc (2 * size_list size vs))") auto

definition sanitize_error_text :: "(string \<Rightarrow> string + json) \<Rightarrow> (json \<Rightarrow> string) \<Rightarrow> string \<Rightarrow> string" where
  "sanitize_error_text from_str to_text value =
     (case from_str value of
        Inr parsed \<Rightarrow> truncate_body (to_text (redact_json_value parsed))
      | Inl _ \<Rightarrow> truncate_body (redact_secret_fragments value))"

definition sanitize_error_body :: "(string \<Rightarrow> string + json) \<Rightarrow> (json \<Rightarrow> string) \<Rightarrow> string \<Rightarrow> string" where
  "sanitize_error_body from_str to_text body = sanitize_error_text from_str to_text (from_utf8_lossy body)"

section \<open>Leaks\<close>

text \<open>A marker with a token of eight or more characters behind it.\<close>

definition leaks :: "string \<Rightarrow> string \<Rightarrow> bool" where
  "leaks marker s \<longleftrightarrow> (\<exists>a b. s = a @ marker @ b \<and> 8 \<le> length (takeWhile secret_char b))"

text \<open>What the three markers have in common: no bracket, no letter of the substitute in front, no overlap with itself.\<close>

definition plain_marker :: "string \<Rightarrow> bool" where
  "plain_marker m \<longleftrightarrow> m \<noteq> [] \<and> CHR ''['' \<notin> set m \<and> hd m \<notin> set substitute
     \<and> (\<forall>k. 0 < k \<longrightarrow> k < length m \<longrightarrow> \<not> prefix (drop k m) m)"

lemma not_secret_bracket [simp]: "\<not> secret_char CHR ''[''"
  by (simp add: secret_char_def char_class_defs)

lemma token_ends_at_substitute: "takeWhile secret_char (u @ substitute @ w) = takeWhile secret_char u"
  by (induction u) (auto simp: substitute_def)

lemma length_substitute [simp]: "length substitute = 10"
  by (simp add: substitute_def)

lemma leaksE:
  assumes "leaks m s"
  obtains a b where "a @ m @ b = s" "8 \<le> length (takeWhile secret_char b)"
  using assms unfolding leaks_def by metis

lemma leaksI: "8 \<le> length (takeWhile secret_char b) \<Longrightarrow> leaks m (a @ m @ b)"
  by (auto simp: leaks_def)

lemma occurs_before: "a @ m @ b = q @ w \<Longrightarrow> length a + length m \<le> length q \<Longrightarrow> \<exists>u. q = a @ m @ u \<and> b = u @ w"
  by (auto simp: append_eq_append_conv2)

lemma occurs_after: "a @ m @ b = q @ w \<Longrightarrow> length q \<le> length a \<Longrightarrow> \<exists>a'. a = q @ a' \<and> a' @ m @ b = w"
  by (auto simp: append_eq_append_conv2)

lemma straddles: "a @ m @ b = q @ c # w \<Longrightarrow> length a \<le> length q \<Longrightarrow> length q < length a + length m \<Longrightarrow> c \<in> set m"
  by (auto simp: append_eq_append_conv2 append_eq_Cons_conv)

lemma split_first_None: "split_first m s = None \<Longrightarrow> m \<noteq> [] \<Longrightarrow> s \<noteq> a @ m @ b"
proof (induction m s arbitrary: a rule: split_first.induct)
  case (2 m c s)
  then show ?case by (cases a) (auto simp: starts_with_iff_prefix split: if_splits)
qed auto

lemma split_first_earliest:
  "split_first m s = Some (before, after) \<Longrightarrow> m \<noteq> [] \<Longrightarrow> s = a @ m @ b \<Longrightarrow> length before \<le> length a"
proof (induction m s arbitrary: before a rule: split_first.induct)
  case (2 m c s)
  show ?case
  proof (cases "starts_with m (c # s)")
    case True
    with 2(2) show ?thesis by simp
  next
    case False
    with 2(4) obtain a' where "a = c # a'" "s = a' @ m @ b"
      by (cases a) (auto simp: starts_with_iff_prefix)
    moreover obtain before' where "split_first m s = Some (before', after)" "before = c # before'"
      using 2(2) False by auto
    ultimately show ?thesis using 2(1) [OF False _ 2(3)] by simp
  qed
qed auto

text \<open>Induction along the loop: input and output together.\<close>

lemma redact_induct:
  assumes "m \<noteq> []"
    and none: "\<And>x. split_first m x = None \<Longrightarrow> P x x"
    and long: "\<And>before after out. split_first m (before @ m @ after) = Some (before, after) \<Longrightarrow>
      8 \<le> length (takeWhile secret_char after) \<Longrightarrow> P (dropWhile secret_char after) out \<Longrightarrow>
      P (before @ m @ after) (before @ m @ substitute @ out)"
    and short: "\<And>before after. split_first m (before @ m @ after) = Some (before, after) \<Longrightarrow>
      length (takeWhile secret_char after) < 8 \<Longrightarrow> P after (redact_after_marker after m) \<Longrightarrow>
      P (before @ m @ after) (before @ m @ redact_after_marker after m)"
  shows "P x (redact_after_marker x m)"
proof (induction "length x" arbitrary: x rule: less_induct)
  case less
  show ?case
  proof (cases "split_first m x")
    case None
    with none assms(1) show ?thesis by (simp add: redact_after_marker.simps [of x])
  next
    case (Some r)
    obtain before after where r: "r = (before, after)" by force
    have x: "x = before @ m @ after" using Some r by (auto dest: split_first_Some)
    have small: "length after < length x" "length (dropWhile secret_char after) < length x"
      using assms(1) x length_dropWhile_le [of secret_char after] by (auto intro: le_less_trans)
    have "redact_after_marker x m = before @ m @ (if 8 \<le> length (takeWhile secret_char after)
        then substitute @ redact_after_marker (dropWhile secret_char after) m else redact_after_marker after m)"
      using Some r assms(1) by (subst redact_after_marker.simps) (simp add: Let_def dropWhile_eq_drop)
    then show ?thesis
      using long [OF _ _ less [OF small(2)], of before] short [OF _ _ less [OF small(1)], of before] Some r x by auto
  qed
qed

text \<open>The output follows the input up to its first substitution.\<close>

lemma redact_follows:
  assumes "m \<noteq> []"
  shows "redact_after_marker x m = x \<or> (\<exists>p y z. x = p @ y \<and> redact_after_marker x m = p @ substitute @ z)"
    (is "?P x (redact_after_marker x m)")
proof (rule redact_induct [where P = ?P, OF assms])
  fix before after out
  show "?P (before @ m @ after) (before @ m @ substitute @ out)"
    by (intro disjI2 exI [of _ "before @ m"] exI) simp
next
  fix before after
  assume "?P after (redact_after_marker after m)"
  then show "?P (before @ m @ after) (before @ m @ redact_after_marker after m)"
  proof (elim disjE exE conjE)
    fix p y z assume "after = p @ y" "redact_after_marker after m = p @ substitute @ z"
    then show ?thesis by (intro disjI2 exI [of _ "before @ m @ p"] exI [of _ y] exI [of _ z]) simp
  qed simp
qed simp

lemma takeWhile_append_ge: "length (takeWhile P u) \<le> length (takeWhile P (u @ v))"
  by (induction u) auto

lemma redacted_token_shorter:
  assumes "m \<noteq> []"
  shows "length (takeWhile secret_char (redact_after_marker x m)) \<le> length (takeWhile secret_char x)"
proof -
  have "length (takeWhile secret_char (p @ substitute @ z)) \<le> length (takeWhile secret_char (p @ y))" for p y z
    by (simp add: token_ends_at_substitute takeWhile_append_ge)
  with redact_follows [OF assms, of x] show ?thesis by (elim disjE exE conjE) simp_all
qed

lemma nth_middle: "length q \<le> i \<Longrightarrow> i < length q + length r \<Longrightarrow> (q @ r @ z) ! i = r ! (i - length q)"
  by (simp add: nth_append less_diff_conv2)

text \<open>Where a token can stand in a text with a substitution.\<close>

lemma leak_position:
  assumes eq: "a @ m @ b = q @ substitute @ z" and m: "plain_marker m" and long: "8 \<le> length (takeWhile secret_char b)"
  shows "(\<exists>u. q = a @ m @ u \<and> 8 \<le> length (takeWhile secret_char u)) \<or> (\<exists>a'. a' @ m @ b = z)"
proof -
  consider "length a + length m \<le> length q" | "length a \<le> length q" "length q < length a + length m"
    | "length q < length a" "length a < length q + 10" | "length q + 10 \<le> length a" by linarith
  then show ?thesis
  proof cases
    case 1
    with occurs_before [OF eq] obtain u where "q = a @ m @ u" "b = u @ substitute @ z" by blast
    with long show ?thesis by (auto simp: token_ends_at_substitute)
  next
    case 2
    with eq m straddles [of a m b q "CHR ''[''" "''redacted]'' @ z"] show ?thesis
      by (simp add: plain_marker_def substitute_def)
  next
    case 3
    from m obtain c m' where c: "m = c # m'" by (cases m) (auto simp: plain_marker_def)
    have "c = (a @ m @ b) ! length a" by (simp add: c)
    also have "\<dots> = substitute ! (length a - length q)"
      unfolding eq using 3 by (intro nth_middle) simp_all
    also have "\<dots> \<in> set substitute" by (rule nth_mem) (use 3 in simp)
    finally show ?thesis using m by (simp add: c plain_marker_def)
  next
    case 4
    with occurs_after [of a m b "q @ substitute" z] eq show ?thesis by auto
  qed
qed

lemma leaks_append: "leaks m t \<Longrightarrow> leaks m (s @ t)"
  unfolding leaks_def by (metis append.assoc)

lemma leaks_front: "q = a @ m @ u \<Longrightarrow> 8 \<le> length (takeWhile secret_char u) \<Longrightarrow> leaks m (q @ v)"
  using leaksI [of "u @ v" m a] takeWhile_append_ge [of secret_char u v] by simp

lemma redacted_other_marker:
  assumes m: "plain_marker m" and m': "m' \<noteq> []" and leak: "leaks m (redact_after_marker x m')"
  shows "leaks m x"
proof -
  have "leaks m (redact_after_marker x m') \<longrightarrow> leaks m x" (is "?P x (redact_after_marker x m')")
  proof (rule redact_induct [where P = ?P, OF m'])
    fix before after out assume IH: "?P (dropWhile secret_char after) out"
    show "?P (before @ m' @ after) (before @ m' @ substitute @ out)"
    proof
      assume "leaks m (before @ m' @ substitute @ out)"
      then obtain a b where "a @ m @ b = before @ m' @ substitute @ out" and long: "8 \<le> length (takeWhile secret_char b)"
        by (rule leaksE)
      then have ab: "a @ m @ b = (before @ m') @ substitute @ out" by simp
      from leak_position [OF ab m long] show "leaks m (before @ m' @ after)"
      proof (elim disjE exE conjE)
        fix u assume "before @ m' = a @ m @ u" "8 \<le> length (takeWhile secret_char u)"
        from leaks_front [OF this, of after] show ?thesis by simp
      next
        fix a' assume "a' @ m @ b = out"
        then have "leaks m (dropWhile secret_char after)" using IH leaksI [OF long, of m a'] by simp
        from leaks_append [OF this, of "before @ m' @ takeWhile secret_char after"] show ?thesis by simp
      qed
    qed
  next
    fix before after assume IH: "?P after (redact_after_marker after m')"
    show "?P (before @ m' @ after) (before @ m' @ redact_after_marker after m')"
    proof
      assume leak: "leaks m (before @ m' @ redact_after_marker after m')"
      from redact_follows [OF m', of after] show "leaks m (before @ m' @ after)"
      proof (elim disjE exE conjE)
        fix p y z assume after: "after = p @ y" and out: "redact_after_marker after m' = p @ substitute @ z"
        from leak obtain a b where eq: "a @ m @ b = before @ m' @ redact_after_marker after m'"
          and long: "8 \<le> length (takeWhile secret_char b)" by (rule leaksE)
        from eq have ab: "a @ m @ b = (before @ m' @ p) @ substitute @ z" by (simp add: out)
        from leak_position [OF ab m long] show ?thesis
        proof (elim disjE exE conjE)
          fix u assume "before @ m' @ p = a @ m @ u" "8 \<le> length (takeWhile secret_char u)"
          from leaks_front [OF this, of y] show ?thesis by (simp add: after)
        next
          fix a' assume "a' @ m @ b = z"
          then have "leaks m z" using leaksI [OF long, of m a'] by simp
          with IH out leaks_append [of m z "p @ substitute"] have "leaks m after" by simp
          from leaks_append [OF this, of "before @ m'"] show ?thesis by simp
        qed
      qed (use leak in simp)
    qed
  qed simp
  with leak show ?thesis by simp
qed

lemma marker_in_front:
  assumes eq: "a @ m @ b = before @ m @ w" and m: "plain_marker m" and pos: "length before < length a"
  shows "length before + length m \<le> length a"
proof (rule ccontr)
  assume "\<not> length before + length m \<le> length a"
  then have short: "length a < length before + length m" by simp
  from occurs_after [OF eq] pos obtain k where k: "a = before @ k" "k @ m @ b = m @ w" by auto
  with pos short have len: "0 < length k" "length k < length m" by simp_all
  have "take (length m) (drop (length k) (m @ w)) = m" using k(2) [symmetric] by simp
  then have "m = drop (length k) m @ take (length k) w" using len by simp
  then have "prefix (drop (length k) m) m" by (metis prefixI)
  with m len show False by (auto simp: plain_marker_def)
qed

lemma first_marker_in_front:
  assumes first: "split_first m (before @ m @ after) = Some (before, after)" and eq: "a @ m @ b = before @ m @ w" and m: "m \<noteq> []"
  shows "length before \<le> length a"
proof (rule ccontr)
  assume "\<not> length before \<le> length a"
  moreover from this obtain u where "before @ m = a @ m @ u"
    using occurs_before [of a m b "before @ m" w] eq by auto
  then have "before @ m @ after = a @ m @ (u @ after)" by (metis append.assoc)
  ultimately show False using split_first_earliest [OF first m] by blast
qed

lemma redacted_own_marker:
  assumes m: "plain_marker m"
  shows "\<not> leaks m (redact_after_marker x m)" (is "?P x (redact_after_marker x m)")
proof (rule redact_induct [where P = "\<lambda>x out. \<not> leaks m out"])
  show ne: "m \<noteq> []" using m by (simp add: plain_marker_def)
  show "\<not> leaks m x" if "split_first m x = None" for x
    using split_first_None [OF that ne] by (auto simp: leaks_def)
  show "\<not> leaks m (before @ m @ substitute @ out)"
    if first: "split_first m (before @ m @ after) = Some (before, after)" and IH: "\<not> leaks m out" for before after out
  proof
    assume "leaks m (before @ m @ substitute @ out)"
    then obtain a b where eq: "a @ m @ b = before @ m @ substitute @ out" and long: "8 \<le> length (takeWhile secret_char b)"
      by (rule leaksE)
    then have "a @ m @ b = (before @ m) @ substitute @ out" by simp
    from leak_position [OF this m long] IH leaksI [OF long, of m] obtain u where
      u: "before @ m = a @ m @ u" "8 \<le> length (takeWhile secret_char u)" by auto
    from arg_cong [OF u(1), of length] first_marker_in_front [OF first eq ne] have "u = []" by simp
    with u(2) show False by simp
  qed
  show "\<not> leaks m (before @ m @ redact_after_marker after m)"
    if first: "split_first m (before @ m @ after) = Some (before, after)"
      and short: "length (takeWhile secret_char after) < 8" and IH: "\<not> leaks m (redact_after_marker after m)" for before after
  proof
    assume "leaks m (before @ m @ redact_after_marker after m)"
    then obtain a b where eq: "a @ m @ b = before @ m @ redact_after_marker after m"
      and long: "8 \<le> length (takeWhile secret_char b)" by (rule leaksE)
    show False
    proof (cases "length a = length before")
      case True
      with eq have "b = redact_after_marker after m" by simp
      with long short redacted_token_shorter [OF ne, of after] show False by simp
    next
      case False
      with first_marker_in_front [OF first eq ne] marker_in_front [OF eq m] have "length (before @ m) \<le> length a" by simp
      with occurs_after [of a m b "before @ m" "redact_after_marker after m"] eq obtain a' where
        "a' @ m @ b = redact_after_marker after m" by auto
      with IH leaksI [OF long, of m a'] show False by simp
    qed
  qed
qed

section \<open>What is kept\<close>

definition secret_markers :: "string list" where
  "secret_markers = [''Bearer '', ''sk-'', ''sk_m'']"

definition clean_text :: "string \<Rightarrow> bool" where
  "clean_text s \<longleftrightarrow> list_all (\<lambda>m. \<not> leaks m s) secret_markers"

definition clean_json :: "json \<Rightarrow> bool" where
  "clean_json j \<longleftrightarrow> (\<forall>s. inside (JStr s) j \<longrightarrow> clean_text s)
     \<and> (\<forall>members key v. inside (JObj members) j \<longrightarrow> (key, v) \<in> set members \<longrightarrow> sensitive_key key \<longrightarrow> v = JStr substitute)"

lemma plain_markers: "list_all plain_marker secret_markers"
  by (auto simp: secret_markers_def plain_marker_def substitute_def less_Suc_eq numeral_eq_Suc)

lemma clean_redacted: "clean_text (redact_secret_fragments value)"
proof -
  let ?one = "redact_after_marker value ''Bearer ''"
  let ?two = "redact_after_marker ?one ''sk-''"
  have m: "plain_marker ''Bearer ''" "plain_marker ''sk-''" "plain_marker ''sk_m''"
    using plain_markers by (simp_all add: secret_markers_def)
  have "\<not> leaks ''Bearer '' ?one" "\<not> leaks ''sk-'' ?two" "\<not> leaks ''sk_m'' (redact_after_marker ?two ''sk_m'')"
    using m by (simp_all add: redacted_own_marker)
  then show ?thesis
    unfolding clean_text_def secret_markers_def redact_secret_fragments_def
    using redacted_other_marker [OF m(1), of "''sk-''" ?one] redacted_other_marker [OF m(1), of "''sk_m''" ?two]
      redacted_other_marker [OF m(2), of "''sk_m''" ?two] by auto
qed

lemma clean_substitute: "clean_text substitute"
  by (auto simp: clean_text_def secret_markers_def leaks_def substitute_def append_eq_Cons_conv Cons_eq_append_conv)

lemma clean_json_simps:
  "clean_json (JStr s) \<longleftrightarrow> clean_text s"
  "clean_json (JArr items) \<longleftrightarrow> list_all clean_json items"
  "clean_json (JObj members) \<longleftrightarrow> list_all (\<lambda>(k, v). clean_json v \<and> (sensitive_key k \<longrightarrow> v = JStr substitute)) members"
  "clean_json JNull" "clean_json (JBool b)" "clean_json (JNum n)"
  by (auto simp: clean_json_def inside_simps list_all_iff) blast+

lemma clean_redact_json:
  "clean_json (redact_json_value j)"
  "clean_json (JObj (redact_members members))"
  "clean_json (JArr (redact_items items))"
  by (induction j and members and items rule: redact_json_value_redact_members_redact_items.induct)
    (auto simp: clean_json_simps clean_redacted clean_substitute)

lemma char_count_simps [simp]:
  "char_count [] = 0" "char_count (a @ b) = char_count a + char_count b"
  by (simp_all add: char_count_def)

lemma char_count_take_chars: "char_count (take_chars n s) \<le> n"
proof (induction n s rule: take_chars.induct)
  case (1 n s)
  have tail: "filter (\<lambda>c. \<not> is_continuation c) (takeWhile is_continuation r) = []" for r
    by (auto simp: filter_empty_conv dest: set_takeWhileD)
  show ?case
  proof (cases n; cases s)
    fix m c r assume ns: "n = Suc m" "s = c # r"
    then have "char_count (take_chars m (dropWhile is_continuation r)) \<le> m" using 1 by blast
    with ns show ?thesis by (subst take_chars.simps) (simp add: char_count_def tail)
  qed (subst take_chars.simps, simp)+
qed

text \<open>
  C28: Upstream errors are stored and shown without tokens.  Whatever an upstream sends, no text
  of its redacted body has a marker (\<^verbatim>\<open>Bearer\<close>, \<^verbatim>\<open>sk-\<close>, \<^verbatim>\<open>sk_m\<close>) with a token of eight or more characters
  behind it, every member with a sensitive name has lost its value, at any depth, and the
  result has at most 8192 characters and the note that it was cut.
\<close>

theorem redacted_errors_hold_no_token:
  "clean_text (redact_secret_fragments value)
   \<and> clean_json (redact_json_value j)
   \<and> char_count (sanitize_error_body from_str to_text body) \<le> MAX_ERROR_BODY_CHARS + 15"
proof -
  have "char_count (truncate_body v) \<le> MAX_ERROR_BODY_CHARS + 15" for v
    using char_count_take_chars [of MAX_ERROR_BODY_CHARS v]
    by (simp add: truncate_body_def) (simp add: char_count_def is_continuation_def in_range_def)
  then show ?thesis
    by (simp add: clean_redacted clean_redact_json sanitize_error_body_def sanitize_error_text_def split: sum.splits)
qed

end
