(* ===== verification/Sse_Reader.thy ===== *)
theory Sse_Reader
  imports Error_Redaction App_Error
begin

text \<open>
  The reader of server-sent events, the other half of \<^verbatim>\<open>src/http.rs\<close>: bytes arrive in chunks of
  any size, are cut into lines under three byte limits and collected into frames.  A failed read
  of the transport, time-outs included, is an error element of the input.
\<close>

section \<open>Streams that may fail\<close>

text \<open>
  The body of a \<^verbatim>\<open>try_stream!\<close> block: what it has yielded so far, and the error it stopped with or the
  state it goes on with.
\<close>

fun yielding :: "'f list \<times> ('e + 'a) \<Rightarrow> ('a \<Rightarrow> 'f list \<times> ('e + 'b)) \<Rightarrow> 'f list \<times> ('e + 'b)" where
  "yielding (fs, Inl e) k = (fs, Inl e)"
| "yielding (fs, Inr a) k = (fs @ fst (k a), snd (k a))"

lemma yielding_cong [fundef_cong]:
  assumes "m = m'" and "\<And>fs a. m' = (fs, Inr a) \<Longrightarrow> k a = k' a"
  shows "yielding m k = yielding m' k'"
  using assms by (cases "(m', k')" rule: yielding.cases) auto

lemma yielding_assoc: "yielding (yielding m f) g = yielding m (\<lambda>a. yielding (f a) g)"
proof (cases "(m, f)" rule: yielding.cases)
  case (2 fs a k)
  then show ?thesis by (cases "(f a, g)" rule: yielding.cases) auto
qed auto

lemma yielding_nothing [simp]: "yielding ([], Inr a) k = k a"
  by simp

lemma yielding_return [simp]: "yielding m (\<lambda>a. ([], Inr a)) = m"
  by (cases m; cases "snd m") auto

lemma yielding_eq_Inr:
  "yielding m k = (fs, Inr b) \<longleftrightarrow>
     (\<exists>fs1 a fs2. m = (fs1, Inr a) \<and> k a = (fs2, Inr b) \<and> fs = fs1 @ fs2)"
proof (cases "(m, k)" rule: yielding.cases)
  case (2 fs1 a k')
  then show ?thesis by (cases "k a") auto
qed auto

section \<open>Lines\<close>

definition newline_char :: char where
  "newline_char = CHR 0x0A"

definition return_char :: char where
  "return_char = CHR 0x0D"

definition pop_if :: "char \<Rightarrow> string \<Rightarrow> string" where
  "pop_if c line = (if line \<noteq> [] \<and> last line = c then butlast line else line)"

definition trim_line_ending :: "string \<Rightarrow> string" where
  "trim_line_ending line = pop_if return_char (pop_if newline_char line)"

record sse_limits =
  max_sse_line_bytes :: nat
  max_sse_event_bytes :: nat
  max_sse_stream_bytes :: nat

definition sse_limit_error :: "string \<Rightarrow> string \<Rightarrow> nat \<Rightarrow> app_error" where
  "sse_limit_error kind setting limit =
     UpstreamProtocol (''upstream SSE '' @ kind @ '' exceeded '' @ setting @ '' ('' @ show_nat limit @ '' bytes)'')"

definition line_limit_error :: "nat \<Rightarrow> app_error" where
  "line_limit_error limit = sse_limit_error ''line'' ''MODELPORT_HTTP_SSE_MAX_LINE_BYTES'' limit"

definition ensure_sse_line_limit :: "string \<Rightarrow> nat \<Rightarrow> unit result" where
  "ensure_sse_line_limit line limit = (if length line > limit then Inl (line_limit_error limit) else Inr ())"

definition ensure_pending_sse_line_limit :: "string \<Rightarrow> nat \<Rightarrow> unit result" where
  "ensure_pending_sse_line_limit line limit =
     (let line_len = (if line \<noteq> [] \<and> last line = return_char then length line - 1 else length line)
      in if line_len > limit then Inl (line_limit_error limit) else Inr ())"

definition checked_sse_bytes :: "nat \<Rightarrow> nat \<Rightarrow> nat \<Rightarrow> string \<Rightarrow> string \<Rightarrow> nat result" where
  "checked_sse_bytes current additional limit kind setting =
     (let total = current + additional
      in if total > u64_max then Inl (sse_limit_error kind setting limit)
         else if total > limit then Inl (sse_limit_error kind setting limit)
         else Inr total)"

section \<open>Frames\<close>

record sse_frame =
  fr_event :: "string option"
  fr_id :: "string option"
  fr_retry :: "u64 option"
  fr_comments :: "string list"
  fr_data :: string

record sse_fields =
  sf_event :: "string option"
  sf_id :: "string option"
  sf_retry :: "u64 option"
  sf_comments :: "string list"
  sf_data :: "string list"
  sf_raw_body :: "string list"

definition no_fields :: sse_fields where
  "no_fields = \<lparr> sf_event = None, sf_id = None, sf_retry = None, sf_comments = [], sf_data = [], sf_raw_body = [] \<rparr>"

fun join_lines :: "string list \<Rightarrow> string" where
  "join_lines [] = []"
| "join_lines [x] = x"
| "join_lines (x # y # rest) = x @ newline_char # join_lines (y # rest)"

definition take_frame :: "sse_fields \<Rightarrow> sse_frame" where
  "take_frame f = \<lparr> fr_event = sf_event f, fr_id = sf_id f, fr_retry = sf_retry f, fr_comments = sf_comments f,
                    fr_data = join_lines (sf_data f) \<rparr>"

definition handle_sse_line :: "string \<Rightarrow> sse_fields \<Rightarrow> sse_frame option \<times> sse_fields" where
  "handle_sse_line bytes f =
     (let line = from_utf8_lossy bytes
      in case strip_prefix ''event:'' line of
           Some v \<Rightarrow> (None, f\<lparr> sf_event := Some (trim v) \<rparr>)
         | None \<Rightarrow> (case strip_prefix ''id:'' line of
           Some v \<Rightarrow> (None, f\<lparr> sf_id := Some (trim_start v) \<rparr>)
         | None \<Rightarrow> (case strip_prefix ''retry:'' line of
           Some v \<Rightarrow> (None, case parse_uint u64_max (trim v) of Some millis \<Rightarrow> f\<lparr> sf_retry := Some millis \<rparr> | None \<Rightarrow> f)
         | None \<Rightarrow> (case strip_prefix ''data:'' line of
           Some v \<Rightarrow> (None, f\<lparr> sf_data := sf_data f @ [trim_start v] \<rparr>)
         | None \<Rightarrow> (case strip_prefix '':'' line of
           Some v \<Rightarrow> (None, f\<lparr> sf_comments := sf_comments f @ [trim_start v] \<rparr>)
         | None \<Rightarrow>
             if trim line = [] \<and> sf_data f \<noteq> []
             then (Some (take_frame f), f\<lparr> sf_event := None, sf_id := None, sf_retry := None, sf_comments := [], sf_data := [] \<rparr>)
             else if trim line \<noteq> [] then (None, f\<lparr> sf_raw_body := sf_raw_body f @ [line] \<rparr>)
             else (None, f))))))"

section \<open>The reading loop\<close>

record reader =
  rd_line_buffer :: string
  rd_fields :: sse_fields
  rd_yielded_frame :: bool
  rd_event_bytes :: nat
  rd_stream_bytes :: nat

definition new_reader :: reader where
  "new_reader = \<lparr> rd_line_buffer = [], rd_fields = no_fields, rd_yielded_frame = False, rd_event_bytes = 0, rd_stream_bytes = 0 \<rparr>"

definition checked_event_bytes :: "sse_limits \<Rightarrow> nat \<Rightarrow> nat \<Rightarrow> nat result" where
  "checked_event_bytes limits current additional =
     checked_sse_bytes current additional (max_sse_event_bytes limits) ''event'' ''MODELPORT_HTTP_SSE_MAX_EVENT_BYTES''"

text \<open>One complete line: the checks, the fields, the frame it may end.\<close>

definition read_line :: "sse_limits \<Rightarrow> string \<Rightarrow> reader \<Rightarrow> sse_frame list \<times> reader result" where
  "read_line limits line r =
     yielding ([], ensure_sse_line_limit line (max_sse_line_bytes limits)) (\<lambda>_.
     yielding ([], checked_event_bytes limits (rd_event_bytes r) (length line)) (\<lambda>event_bytes.
       case handle_sse_line line (rd_fields r) of
         (Some frame, kept) \<Rightarrow> ([frame], Inr (r\<lparr> rd_fields := kept, rd_event_bytes := 0, rd_yielded_frame := True \<rparr>))
       | (None, kept) \<Rightarrow> ([], Inr (r\<lparr> rd_fields := kept, rd_event_bytes := event_bytes \<rparr>))))"

function read_lines :: "sse_limits \<Rightarrow> reader \<Rightarrow> sse_frame list \<times> reader result" where
  "read_lines limits r =
     (case split_once newline_char (rd_line_buffer r) of
        None \<Rightarrow> ([], Inr r)
      | Some (before, rest) \<Rightarrow>
          yielding (read_line limits (trim_line_ending (before @ [newline_char])) r)
            (\<lambda>r'. read_lines limits (r'\<lparr> rd_line_buffer := rest \<rparr>)))"
  by pat_completeness auto
termination
  by (relation "measure (\<lambda>(limits, r). length (rd_line_buffer r))") (auto dest: split_once_Some)

declare read_lines.simps [simp del]

definition read_chunk :: "sse_limits \<Rightarrow> string \<Rightarrow> reader \<Rightarrow> sse_frame list \<times> reader result" where
  "read_chunk limits chunk r =
     yielding ([], checked_sse_bytes (rd_stream_bytes r) (length chunk) (max_sse_stream_bytes limits)
                     ''stream'' ''MODELPORT_HTTP_SSE_MAX_STREAM_BYTES'') (\<lambda>n.
     yielding (read_lines limits (r\<lparr> rd_stream_bytes := n, rd_line_buffer := rd_line_buffer r @ chunk \<rparr>)) (\<lambda>r'.
     yielding ([], ensure_pending_sse_line_limit (rd_line_buffer r') (max_sse_line_bytes limits)) (\<lambda>_. ([], Inr r'))))"

fun read_chunks :: "sse_limits \<Rightarrow> string result list \<Rightarrow> reader \<Rightarrow> sse_frame list \<times> reader result" where
  "read_chunks limits [] r = ([], Inr r)"
| "read_chunks limits (Inl e # chunks) r = ([], Inl e)"
| "read_chunks limits (Inr chunk # chunks) r = yielding (read_chunk limits chunk r) (read_chunks limits chunks)"

text \<open>The end of the body: a last line without its line feed, a frame without its blank line.  The byte
  counter is not read again after this.\<close>

definition finish_buffer :: "sse_limits \<Rightarrow> reader \<Rightarrow> sse_frame list \<times> reader result" where
  "finish_buffer limits r =
     (if rd_line_buffer r = [] then ([], Inr r) else read_line limits (rd_line_buffer r) r)"

definition finish_stream ::
  "(string \<Rightarrow> string + json) \<Rightarrow> (json \<Rightarrow> string) \<Rightarrow> sse_limits \<Rightarrow> reader \<Rightarrow> sse_frame list \<times> unit result" where
  "finish_stream from_str to_text limits r =
     yielding (finish_buffer limits r) (\<lambda>r'.
       let kept = rd_fields r';
           yielded_frame = (rd_yielded_frame r' \<or> sf_data kept \<noteq> []);
           raw_body = sanitize_error_text from_str to_text (join_lines (sf_raw_body kept))
       in (if sf_data kept \<noteq> [] then [take_frame kept] else [],
           if yielded_frame then Inr ()
           else Inl (UpstreamProtocol
                  (if raw_body = [] then ''upstream SSE response ended before any data event''
                   else ''upstream returned a non-SSE response: '' @ raw_body))))"

definition sse_stream ::
  "(string \<Rightarrow> string + json) \<Rightarrow> (json \<Rightarrow> string) \<Rightarrow> sse_limits \<Rightarrow> string result list \<Rightarrow> sse_frame list \<times> unit result" where
  "sse_stream from_str to_text limits chunks =
     yielding (read_chunks limits chunks new_reader) (finish_stream from_str to_text limits)"

section \<open>The response as a whole\<close>

text \<open>
  A response is its status, the two headers the code looks at, and the chunks of its body.  The
  text of a header value is \<^const>\<open>None\<close> when it is missing or not visible ASCII.
  \<open>http_date\<close> is the number of seconds from now to the HTTP date in a header, if it is one in the
  future, and \<open>from_slice\<close> is the JSON reader.
\<close>

record http_response =
  hr_status :: nat
  hr_retry_after :: "string option"
  hr_content_type :: "string option"
  hr_body :: "string result list"

definition MAX_UPSTREAM_RETRY_AFTER_SECS :: nat where
  "MAX_UPSTREAM_RETRY_AFTER_SECS = 60"

definition retry_after_secs :: "(string \<Rightarrow> nat option) \<Rightarrow> http_response \<Rightarrow> u64 option" where
  "retry_after_secs http_date response =
     (case hr_retry_after response of
        None \<Rightarrow> None
      | Some header \<Rightarrow>
          (let value = trim header
           in map_option (\<lambda>seconds. min seconds MAX_UPSTREAM_RETRY_AFTER_SECS)
                (case parse_uint u64_max value of Some n \<Rightarrow> Some n | None \<Rightarrow> http_date value)))"

definition is_success :: "nat \<Rightarrow> bool" where
  "is_success n \<longleftrightarrow> 200 \<le> n \<and> n < 300"

fun response_body :: "nat \<Rightarrow> string result list \<Rightarrow> string \<Rightarrow> string result" where
  "response_body limit [] body = Inr body"
| "response_body limit (Inl e # chunks) body = Inl e"
| "response_body limit (Inr chunk # chunks) body =
     (if sat_add (length body) (length chunk) > limit
      then Inl (UpstreamProtocol
             (''upstream response exceeded MODELPORT_HTTP_MAX_RESPONSE_BYTES ('' @ show_nat limit @ '')''))
      else response_body limit chunks (body @ chunk))"

definition response_error ::
  "(string \<Rightarrow> string + json) \<Rightarrow> (json \<Rightarrow> string) \<Rightarrow> (string \<Rightarrow> nat option) \<Rightarrow> http_response \<Rightarrow> string \<Rightarrow> app_error" where
  "response_error from_str to_text http_date response body =
     Upstream (hr_status response) (sanitize_error_body from_str to_text body) (retry_after_secs http_date response)"

definition response_json ::
  "(string \<Rightarrow> string + json) \<Rightarrow> (json \<Rightarrow> string) \<Rightarrow> (string \<Rightarrow> nat option) \<Rightarrow> (string \<Rightarrow> string + json)
   \<Rightarrow> nat \<Rightarrow> http_response \<Rightarrow> json result" where
  "response_json from_str to_text http_date from_slice limit response =
     and_then (response_body limit (hr_body response) []) (\<lambda>body.
       if \<not> is_success (hr_status response) then Inl (response_error from_str to_text http_date response body)
       else case from_slice body of
              Inl err \<Rightarrow> Inl (UpstreamProtocol (''upstream returned invalid JSON: '' @ err))
            | Inr v \<Rightarrow> Inr v)"

definition has_sse_content_type :: "string \<Rightarrow> bool" where
  "has_sse_content_type content_type \<longleftrightarrow>
     to_ascii_lowercase (trim (case split_once CHR '';'' content_type of Some (m, _) \<Rightarrow> m | None \<Rightarrow> content_type))
       = ''text/event-stream''"

definition response_sse ::
  "(string \<Rightarrow> string + json) \<Rightarrow> (json \<Rightarrow> string) \<Rightarrow> (string \<Rightarrow> nat option) \<Rightarrow> nat \<Rightarrow> sse_limits
   \<Rightarrow> http_response \<Rightarrow> (sse_frame list \<times> unit result) result" where
  "response_sse from_str to_text http_date limit limits response =
     (if \<not> is_success (hr_status response) then
        and_then (response_body limit (hr_body response) [])
          (\<lambda>body. Inl (response_error from_str to_text http_date response body))
      else if hr_status response = 204 then
        Inl (UpstreamProtocol ''upstream SSE endpoint returned HTTP 204 with no event stream'')
      else let content_type = (case hr_content_type response of Some t \<Rightarrow> t | None \<Rightarrow> ''<missing>'')
           in if \<not> has_sse_content_type content_type then
                and_then (response_body limit (hr_body response) []) (\<lambda>body.
                  Inl (UpstreamProtocol (''upstream SSE endpoint returned `'' @ content_type
                    @ ''` instead of text/event-stream: '' @ sanitize_error_body from_str to_text body)))
              else Inr (sse_stream from_str to_text limits (hr_body response)))"

section \<open>Chunk boundaries do not matter\<close>

text \<open>Feeding bytes to the reader without the two checks a chunk adds.\<close>

definition feed :: "sse_limits \<Rightarrow> string \<Rightarrow> reader \<Rightarrow> sse_frame list \<times> reader result" where
  "feed limits bytes r = read_lines limits (r\<lparr> rd_line_buffer := rd_line_buffer r @ bytes \<rparr>)"

lemma split_once_None_iff: "split_once d s = None \<longleftrightarrow> d \<notin> set s"
  by (induction s) (auto split: option.splits)

lemma split_once_append_Some:
  "split_once d x = Some (a, b) \<Longrightarrow> split_once d (x @ y) = Some (a, b @ y)"
  using split_once_Some [of d x a b] by (auto simp: split_once_append)

lemma read_line_buffer:
  "read_line limits line (r\<lparr> rd_line_buffer := b \<rparr>)
     = yielding (read_line limits line r) (\<lambda>r'. ([], Inr (r'\<lparr> rd_line_buffer := b \<rparr>)))"
  by (cases "ensure_sse_line_limit line (max_sse_line_bytes limits)";
      cases "checked_event_bytes limits (rd_event_bytes r) (length line)")
    (auto simp: read_line_def split: prod.splits option.splits)

text \<open>Draining a buffer that grows is draining its first part and going on with the rest.\<close>

lemma read_lines_append:
  "read_lines limits (r\<lparr> rd_line_buffer := rd_line_buffer r @ y \<rparr>) = yielding (read_lines limits r) (feed limits y)"
proof (induction limits r rule: read_lines.induct)
  case (1 limits r)
  show ?case
  proof (cases "split_once newline_char (rd_line_buffer r)")
    case None
    then show ?thesis by (simp add: feed_def read_lines.simps [of limits r])
  next
    case (Some ab)
    obtain a b where ab: "ab = (a, b)" by (cases ab)
    let ?line = "read_line limits (trim_line_ending (a @ [newline_char])) r"
    have "read_lines limits (r\<lparr> rd_line_buffer := rd_line_buffer r @ y \<rparr>)
        = yielding ?line (\<lambda>r'. read_lines limits (r'\<lparr> rd_line_buffer := b @ y \<rparr>))"
      using Some
      by (simp add: ab split_once_append_Some read_line_buffer yielding_assoc
          read_lines.simps [of limits "r\<lparr> rd_line_buffer := rd_line_buffer r @ y \<rparr>"])
    also have "\<dots> = yielding ?line (\<lambda>r'. yielding (read_lines limits (r'\<lparr> rd_line_buffer := b \<rparr>)) (feed limits y))"
      using 1 [OF Some [unfolded ab] refl] by (intro yielding_cong refl) simp
    also have "\<dots> = yielding (read_lines limits r) (feed limits y)"
      using Some by (simp add: ab yielding_assoc read_lines.simps [of limits r])
    finally show ?thesis .
  qed
qed

lemma feed_append: "feed limits (x @ y) r = yielding (feed limits x r) (feed limits y)"
  using read_lines_append [of limits "r\<lparr> rd_line_buffer := rd_line_buffer r @ x \<rparr>" y] by (simp add: feed_def)

lemma feed_stream_bytes:
  "feed limits y (r\<lparr> rd_stream_bytes := n \<rparr>) = yielding (feed limits y r) (\<lambda>r'. ([], Inr (r'\<lparr> rd_stream_bytes := n \<rparr>)))"
proof -
  have swap: "r\<lparr> rd_stream_bytes := n, rd_line_buffer := b \<rparr> = r\<lparr> rd_line_buffer := b, rd_stream_bytes := n \<rparr>" for r b
    by simp
  have line: "read_line limits line (r\<lparr> rd_stream_bytes := n \<rparr>)
      = yielding (read_line limits line r) (\<lambda>r'. ([], Inr (r'\<lparr> rd_stream_bytes := n \<rparr>)))" for limits line r
    by (cases "ensure_sse_line_limit line (max_sse_line_bytes limits)";
        cases "checked_event_bytes limits (rd_event_bytes r) (length line)")
      (auto simp: read_line_def split: prod.splits option.splits)
  have "read_lines limits (r\<lparr> rd_stream_bytes := n \<rparr>)
      = yielding (read_lines limits r) (\<lambda>r'. ([], Inr (r'\<lparr> rd_stream_bytes := n \<rparr>)))" for r
  proof (induction limits r rule: read_lines.induct)
    case (1 limits r)
    then show ?case
      by (cases "split_once newline_char (rd_line_buffer r)")
        (auto simp: read_lines.simps [of limits r] read_lines.simps [of limits "r\<lparr> rd_stream_bytes := n \<rparr>"]
          line swap yielding_assoc cong: yielding_cong)
  qed
  from this [of "r\<lparr> rd_line_buffer := rd_line_buffer r @ y \<rparr>"] show ?thesis by (simp add: feed_def swap)
qed

definition pending_ok :: "sse_limits \<Rightarrow> reader \<Rightarrow> bool" where
  "pending_ok limits r \<longleftrightarrow> ensure_pending_sse_line_limit (rd_line_buffer r) (max_sse_line_bytes limits) = Inr ()"

definition settled :: "sse_limits \<Rightarrow> reader \<Rightarrow> bool" where
  "settled limits r \<longleftrightarrow> newline_char \<notin> set (rd_line_buffer r) \<and> pending_ok limits r"

lemma pending_ok_append:
  "pending_ok limits (r\<lparr> rd_line_buffer := x @ z \<rparr>) \<Longrightarrow> pending_ok limits (r\<lparr> rd_line_buffer := x \<rparr>)"
  by (cases z rule: rev_cases) (auto simp: pending_ok_def ensure_pending_sse_line_limit_def Let_def split: if_splits)

lemma ensure_line_iff_pending:
  "ensure_sse_line_limit (trim_line_ending (x @ [newline_char])) (max_sse_line_bytes limits) = Inr ()
   \<longleftrightarrow> pending_ok limits (r\<lparr> rd_line_buffer := x \<rparr>)"
  by (auto simp: ensure_sse_line_limit_def trim_line_ending_def pop_if_def pending_ok_def
      ensure_pending_sse_line_limit_def)

lemma read_lines_settles:
  "read_lines limits r = (fs, Inr r') \<Longrightarrow> newline_char \<notin> set (rd_line_buffer r')"
proof (induction limits r arbitrary: fs rule: read_lines.induct)
  case (1 limits r)
  show ?case
  proof (cases "split_once newline_char (rd_line_buffer r)")
    case None
    then have "r' = r" using 1(2) by (simp add: read_lines.simps [of limits r])
    with None show ?thesis by (simp add: split_once_None_iff)
  next
    case (Some ab)
    obtain a b where ab: "ab = (a, b)" by (cases ab)
    with Some 1(2) obtain fs1 r1 fs2
      where "read_line limits (trim_line_ending (a @ [newline_char])) r = (fs1, Inr r1)"
        and "read_lines limits (r1\<lparr> rd_line_buffer := b \<rparr>) = (fs2, Inr r')"
      by (auto simp: read_lines.simps [of limits r] yielding_eq_Inr)
    from 1(1) [OF Some [unfolded ab] refl this] show ?thesis .
  qed
qed

lemma feed_pending:
  assumes "newline_char \<notin> set (rd_line_buffer r)" and fed: "feed limits y r = (fs, Inr r')" and "pending_ok limits r'"
  shows "pending_ok limits r"
proof (cases "split_once newline_char y")
  case None
  then have "split_once newline_char (rd_line_buffer r @ y) = None"
    using assms(1) by (simp add: split_once_None_iff)
  then have "r' = r\<lparr> rd_line_buffer := rd_line_buffer r @ y \<rparr>"
    using fed by (auto simp: feed_def read_lines.simps [of limits "r\<lparr> rd_line_buffer := rd_line_buffer r @ y \<rparr>"])
  with assms(3) show ?thesis using pending_ok_append [of limits "rd_line_buffer r" y r] by simp
next
  case (Some ab)
  obtain a b where ab: "ab = (a, b)" by (cases ab)
  have "split_once newline_char (rd_line_buffer r @ y) = Some (rd_line_buffer r @ a, b)"
    using assms(1) Some split_once_Some [of newline_char y a b]
      split_once_append [of newline_char "rd_line_buffer r @ a" b] by (simp add: ab)
  then have "ensure_sse_line_limit (trim_line_ending ((rd_line_buffer r @ a) @ [newline_char])) (max_sse_line_bytes limits) = Inr ()"
    using fed by (auto simp: feed_def read_line_def yielding_eq_Inr
        read_lines.simps [of limits "r\<lparr> rd_line_buffer := rd_line_buffer r @ y \<rparr>"])
  then show ?thesis
    using pending_ok_append [of limits "rd_line_buffer r" a r] by (simp only: ensure_line_iff_pending [where r = r]) simp
qed

lemma checked_sse_bytes_eq_Inr:
  "checked_sse_bytes current additional limit kind setting = Inr n \<longleftrightarrow>
     n = current + additional \<and> n \<le> limit \<and> n \<le> u64_max"
  by (auto simp: checked_sse_bytes_def Let_def)

lemma read_chunk_eq_Inr:
  "read_chunk limits c r = (fs, Inr r') \<longleftrightarrow>
     rd_stream_bytes r + length c \<le> min (max_sse_stream_bytes limits) u64_max
   \<and> feed limits c (r\<lparr> rd_stream_bytes := rd_stream_bytes r + length c \<rparr>) = (fs, Inr r') \<and> pending_ok limits r'"
  by (auto simp: read_chunk_def yielding_eq_Inr checked_sse_bytes_eq_Inr feed_def pending_ok_def)

lemma read_chunk_settled:
  assumes "read_chunk limits c r = (fs, Inr r')"
  shows "settled limits r' \<and> rd_stream_bytes r' = rd_stream_bytes r + length c
    \<and> rd_stream_bytes r + length c \<le> min (max_sse_stream_bytes limits) u64_max"
proof -
  from assms have fed: "feed limits c (r\<lparr> rd_stream_bytes := rd_stream_bytes r + length c \<rparr>) = (fs, Inr r')"
    and rest: "pending_ok limits r'" "rd_stream_bytes r + length c \<le> min (max_sse_stream_bytes limits) u64_max"
    by (auto simp: read_chunk_eq_Inr)
  from fed have "rd_stream_bytes r' = rd_stream_bytes r + length c"
    by (auto simp: feed_stream_bytes yielding_eq_Inr)
  moreover from fed rest(1) have "settled limits r'"
    by (auto simp: settled_def feed_def dest: read_lines_settles)
  ultimately show ?thesis using rest(2) by simp
qed

lemma read_chunk_bounded:
  "read_chunk limits c r = (fs, Inr r') \<Longrightarrow> length (rd_line_buffer r') \<le> Suc (max_sse_line_bytes limits)"
  by (auto simp: read_chunk_eq_Inr pending_ok_def ensure_pending_sse_line_limit_def Let_def split: if_splits)

text \<open>Reading chunks succeeds exactly when feeding all bytes at once does, within the stream limit.\<close>

lemma read_chunks_eq_Inr:
  assumes "settled limits r" and "rd_stream_bytes r \<le> min (max_sse_stream_bytes limits) u64_max"
  shows "read_chunks limits (map Inr cs) r = (fs, Inr r') \<longleftrightarrow>
     rd_stream_bytes r + length (concat cs) \<le> min (max_sse_stream_bytes limits) u64_max
   \<and> feed limits (concat cs) (r\<lparr> rd_stream_bytes := rd_stream_bytes r + length (concat cs) \<rparr>) = (fs, Inr r')
   \<and> pending_ok limits r'"
  using assms
proof (induction cs arbitrary: r fs)
  case Nil
  then show ?case
    by (auto simp: settled_def feed_def read_lines.simps [of limits r] simp flip: split_once_None_iff)
next
  case (Cons c cs)
  let ?n = "rd_stream_bytes r + length c" and ?m = "rd_stream_bytes r + length (c @ concat cs)"
  have step: "read_chunks limits (map Inr cs) r1 = (fs2, Inr r') \<longleftrightarrow>
       ?m \<le> min (max_sse_stream_bytes limits) u64_max \<and> feed limits (concat cs) (r1\<lparr> rd_stream_bytes := ?m \<rparr>) = (fs2, Inr r')
       \<and> pending_ok limits r'"
    if "read_chunk limits c r = (fs1, Inr r1)" for fs1 r1 fs2
    using Cons.IH [of r1 fs2] read_chunk_settled [OF that] by (simp add: add.assoc)
  show ?case
  proof (cases "feed limits c r")
    case (Pair fs1 res)
    show ?thesis
    proof (cases res)
      case (Inl e)
      then show ?thesis
        using Pair by (simp add: yielding_eq_Inr read_chunk_eq_Inr feed_append feed_stream_bytes)
    next
      case (Inr a)
      have one: "read_chunk limits c r = (fs1', Inr r1) \<longleftrightarrow>
          fs1' = fs1 \<and> r1 = a\<lparr> rd_stream_bytes := ?n \<rparr> \<and> ?n \<le> min (max_sse_stream_bytes limits) u64_max \<and> pending_ok limits a" for fs1' r1
        using Pair Inr by (auto simp: read_chunk_eq_Inr feed_stream_bytes pending_ok_def)
      have "pending_ok limits a" if "feed limits (concat cs) (a\<lparr> rd_stream_bytes := ?m \<rparr>) = (fs2, Inr r')" "pending_ok limits r'" for fs2
        using feed_pending [OF _ that] Pair Inr by (auto simp: feed_def pending_ok_def dest: read_lines_settles)
      note keeps = this
      have all: "feed limits (c @ concat cs) (r\<lparr> rd_stream_bytes := ?m \<rparr>) = (fs, Inr r')
          \<longleftrightarrow> (\<exists>fs2. feed limits (concat cs) (a\<lparr> rd_stream_bytes := ?m \<rparr>) = (fs2, Inr r') \<and> fs = fs1 @ fs2)"
        using Pair Inr
        by (cases "feed limits (concat cs) (a\<lparr> rd_stream_bytes := ?m \<rparr>)")
          (auto simp: feed_append feed_stream_bytes [of limits c])
      have "read_chunks limits (map Inr (c # cs)) r = (fs, Inr r') \<longleftrightarrow>
          (\<exists>fs2. read_chunk limits c r = (fs1, Inr (a\<lparr> rd_stream_bytes := ?n \<rparr>))
             \<and> read_chunks limits (map Inr cs) (a\<lparr> rd_stream_bytes := ?n \<rparr>) = (fs2, Inr r') \<and> fs = fs1 @ fs2)"
        by (simp add: yielding_eq_Inr one)
      also have "\<dots> \<longleftrightarrow> ?m \<le> min (max_sse_stream_bytes limits) u64_max
          \<and> (\<exists>fs2. feed limits (concat cs) (a\<lparr> rd_stream_bytes := ?m \<rparr>) = (fs2, Inr r') \<and> fs = fs1 @ fs2) \<and> pending_ok limits r'"
        using step [of fs1 "a\<lparr> rd_stream_bytes := ?n \<rparr>"] keeps one [of fs1 "a\<lparr> rd_stream_bytes := ?n \<rparr>"] by auto
      finally show ?thesis unfolding all [symmetric] by simp
    qed
  qed
qed

text \<open>
  C29: How the network cuts the body of an event stream does not change what is read from it.  If
  the bytes of a body arrive cut in one way and are read without an error, then cut in any other way
  they give the same frames, in the same order, and leave the reader in the same state, so the end of
  the stream is the same; and if they are refused in one way they are refused in every other way.
  The limits may depend on neither.
\<close>
theorem sse_reading_ignores_chunking:
  assumes "concat cs = concat cs'"
  shows "case read_chunks limits (map Inr cs) new_reader of
           (frames, Inr r) \<Rightarrow> read_chunks limits (map Inr cs') new_reader = (frames, Inr r)
         | (_, Inl _) \<Rightarrow> \<exists>frames e. read_chunks limits (map Inr cs') new_reader = (frames, Inl e)"
proof -
  have "settled limits new_reader" "rd_stream_bytes new_reader \<le> min (max_sse_stream_bytes limits) u64_max"
    by (simp_all add: settled_def new_reader_def pending_ok_def ensure_pending_sse_line_limit_def)
  then have same: "read_chunks limits (map Inr cs) new_reader = (frames, Inr r)
      \<longleftrightarrow> read_chunks limits (map Inr cs') new_reader = (frames, Inr r)" for frames r
    using assms by (simp add: read_chunks_eq_Inr)
  show ?thesis
  proof (cases "read_chunks limits (map Inr cs) new_reader")
    case (Pair frames res)
    show ?thesis
    proof (cases res)
      case (Inl e)
      have "\<exists>frames e. read_chunks limits (map Inr cs') new_reader = (frames, Inl e)"
        using same Pair Inl by (cases "read_chunks limits (map Inr cs') new_reader"; cases "snd (read_chunks limits (map Inr cs') new_reader)") auto
      with Pair Inl show ?thesis by simp
    qed (use same Pair in auto)
  qed
qed

definition example_limits :: sse_limits where
  "example_limits = \<lparr> max_sse_line_bytes = 16, max_sse_event_bytes = 64, max_sse_stream_bytes = 256 \<rparr>"

definition example_frame :: sse_frame where
  "example_frame = \<lparr> fr_event = None, fr_id = None, fr_retry = None, fr_comments = [], fr_data = ''hi'' \<rparr>"

lemma example_lines:
  "handle_sse_line ''data: hi'' no_fields = (None, no_fields\<lparr> sf_data := [''hi''] \<rparr>)"
  "handle_sse_line [] (no_fields\<lparr> sf_data := [''hi''] \<rparr>) = (Some example_frame, no_fields)"
  by code_simp+

theorem sse_reading_ignores_chunking_witness:
  "concat [''da'', ''ta: hi'' @ [return_char], [newline_char, newline_char]] = concat [''data: hi'' @ [return_char, newline_char, newline_char]]
   \<and> fst (read_chunks example_limits (map Inr [''da'', ''ta: hi'' @ [return_char], [newline_char, newline_char]]) new_reader) = [example_frame]"
proof -
  let ?whole = "[''data: hi'' @ [return_char, newline_char, newline_char]]"
    and ?cut = "[''da'', ''ta: hi'' @ [return_char], [newline_char, newline_char]]"
  have cut: "concat ?whole = concat ?cut" by simp
  have "fst (read_chunks example_limits (map Inr ?whole) new_reader) = [example_frame]"
    and "isl (snd (read_chunks example_limits (map Inr ?whole) new_reader)) = False"
    by (simp_all add: read_chunk_def read_lines.simps read_line_def checked_event_bytes_def checked_sse_bytes_def
        ensure_sse_line_limit_def ensure_pending_sse_line_limit_def example_limits_def new_reader_def
        newline_char_def return_char_def u64_max_def trim_line_ending_def pop_if_def example_lines)
  with sse_reading_ignores_chunking [OF cut, of example_limits] cut show ?thesis
    by (auto split: prod.splits sum.splits)
qed

end
