(* ===== verification/Stream_Text.thy ===== *)
theory Stream_Text
  imports Tool_Use
begin

text \<open>
  The text functions of \<^verbatim>\<open>src/providers/openai_stream.rs\<close>: what is new in a streamed fragment,
  the pieces a buffered answer is cut into, the suppression of repeated output and the search for a
  complete JSON object.  A character is the list of its UTF-8 bytes.
\<close>

section \<open>Characters\<close>

text \<open>The byte positions at which the characters end.\<close>

fun char_ends :: "nat \<Rightarrow> string list \<Rightarrow> nat list" where
  "char_ends n [] = []"
| "char_ends n (c # cs) = (n + length c) # char_ends (n + length c) cs"

section \<open>What is new in a fragment\<close>

definition suffix_prefix_overlap :: "string \<Rightarrow> string \<Rightarrow> nat" where
  "suffix_prefix_overlap seen content =
     fold (\<lambda>end best. if char_count (take end content) \<ge> 2 \<and> ends_with (take end content) seen then end else best)
       (char_ends 0 (chars content)) 0"

definition text_delta :: "string \<Rightarrow> string \<Rightarrow> bool \<Rightarrow> string \<times> string" where
  "text_delta seen content deduplicate =
     (if content = [] then ([], seen)
      else if \<not> deduplicate then (content, seen @ content)
      else if starts_with seen content then (drop (length seen) content, content)
      else if starts_with content seen then ([], seen)
      else if ends_with content seen then ([], seen)
      else if char_count content \<ge> 3 \<and> contains content seen then ([], seen)
      else let delta = drop (suffix_prefix_overlap seen content) content in (delta, seen @ delta))"

text \<open>What is emitted is exactly what the record of seen text grows by.\<close>

lemma text_delta_appends: "snd (text_delta seen content deduplicate) = seen @ fst (text_delta seen content deduplicate)"
  by (auto simp: text_delta_def Let_def starts_with_iff_prefix prefix_def)

lemma text_delta_plain: "text_delta seen content False = (content, seen @ content)"
  by (simp add: text_delta_def)

lemma text_delta_snapshot: "prefix seen content \<Longrightarrow> snd (text_delta seen content True) = content"
  by (auto simp: text_delta_def starts_with_iff_prefix)

section \<open>Pieces of a buffered answer\<close>

function split_inclusive :: "char \<Rightarrow> string \<Rightarrow> string list" where
  "split_inclusive d s =
     (case split_once d s of
        Some (a, b) \<Rightarrow> (a @ [d]) # split_inclusive d b
      | None \<Rightarrow> if s = [] then [] else [s])"
  by pat_completeness auto
termination
  by (relation "measure (length \<circ> snd)") (auto dest: split_once_Some)

declare split_inclusive.simps [simp del]

lemma concat_split_inclusive: "concat (split_inclusive d s) = s"
proof (induction d s rule: split_inclusive.induct)
  case (1 d s)
  then show ?case by (subst split_inclusive.simps) (auto dest: split_once_Some split: option.splits)
qed

lemma split_inclusive_nonempty: "l \<in> set (split_inclusive d s) \<Longrightarrow> l \<noteq> []"
proof (induction d s rule: split_inclusive.induct)
  case (1 d s)
  from 1(2) show ?case
    by (subst (asm) split_inclusive.simps) (auto dest: 1(1) split: option.splits if_splits)
qed

text \<open>White space and the punctuation marks, among them the ideographic full stop and comma, the
  full-width comma and semicolon.\<close>

definition is_boundary :: "string \<Rightarrow> bool" where
  "is_boundary ch \<longleftrightarrow>
     ch \<in> set whitespace_encodings
   \<or> ch \<in> {[CHR 0xE3, CHR 0x80, CHR 0x82], [CHR 0xEF, CHR 0xBC, CHR 0x8C], '','', ''.'', '';'',
           [CHR 0xEF, CHR 0xBC, CHR 0x9B], [CHR 0xE3, CHR 0x80, CHR 0x81]}"

fun wrap_chars :: "nat \<Rightarrow> string \<Rightarrow> nat \<Rightarrow> string list \<Rightarrow> nat \<Rightarrow> nat \<Rightarrow> nat option \<Rightarrow> string list" where
  "wrap_chars max_chars chunk index [] start counted last_boundary =
     (if start < length chunk then [drop start chunk] else [])"
| "wrap_chars max_chars chunk index (ch # rest) start counted last_boundary =
     (let counted = counted + 1;
          after = index + length ch;
          last_boundary = (if is_boundary ch then Some after else last_boundary)
      in if counted \<ge> max_chars
         then let end = (case last_boundary of Some boundary \<Rightarrow> if boundary > start then boundary else after | None \<Rightarrow> after)
              in take (end - start) (drop start chunk) # wrap_chars max_chars chunk after rest end 0 None
         else wrap_chars max_chars chunk after rest start counted last_boundary)"

definition wrap_long_chunk :: "string \<Rightarrow> nat \<Rightarrow> string list" where
  "wrap_long_chunk chunk max_chars =
     (if char_count chunk \<le> max_chars then [chunk] else wrap_chars max_chars chunk 0 (chars chunk) 0 0 None)"

definition push_wrapped_text_chunk :: "string \<Rightarrow> string list \<Rightarrow> string list" where
  "push_wrapped_text_chunk chunk chunks = (if chunk \<noteq> [] then chunks @ [chunk] else chunks)"

definition MAX_CHARS :: nat where
  "MAX_CHARS = 240"

definition stable_text_chunks :: "string \<Rightarrow> string list" where
  "stable_text_chunks text1 =
     (let chunks = fold push_wrapped_text_chunk (split_inclusive (CHR 0x0A) text1) [];
          chunks = (if chunks = [] \<and> text1 \<noteq> [] then [text1] else chunks)
      in concat (map (\<lambda>chunk. wrap_long_chunk chunk MAX_CHARS) chunks))"

section \<open>Repeated output\<close>

function collapse_lines :: "string list \<Rightarrow> string" where
  "collapse_lines lines =
     (case lines of
        [] \<Rightarrow> []
      | line # rest \<Rightarrow>
          (let counted = 1 + length (takeWhile ((=) line) rest);
               kept = (if counted \<ge> 3 then 1 else counted)
           in concat (replicate kept line) @ collapse_lines (dropWhile ((=) line) rest)))"
  by pat_completeness auto
termination
  by (relation "measure length") (auto intro: le_imp_less_Suc length_dropWhile_le)

declare collapse_lines.simps [simp del]

definition collapse_repeated_lines :: "string \<Rightarrow> string" where
  "collapse_repeated_lines s = collapse_lines (split_inclusive (CHR 0x0A) s)"

definition is_repetition_unit :: "(string \<Rightarrow> bool) \<Rightarrow> string list \<Rightarrow> bool" where
  "is_repetition_unit is_alphanumeric unit1 \<longleftrightarrow> length (take 2 (filter is_alphanumeric unit1)) \<ge> 2"

text \<open>How often a unit follows at the front of a list.\<close>

function copies :: "string list \<Rightarrow> string list \<Rightarrow> nat" where
  "copies unit1 cs =
     (if unit1 \<noteq> [] \<and> prefix unit1 cs then Suc (copies unit1 (drop (length unit1) cs)) else 0)"
  by pat_completeness auto
termination
  by (relation "measure (\<lambda>(u, cs). length cs)") (auto simp: prefix_def)

declare copies.simps [simp del]

definition MAX_UNIT_CHARS :: nat where
  "MAX_UNIT_CHARS = 48"

definition repetition_at :: "(string \<Rightarrow> bool) \<Rightarrow> string list \<Rightarrow> (nat \<times> nat) option" where
  "repetition_at is_alphanumeric cs =
     (let max_width = min MAX_UNIT_CHARS (length cs div 3);
          counted = (\<lambda>width. 1 + copies (take width cs) (drop width cs));
          min_count = (\<lambda>width. if width \<le> (2::nat) then 4 else 3)
      in map_option (\<lambda>width. (width, counted width))
           (find (\<lambda>width. is_repetition_unit is_alphanumeric (take width cs) \<and> counted width \<ge> min_count width)
              [2 ..< Suc max_width]))"

lemma find_Some_mem: "find P xs = Some x \<Longrightarrow> x \<in> set xs \<and> P x"
  by (induction xs) (auto split: if_splits)

lemma repetition_width:
  assumes "repetition_at a cs = Some (w, n)"
  shows "2 \<le> w \<and> w * 3 \<le> length cs"
proof -
  from assms have "w \<in> set [2 ..< Suc (min MAX_UNIT_CHARS (length cs div 3))]"
    by (auto simp: repetition_at_def Let_def dest: find_Some_mem)
  then show ?thesis by auto
qed

function collapse_chars :: "(string \<Rightarrow> bool) \<Rightarrow> string list \<Rightarrow> string list" where
  "collapse_chars is_alphanumeric cs =
     (if cs = [] then []
      else case repetition_at is_alphanumeric cs of
             Some (width, counted) \<Rightarrow> take width cs @ collapse_chars is_alphanumeric (drop (width * counted) cs)
           | None \<Rightarrow> hd cs # collapse_chars is_alphanumeric (tl cs))"
  by pat_completeness auto
termination
proof (relation "measure (\<lambda>(a, cs). length cs)")
  fix a :: "string \<Rightarrow> bool" and cs x2 w n
  assume "cs \<noteq> []" "repetition_at a cs = Some x2" "(w, n) = x2"
  moreover from this have "0 < n"
    by (auto simp: repetition_at_def Let_def)
  ultimately show "((a, drop (w * n) cs), a, cs) \<in> measure (\<lambda>(a, cs). length cs)"
    using repetition_width [of a cs w n] by auto
qed auto

declare collapse_chars.simps [simp del]

definition collapse_repeated_char_sequences :: "(string \<Rightarrow> bool) \<Rightarrow> string \<Rightarrow> string" where
  "collapse_repeated_char_sequences is_alphanumeric s = concat (collapse_chars is_alphanumeric (chars s))"

fun collapse_passes :: "(string \<Rightarrow> bool) \<Rightarrow> nat \<Rightarrow> string \<Rightarrow> string" where
  "collapse_passes is_alphanumeric 0 current = current"
| "collapse_passes is_alphanumeric (Suc n) current =
     (let after = collapse_repeated_char_sequences is_alphanumeric current
      in if after = current then current else collapse_passes is_alphanumeric n after)"

definition suppress_repeated_output :: "(string \<Rightarrow> bool) \<Rightarrow> string \<Rightarrow> string" where
  "suppress_repeated_output is_alphanumeric s = collapse_passes is_alphanumeric 4 (collapse_repeated_lines s)"

section \<open>Complete JSON objects\<close>

text \<open>
  \<open>first_value\<close> is the streaming reader of serde: the value at the front of a text and the offset of
  the byte after it.
\<close>

definition better_object ::
  "(string \<Rightarrow> (json \<times> nat) option) \<Rightarrow> string \<Rightarrow> string option \<Rightarrow> string option" where
  "better_object first_value slice best =
     (case slice of
        [] \<Rightarrow> best
      | c # _ \<Rightarrow>
          if c \<noteq> CHR ''{'' then best
          else case first_value slice of
                 None \<Rightarrow> best
               | Some (value, end) \<Rightarrow>
                   if \<not> is_object value \<or> end = 0 then best
                   else let candidate = take end slice
                        in if (case best of None \<Rightarrow> True | Some current \<Rightarrow> length candidate > length current)
                           then Some candidate else best)"

definition collect_complete_json_objects ::
  "(string \<Rightarrow> (json \<times> nat) option) \<Rightarrow> string \<Rightarrow> string option \<Rightarrow> string option" where
  "collect_complete_json_objects first_value source best =
     fold (better_object first_value) (map (\<lambda>start. drop start source) [0 ..< length source]) best"

definition best_complete_json_object ::
  "(string \<Rightarrow> (json \<times> nat) option) \<Rightarrow> string list \<Rightarrow> string option" where
  "best_complete_json_object first_value sources = fold (collect_complete_json_objects first_value) sources None"

section \<open>The pieces are the text\<close>

lemma char_count_append [simp]: "char_count (s @ t) = char_count s + char_count t"
  by (simp add: char_count_def)

lemma char_count_slice:
  "a \<le> b \<Longrightarrow> char_count (take (b - a) (drop a s)) + char_count (take a s) = char_count (take b s)"
  by (metis add.commute char_count_append le_add_diff_inverse take_add)

lemma slice_drop: "a \<le> b \<Longrightarrow> take (b - a) (drop a s) @ drop b s = drop a s"
  by (metis append_take_drop_id drop_drop le_add_diff_inverse2)

lemma char_count_char: "ch \<in> set (chars s) \<Longrightarrow> char_count ch \<le> 1"
proof (induction s rule: chars.induct)
  case (1 s)
  have "filter (\<lambda>c. \<not> is_continuation c) (takeWhile is_continuation r) = []" for r
    by (auto simp: filter_empty_conv dest: set_takeWhileD)
  with 1 show ?case by (cases s) (auto simp: char_count_def)
qed

text \<open>
  The state of the loop of \<^const>\<open>wrap_chars\<close> at byte \<open>index\<close>: the piece begun at \<open>start\<close> holds
  the characters counted and fewer than \<open>max_chars\<close> carried over from the last cut.
\<close>

definition wrap_state :: "nat \<Rightarrow> string \<Rightarrow> nat \<Rightarrow> string list \<Rightarrow> nat \<Rightarrow> nat \<Rightarrow> nat option \<Rightarrow> bool" where
  "wrap_state max_chars chunk index rest start counted last_boundary \<longleftrightarrow>
     concat rest = drop index chunk \<and> start \<le> index \<and> index \<le> length chunk \<and> counted < max_chars
   \<and> (\<forall>ch \<in> set rest. ch \<noteq> [] \<and> char_count ch \<le> 1)
   \<and> char_count (take index chunk) < char_count (take start chunk) + max_chars + counted
   \<and> (\<forall>b. last_boundary = Some b \<longrightarrow> b \<le> index \<and> char_count (take index chunk) < char_count (take b chunk) + counted)"

lemma wrap_chars_pieces:
  assumes "wrap_state max_chars chunk index rest start counted last_boundary"
  shows "concat (wrap_chars max_chars chunk index rest start counted last_boundary) = drop start chunk
    \<and> (\<forall>piece \<in> set (wrap_chars max_chars chunk index rest start counted last_boundary).
         piece \<noteq> [] \<and> char_count piece < 2 * max_chars)"
  using assms
proof (induction max_chars chunk index rest start counted last_boundary rule: wrap_chars.induct)
  case (1 max_chars chunk index start counted last_boundary)
  then have "index = length chunk" by (auto simp: wrap_state_def)
  with 1 show ?case
    using char_count_slice [of start "length chunk" chunk] by (auto simp: wrap_state_def)
next
  case (2 max_chars chunk index ch rest start counted last_boundary)
  let ?after = "index + length ch"
  let ?boundary = "if is_boundary ch then Some ?after else last_boundary"
  let ?cut = "case ?boundary of Some b \<Rightarrow> if b > start then b else ?after | None \<Rightarrow> ?after"
  have rest: "ch @ concat rest = drop index chunk" "ch \<noteq> []" "char_count ch \<le> 1" "start \<le> index" "index \<le> length chunk"
    using 2(3) by (auto simp: wrap_state_def)
  have chunk: "chunk = take index chunk @ ch @ concat rest" using rest(1) by simp
  have ch: "take ?after chunk = take index chunk @ ch" "drop ?after chunk = concat rest" "?after \<le> length chunk"
    using rest(5) by (subst chunk, simp)+
  have grows: "start < ?after" using rest(2,4) by (simp add: trans_le_add1 le_less_trans [of start index])
  have cc: "char_count (take ?after chunk) \<le> char_count (take index chunk) + 1" using ch(1) rest(3) by simp
  show ?case
  proof (cases "counted + 1 \<ge> max_chars")
    case True
    have lo: "start < ?cut" and hi: "?cut \<le> ?after" and near: "char_count (take ?after chunk) < char_count (take ?cut chunk) + max_chars"
      using 2(3) grows cc True by (auto simp: wrap_state_def split: option.splits)
    have "wrap_state max_chars chunk ?after rest ?cut 0 None"
      using 2(3) ch(2,3) hi near by (auto simp: wrap_state_def)
    note IH = 2(1) [OF refl refl refl True refl this]
    have "char_count (take (?cut - start) (drop start chunk)) < 2 * max_chars"
      using char_count_slice [of start ?cut chunk] char_count_slice [of ?cut ?after chunk] lo hi cc 2(3) True
      by (simp add: wrap_state_def)
    moreover have "take (?cut - start) (drop start chunk) @ drop ?cut chunk = drop start chunk"
      using lo by (intro slice_drop) simp
    moreover have "take (?cut - start) (drop start chunk) \<noteq> []" using lo hi ch(3) by simp
    ultimately show ?thesis using IH True by (simp add: Let_def)
  next
    case False
    have "wrap_state max_chars chunk ?after rest start (counted + 1) ?boundary"
      using 2(3) ch(2,3) cc False by (auto simp: wrap_state_def)
    from 2(2) [OF refl refl refl False this] False show ?thesis by (simp add: Let_def)
  qed
qed

lemma wrap_long_chunk_pieces:
  assumes "0 < max_chars" and "chunk \<noteq> []"
  shows "concat (wrap_long_chunk chunk max_chars) = chunk
    \<and> (\<forall>piece \<in> set (wrap_long_chunk chunk max_chars). piece \<noteq> [] \<and> char_count piece < 2 * max_chars)"
proof -
  have "wrap_state max_chars chunk 0 (chars chunk) 0 0 None"
    using assms(1) char_count_char [of _ chunk] by (auto simp: wrap_state_def dest: chars_nonempty)
  from wrap_chars_pieces [OF this] assms show ?thesis by (auto simp: wrap_long_chunk_def)
qed

lemma push_all: "\<forall>l \<in> set ls. l \<noteq> [] \<Longrightarrow> fold push_wrapped_text_chunk ls acc = acc @ ls"
  by (induction ls arbitrary: acc) (auto simp: push_wrapped_text_chunk_def)

lemma concat_concat_map: "concat (concat (map f xs)) = concat (map (\<lambda>x. concat (f x)) xs)"
  by (induction xs) auto

lemma stable_text_chunks_eq:
  "stable_text_chunks s = concat (map (\<lambda>l. wrap_long_chunk l MAX_CHARS) (split_inclusive (CHR 0x0A) s))"
  using push_all [of "split_inclusive (CHR 0x0A) s" "[]"] split_inclusive_nonempty [of _ "CHR 0x0A" s]
    concat_split_inclusive [of "CHR 0x0A" s]
  by (cases "split_inclusive (CHR 0x0A) s = []") (auto simp: stable_text_chunks_def Let_def)

text \<open>
  A buffered answer cut into pieces is the answer: the pieces are not empty, joined they give the
  text back, and no piece is twice as long as the limit.
\<close>

lemma stable_text_chunks_lossless:
  "concat (stable_text_chunks s) = s \<and> (\<forall>piece \<in> set (stable_text_chunks s). piece \<noteq> [] \<and> char_count piece < 2 * MAX_CHARS)"
proof -
  have piece: "concat (wrap_long_chunk l MAX_CHARS) = l
      \<and> (\<forall>p \<in> set (wrap_long_chunk l MAX_CHARS). p \<noteq> [] \<and> char_count p < 2 * MAX_CHARS)"
    if "l \<in> set (split_inclusive (CHR 0x0A) s)" for l
    using wrap_long_chunk_pieces [of MAX_CHARS l] split_inclusive_nonempty [OF that] by (simp add: MAX_CHARS_def)
  then have "map (\<lambda>l. concat (wrap_long_chunk l MAX_CHARS)) (split_inclusive (CHR 0x0A) s) = split_inclusive (CHR 0x0A) s"
    by (simp add: map_idI)
  then have "concat (stable_text_chunks s) = s"
    by (simp add: stable_text_chunks_eq concat_concat_map concat_split_inclusive)
  with piece show ?thesis by (auto simp: stable_text_chunks_eq)
qed

text \<open>The limit itself is not kept: after a cut at an earlier boundary the characters behind it are not
  counted again.\<close>

lemma wrap_exceeds_limit: "wrap_long_chunk ''a bcdefgh'' 4 = [''a '', ''bcdefg'', ''h'']"
  by code_simp

end
