(* ===== verification/Stream_Convert.thy ===== *)
theory Stream_Convert
  imports Sse_Reader Stream_Text Protocol_Bridge Stream_Lifecycle Pricing
begin

text \<open>
  The conversion of a Chat Completions stream into Messages events,
  \<^verbatim>\<open>src/providers/openai_stream.rs\<close>.  A run is the list of what it did, events sent and calls of the
  stream lifecycle, and how it ended.
\<close>

section \<open>Events\<close>

datatype stream_event =
    MessageStart string string
  | TextStart nat
  | ToolStart nat string string
  | TextDelta nat string
  | JsonDelta nat string
  | BlockStop nat
  | MessageDelta string nat
  | MessageStop
  | ErrorEvent app_error

definition block_start :: "nat \<Rightarrow> json \<Rightarrow> string \<times> json" where
  "block_start index block =
     (''content_block_start'', obj [(''type'', JStr ''content_block_start''), (''index'', JNum (PosInt index)),
                                    (''content_block'', block)])"

definition block_delta :: "nat \<Rightarrow> json \<Rightarrow> string \<times> json" where
  "block_delta index delta =
     (''content_block_delta'', obj [(''type'', JStr ''content_block_delta''), (''index'', JNum (PosInt index)),
                                    (''delta'', delta)])"

definition message_start_event :: "string \<Rightarrow> string \<Rightarrow> string \<times> json" where
  "message_start_event message_id model =
     (''message_start'', obj [(''type'', JStr ''message_start''), (''message'', obj
        [(''id'', JStr message_id), (''type'', JStr ''message''), (''role'', JStr ''assistant''), (''model'', JStr model),
         (''content'', JArr []), (''stop_reason'', JNull), (''stop_sequence'', JNull),
         (''usage'', obj [(''input_tokens'', JNum (PosInt 0)), (''output_tokens'', JNum (PosInt 0))])])])"

primrec event_json :: "stream_event \<Rightarrow> string \<times> json" where
  "event_json (MessageStart message_id model) = message_start_event message_id model"
| "event_json (TextStart index) = block_start index (obj [(''type'', JStr ''text''), (''text'', JStr [])])"
| "event_json (ToolStart index call_id name) =
     block_start index (obj [(''type'', JStr ''tool_use''), (''id'', JStr call_id), (''name'', JStr name), (''input'', JObj [])])"
| "event_json (TextDelta index s) = block_delta index (obj [(''type'', JStr ''text_delta''), (''text'', JStr s)])"
| "event_json (JsonDelta index s) =
     block_delta index (obj [(''type'', JStr ''input_json_delta''), (''partial_json'', JStr s)])"
| "event_json (BlockStop index) =
     (''content_block_stop'', obj [(''type'', JStr ''content_block_stop''), (''index'', JNum (PosInt index))])"
| "event_json (MessageDelta stop_reason tokens) =
     (''message_delta'', obj [(''type'', JStr ''message_delta''),
        (''delta'', obj [(''stop_reason'', JStr stop_reason), (''stop_sequence'', JNull)]),
        (''usage'', obj [(''output_tokens'', JNum (PosInt tokens))])])"
| "event_json MessageStop = (''message_stop'', obj [(''type'', JStr ''message_stop'')])"
| "event_json (ErrorEvent error) = anthropic_error_event error"

text \<open>What a run does, one after the other.\<close>

datatype stream_item =
    Emit stream_event
  | Observe nat bool "string option"
  | Usage token_usage
  | Cost f64
  | Fail string
  | Complete

text \<open>A stream ends early by returning or by raising.\<close>

datatype stream_exit = Returned | Raised app_error

section \<open>Tool calls in progress\<close>

record tool_state =
  ts_index :: nat
  ts_upstream_id :: "string option"
  ts_name :: "string option"
  ts_started :: bool
  ts_arguments_seen :: string
  ts_raw_arguments :: "string list"
  ts_pending_arguments :: string
  ts_all_arguments :: string

definition new_tool_state :: "nat \<Rightarrow> tool_state" where
  "new_tool_state index =
     \<lparr> ts_index = index, ts_upstream_id = None, ts_name = None, ts_started = False, ts_arguments_seen = [],
       ts_raw_arguments = [], ts_pending_arguments = [], ts_all_arguments = [] \<rparr>"

definition has_argument_data :: "tool_state \<Rightarrow> bool" where
  "has_argument_data state \<longleftrightarrow>
     ts_arguments_seen state \<noteq> [] \<or> ts_raw_arguments state \<noteq> [] \<or> ts_pending_arguments state \<noteq> []"

definition complete_arguments :: "(string \<Rightarrow> (json \<times> nat) option) \<Rightarrow> tool_state \<Rightarrow> string option" where
  "complete_arguments first_value state =
     best_complete_json_object first_value
       (ts_arguments_seen state # ts_pending_arguments state # concat (ts_raw_arguments state) # ts_raw_arguments state)"

definition ingest_tool_arguments :: "tool_state \<Rightarrow> string \<Rightarrow> bool \<Rightarrow> tool_state" where
  "ingest_tool_arguments state arguments deduplicate =
     (if arguments = [] then state
      else let state = state\<lparr> ts_all_arguments := ts_all_arguments state @ arguments \<rparr>
           in if deduplicate
              then let (delta, seen) = text_delta (ts_arguments_seen state) arguments True
                   in state\<lparr> ts_raw_arguments := ts_raw_arguments state @ [arguments], ts_arguments_seen := seen,
                             ts_pending_arguments := ts_pending_arguments state @ delta \<rparr>
              else state\<lparr> ts_pending_arguments := ts_pending_arguments state @ arguments \<rparr>)"

type_synonym 'a run = "stream_item list \<times> (stream_exit + 'a)"

definition pending_tool_arguments_event :: "tool_state \<Rightarrow> bool \<Rightarrow> tool_state run" where
  "pending_tool_arguments_event state deduplicate =
     (if deduplicate \<or> ts_pending_arguments state = [] then ([], Inr state)
      else ([Emit (JsonDelta (ts_index state) (ts_pending_arguments state))], Inr (state\<lparr> ts_pending_arguments := [] \<rparr>)))"

definition pending_tool_arguments_event_if_started :: "bool \<Rightarrow> tool_state \<Rightarrow> bool \<Rightarrow> tool_state run" where
  "pending_tool_arguments_event_if_started started state deduplicate =
     (if \<not> started then ([], Inr state) else pending_tool_arguments_event state deduplicate)"

section \<open>Chunks\<close>

record function_delta =
  fd_name :: "string option"
  fd_arguments :: "string option"

record tool_call_delta =
  tc_index :: nat
  tc_id :: "string option"
  tc_function :: "function_delta option"

record stream_delta =
  sd_content :: "string option"
  sd_tool_calls :: "tool_call_delta list option"
  sd_function_call :: "function_delta option"

record stream_choice =
  sc_delta :: stream_delta
  sc_finish_reason :: "string option"

record stream_chunk =
  ck_choices :: "stream_choice list"
  ck_usage :: "json option"

text \<open>
  What a run is given: the request's model, the flags of the provider, the tool policy, a UUID for
  the message and for each block, and serde: \<open>parse_chunk\<close> reads a chunk, \<open>from_str\<close> a value,
  \<open>first_value\<close> the value at the front of a text; \<open>validate\<close> is the schema validator.
\<close>

record 'v converter =
  cv_message_uuid :: string
  cv_tool_uuid :: "nat \<Rightarrow> string"
  cv_model :: string
  cv_dedup_text :: bool
  cv_dedup_arguments :: bool
  cv_policy :: "'v tool_response_policy"
  cv_parse_chunk :: "string \<Rightarrow> string + stream_chunk"
  cv_from_str :: "string \<Rightarrow> string + json"
  cv_first_value :: "string \<Rightarrow> (json \<times> nat) option"
  cv_validate :: "'v \<Rightarrow> json \<Rightarrow> (string \<times> string) option"

record conversion =
  cs_message_started :: bool
  cs_next_index :: nat
  cs_text_index :: "nat option"
  cs_text_seen :: string
  cs_tools :: "(nat, tool_state) btree"
  cs_finish_reason :: string
  cs_upstream_finish_reason :: "string option"
  cs_stream_done :: bool
  cs_saw_finish_reason :: bool

definition new_conversion :: conversion where
  "new_conversion =
     \<lparr> cs_message_started = False, cs_next_index = 0, cs_text_index = None, cs_text_seen = [], cs_tools = [],
       cs_finish_reason = ''end_turn'', cs_upstream_finish_reason = None, cs_stream_done = False, cs_saw_finish_reason = False \<rparr>"

definition start_message :: "'v converter \<Rightarrow> conversion \<Rightarrow> conversion run" where
  "start_message cv s =
     (if cs_message_started s then ([], Inr s)
      else ([Emit (MessageStart (''msg_'' @ cv_message_uuid cv) (cv_model cv))], Inr (s\<lparr> cs_message_started := True \<rparr>)))"

definition fail_with :: "app_error \<Rightarrow> 'a run" where
  "fail_with error = ([Fail (display_error error), Emit (ErrorEvent error)], Inl Returned)"

definition start_tool_state :: "'v converter \<Rightarrow> tool_state \<Rightarrow> tool_state run" where
  "start_tool_state cv state =
     (let call_id = (case ts_upstream_id state of Some i \<Rightarrow> i | None \<Rightarrow> ''toolu_'' @ cv_tool_uuid cv (ts_index state))
      in case validate_name (cv_policy cv) (ts_name state) of
           Inl e \<Rightarrow> ([], Inl (Raised e))
         | Inr name \<Rightarrow> ([Emit (ToolStart (ts_index state) call_id name)], Inr (state\<lparr> ts_started := True \<rparr>)))"

text \<open>A tool state after a fragment was stored in it: pending arguments of a started block, then the
  start of a block whose name is known.\<close>

definition advance_tool :: "'v converter \<Rightarrow> nat \<Rightarrow> bool \<Rightarrow> string option \<Rightarrow> bool \<Rightarrow> tool_state \<Rightarrow> tool_state run" where
  "advance_tool cv observed_tool_count text_present upstream_finish_reason was_started state =
     yielding (pending_tool_arguments_event_if_started was_started state (cv_dedup_arguments cv)) (\<lambda>state.
       if \<not> ts_started state \<and> ts_name state \<noteq> None
       then yielding ([Observe observed_tool_count text_present upstream_finish_reason], Inr state) (\<lambda>state.
            yielding (start_tool_state cv state) (\<lambda>state.
              pending_tool_arguments_event state (cv_dedup_arguments cv)))
       else ([], Inr state))"

definition entry_or_insert :: "nat \<Rightarrow> conversion \<Rightarrow> tool_state \<times> conversion" where
  "entry_or_insert key s =
     (case bt_get (cs_tools s) key of
        Some state \<Rightarrow> (state, s)
      | None \<Rightarrow> (new_tool_state (cs_next_index s), s\<lparr> cs_next_index := cs_next_index s + 1 \<rparr>))"

definition store_function :: "'v converter \<Rightarrow> function_delta \<Rightarrow> tool_state \<Rightarrow> tool_state" where
  "store_function cv f state =
     (let state = (case fd_name f of Some name \<Rightarrow> state\<lparr> ts_name := Some name \<rparr> | None \<Rightarrow> state)
      in case fd_arguments f of
           Some arguments \<Rightarrow> ingest_tool_arguments state arguments (cv_dedup_arguments cv)
         | None \<Rightarrow> state)"

definition tool_call_step :: "'v converter \<Rightarrow> tool_call_delta \<Rightarrow> conversion \<Rightarrow> conversion run" where
  "tool_call_step cv tool_call s =
     (let (state, s) = entry_or_insert (tc_index tool_call) s;
          was_started = ts_started state;
          state = (case tc_id tool_call of Some i \<Rightarrow> state\<lparr> ts_upstream_id := Some i \<rparr> | None \<Rightarrow> state);
          state = (case tc_function tool_call of Some f \<Rightarrow> store_function cv f state | None \<Rightarrow> state)
      in yielding (advance_tool cv (sat_add (tc_index tool_call) 1) (cs_text_seen s \<noteq> []) (cs_upstream_finish_reason s)
                     was_started state)
           (\<lambda>state. ([], Inr (s\<lparr> cs_tools := bt_insert (tc_index tool_call) state (cs_tools s) \<rparr>))))"

fun tool_call_steps :: "'v converter \<Rightarrow> tool_call_delta list \<Rightarrow> conversion \<Rightarrow> conversion run" where
  "tool_call_steps cv [] s = ([], Inr s)"
| "tool_call_steps cv (tool_call # rest) s = yielding (tool_call_step cv tool_call s) (tool_call_steps cv rest)"

definition function_call_step :: "'v converter \<Rightarrow> function_delta \<Rightarrow> conversion \<Rightarrow> conversion run" where
  "function_call_step cv f s =
     (let (state, s) = entry_or_insert u64_max s;
          was_started = ts_started state;
          state = store_function cv f state
      in yielding (advance_tool cv 1 (cs_text_seen s \<noteq> []) (cs_upstream_finish_reason s) was_started state)
           (\<lambda>state. ([], Inr (s\<lparr> cs_tools := bt_insert u64_max state (cs_tools s) \<rparr>))))"

definition text_step :: "string \<Rightarrow> conversion \<Rightarrow> conversion run" where
  "text_step content s =
     yielding ([Observe (length (cs_tools s)) True (cs_upstream_finish_reason s)], Inr s) (\<lambda>s.
     yielding (case cs_text_index s of
                 Some index \<Rightarrow> ([], Inr (index, s))
               | None \<Rightarrow> (let index = cs_next_index s
                         in ([Emit (TextStart index)], Inr (index, s\<lparr> cs_next_index := index + 1, cs_text_index := Some index \<rparr>))))
       (\<lambda>(index, s). ([Emit (TextDelta index content)], Inr s)))"

definition calls_step :: "'v converter \<Rightarrow> stream_delta \<Rightarrow> conversion \<Rightarrow> conversion run" where
  "calls_step cv delta s =
     yielding (case sd_tool_calls delta of Some tool_calls \<Rightarrow> tool_call_steps cv tool_calls s | None \<Rightarrow> ([], Inr s)) (\<lambda>s.
       case sd_function_call delta of Some f \<Rightarrow> function_call_step cv f s | None \<Rightarrow> ([], Inr s))"

definition stream_finish_reason :: "string \<Rightarrow> string" where
  "stream_finish_reason reason =
     (if reason = ''length'' then ''max_tokens''
      else if reason \<in> {''tool_calls'', ''function_call''} then ''tool_use''
      else if reason = ''stop'' then ''end_turn''
      else ''end_turn'')"

definition note_finish :: "string option \<Rightarrow> conversion \<Rightarrow> conversion" where
  "note_finish reason s =
     (case reason of
        Some reason \<Rightarrow> s\<lparr> cs_finish_reason := stream_finish_reason reason, cs_upstream_finish_reason := Some reason,
                         cs_saw_finish_reason := True, cs_stream_done := True \<rparr>
      | None \<Rightarrow> s)"

definition choice_step :: "'v converter \<Rightarrow> stream_choice \<Rightarrow> conversion \<Rightarrow> conversion run" where
  "choice_step cv choice s =
     (let s = note_finish (sc_finish_reason choice) s
      in case sd_content (sc_delta choice) of
           Some content \<Rightarrow>
             (let (content, seen) = text_delta (cs_text_seen s) content (cv_dedup_text cv);
                  s = s\<lparr> cs_text_seen := seen \<rparr>
              in if content = [] then ([], Inr s)
                 else yielding (text_step content s) (calls_step cv (sc_delta choice)))
         | None \<Rightarrow> calls_step cv (sc_delta choice) s)"

fun choice_steps :: "'v converter \<Rightarrow> stream_choice list \<Rightarrow> conversion \<Rightarrow> conversion run" where
  "choice_steps cv [] s = ([], Inr s)"
| "choice_steps cv (choice # rest) s = yielding (choice_step cv choice s) (choice_steps cv rest)"

definition usage_items :: "json option \<Rightarrow> stream_item list" where
  "usage_items usage =
     (case usage of
        None \<Rightarrow> []
      | Some usage \<Rightarrow>
          (let response = obj [(''usage'', usage)]
           in (case openai_usage_if_present response of Some u \<Rightarrow> [Usage u] | None \<Rightarrow> [])
              @ (case openai_reported_cost response of Some c \<Rightarrow> [Cost c] | None \<Rightarrow> [])))"

definition chunk_step :: "'v converter \<Rightarrow> stream_chunk \<Rightarrow> conversion \<Rightarrow> conversion run" where
  "chunk_step cv chunk s =
     yielding (usage_items (ck_usage chunk), Inr s) (\<lambda>s.
     yielding (start_message cv s) (choice_steps cv (ck_choices chunk)))"

section \<open>The loop over frames\<close>

definition str_lines :: "string \<Rightarrow> string list" where
  "str_lines s =
     map (\<lambda>line. case strip_suffix [newline_char] line of Some l \<Rightarrow> pop_if return_char l | None \<Rightarrow> line)
       (split_inclusive newline_char s)"

definition data_lines :: "sse_frame \<Rightarrow> string list" where
  "data_lines frame = filter (\<lambda>data. data \<noteq> []) (map trim (str_lines (fr_data frame)))"

fun data_steps :: "'v converter \<Rightarrow> string list \<Rightarrow> conversion \<Rightarrow> conversion run" where
  "data_steps cv [] s = ([], Inr s)"
| "data_steps cv (data # rest) s =
     (if data = ''[DONE]''
      then yielding (start_message cv s) (\<lambda>s. ([], Inr (s\<lparr> cs_stream_done := True \<rparr>)))
      else case cv_parse_chunk cv data of
             Inl err \<Rightarrow> fail_with (UpstreamProtocol
                          (''invalid OpenAI-compatible SSE chunk: '' @ err @ ''; data: '' @ data))
           | Inr chunk \<Rightarrow> yielding (chunk_step cv chunk s) (\<lambda>s.
               if cs_stream_done s then ([], Inr s) else data_steps cv rest s))"

fun frame_steps :: "'v converter \<Rightarrow> sse_frame result list \<Rightarrow> conversion \<Rightarrow> conversion run" where
  "frame_steps cv [] s = ([], Inr s)"
| "frame_steps cv (Inl err # frames) s = (if cs_saw_finish_reason s then ([], Inr s) else fail_with err)"
| "frame_steps cv (Inr frame # frames) s =
     yielding (data_steps cv (data_lines frame) s) (\<lambda>s.
       if cs_stream_done s then ([], Inr s) else frame_steps cv frames s)"

section \<open>The end of the stream\<close>

definition validate_arguments :: "'v converter \<Rightarrow> tool_state \<Rightarrow> json result" where
  "validate_arguments cv state =
     (let arguments = (if cv_dedup_arguments cv then or_default [] (complete_arguments (cv_first_value cv) state)
                       else ts_all_arguments state)
      in and_then (validate_name (cv_policy cv) (ts_name state)) (\<lambda>name.
           parse_arguments (cv_from_str cv) (cv_validate cv) (cv_policy cv) name arguments))"

fun validate_tools :: "'v converter \<Rightarrow> tool_state list \<Rightarrow> string list \<Rightarrow> unit result" where
  "validate_tools cv [] upstream_ids = Inr ()"
| "validate_tools cv (state # rest) upstream_ids =
     and_then (validate_name (cv_policy cv) (ts_name state)) (\<lambda>_.
       let strict = tp_validation (cv_policy cv) = StrictValidation
       in case (if strict then ts_upstream_id state else None) of
            Some i \<Rightarrow>
              if i \<in> set upstream_ids
              then Inl (UpstreamProtocol (''OpenAI-compatible upstream returned duplicate tool call id `'' @ i @ ''`''))
              else and_then (validate_arguments cv state) (\<lambda>_. validate_tools cv rest (i # upstream_ids))
          | None \<Rightarrow> and_then (validate_arguments cv state) (\<lambda>_. validate_tools cv rest upstream_ids))"

definition stop_tool :: "'v converter \<Rightarrow> tool_state \<Rightarrow> stream_item list" where
  "stop_tool cv state =
     (case (if cv_dedup_arguments cv then complete_arguments (cv_first_value cv) state else None) of
        Some arguments \<Rightarrow> [Emit (JsonDelta (ts_index state) arguments)]
      | None \<Rightarrow> fst (pending_tool_arguments_event state (cv_dedup_arguments cv)))
     @ [Emit (BlockStop (ts_index state))]"

definition finish_tool :: "'v converter \<Rightarrow> tool_state \<Rightarrow> unit run" where
  "finish_tool cv state =
     yielding (if \<not> ts_started state \<and> (ts_name state \<noteq> None \<or> has_argument_data state)
               then start_tool_state cv state else ([], Inr state)) (\<lambda>state.
       if ts_started state then (stop_tool cv state, Inr ()) else ([], Inr ()))"

fun finish_tools :: "'v converter \<Rightarrow> tool_state list \<Rightarrow> unit run" where
  "finish_tools cv [] = ([], Inr ())"
| "finish_tools cv (state # rest) = yielding (finish_tool cv state) (\<lambda>_. finish_tools cv rest)"

definition validation :: "'v converter \<Rightarrow> conversion \<Rightarrow> unit result" where
  "validation cv s =
     and_then (validate_tools cv (bt_values (cs_tools s)) []) (\<lambda>_.
       validate_call_summary (cv_policy cv) (length (cs_tools s)) (cs_upstream_finish_reason s))"

definition finish_conversion :: "'v converter \<Rightarrow> conversion \<Rightarrow> unit run" where
  "finish_conversion cv s =
     (if \<not> cs_stream_done s \<and> \<not> cs_saw_finish_reason s
      then fail_with (UpstreamProtocol ''OpenAI-compatible stream ended without [DONE] or finish_reason'')
      else if \<not> cs_message_started s
      then fail_with (UpstreamProtocol ''upstream stream ended before sending any SSE chunks'')
      else case validation cv s of
             Inl error \<Rightarrow> fail_with error
           | Inr _ \<Rightarrow>
               yielding ([Observe (length (cs_tools s)) (cs_text_seen s \<noteq> []) (cs_upstream_finish_reason s), Complete]
                         @ (case cs_text_index s of Some index \<Rightarrow> [Emit (BlockStop index)] | None \<Rightarrow> []), Inr ()) (\<lambda>_.
               yielding (finish_tools cv (bt_values (cs_tools s))) (\<lambda>_.
                 ([Emit (MessageDelta (cs_finish_reason s) 0), Emit MessageStop], Inr ()))))"

definition openai_stream_to_anthropic :: "'v converter \<Rightarrow> sse_frame result list \<Rightarrow> unit run" where
  "openai_stream_to_anthropic cv frames = yielding (frame_steps cv frames new_conversion) (finish_conversion cv)"

section \<open>Buffered answers\<close>

definition complete_block ::
  "(string \<Rightarrow> bool) \<Rightarrow> (json \<Rightarrow> string) \<Rightarrow> (nat \<Rightarrow> string) \<Rightarrow> nat \<Rightarrow> json \<Rightarrow> stream_event list" where
  "complete_block is_alphanumeric to_text tool_uuid index block =
     (if get_str block ''type'' = Some ''text''
      then let s = suppress_repeated_output is_alphanumeric (or_default [] (get_str block ''text''))
           in TextStart index # map (TextDelta index) (stable_text_chunks s) @ [BlockStop index]
      else if get_str block ''type'' = Some ''tool_use''
      then let call_id = or_default (''toolu_'' @ tool_uuid index) (get_str block ''id'');
               name = or_default ''tool'' (get_str block ''name'');
               input = or_default (JObj []) (json_get block ''input'')
           in ToolStart index call_id name
              # (if input \<noteq> JObj [] then [JsonDelta index (to_text input)] else []) @ [BlockStop index]
      else [])"

fun complete_blocks ::
  "(string \<Rightarrow> bool) \<Rightarrow> (json \<Rightarrow> string) \<Rightarrow> (nat \<Rightarrow> string) \<Rightarrow> nat \<Rightarrow> json list \<Rightarrow> stream_event list" where
  "complete_blocks is_alphanumeric to_text tool_uuid index [] = []"
| "complete_blocks is_alphanumeric to_text tool_uuid index (block # blocks) =
     complete_block is_alphanumeric to_text tool_uuid index block
     @ complete_blocks is_alphanumeric to_text tool_uuid (Suc index) blocks"

definition openai_complete_to_anthropic_stream ::
  "(string \<Rightarrow> bool) \<Rightarrow> (json \<Rightarrow> string) \<Rightarrow> (nat \<Rightarrow> string) \<Rightarrow> json \<Rightarrow> string \<Rightarrow> stream_event list" where
  "openai_complete_to_anthropic_stream is_alphanumeric to_text tool_uuid message requested_model =
     (let message_id = or_default ''msg_modelport'' (get_str message ''id'');
          stop_reason = or_default ''end_turn'' (get_str message ''stop_reason'');
          tokens = or_default 0 (Option.bind (Option.bind (json_get message ''usage'') (\<lambda>u. json_get u ''output_tokens'')) as_u64)
      in MessageStart message_id requested_model
         # (case get_array message ''content'' of
              Some blocks \<Rightarrow> complete_blocks is_alphanumeric to_text tool_uuid 0 blocks
            | None \<Rightarrow> [])
         @ [MessageDelta stop_reason tokens, MessageStop])"

section \<open>The lifecycle of a run\<close>

text \<open>The calls of the stream lifecycle a run makes, the clock read at each.\<close>

fun item_op :: "nat \<Rightarrow> stream_item \<Rightarrow> stream_op option" where
  "item_op elapsed (Emit event) = None"
| "item_op elapsed (Observe n said reason) = Some (ObserveResponseFragment elapsed n said reason)"
| "item_op elapsed (Usage usage) = Some (MergeUsage usage)"
| "item_op elapsed (Cost cost) = Some (MergeProviderReportedCost cost)"
| "item_op elapsed (Fail error) = Some (MarkFailed error)"
| "item_op elapsed Complete = Some MarkCompleted"

definition run_ops :: "(nat \<Rightarrow> nat) \<Rightarrow> stream_item list \<Rightarrow> stream_op list" where
  "run_ops clock items = List.map_filter (\<lambda>(i, item). item_op (clock i) item) (enumerate 0 items)"

fun item_event :: "stream_item \<Rightarrow> stream_event option" where
  "item_event (Emit event) = Some event"
| "item_event _ = None"

definition run_events :: "stream_item list \<Rightarrow> stream_event list" where
  "run_events items = List.map_filter item_event items"

end
