(* ===== verification/Stream_Protocol.thy ===== *)
theory Stream_Protocol
  imports Stream_Convert
begin

text \<open>
  The events a converted stream sends obey the Messages streaming protocol, and the lifecycle of the
  stream agrees with them.
\<close>

section \<open>The protocol\<close>

text \<open>
  A message is open, with its text blocks, its tool blocks and those of them that are closed, or its
  stop reason was sent, or it is over.
\<close>

datatype protocol = Fresh | Running "nat set" "nat set" "nat set" | Delivered | Stopped | Errored app_error

fun protocol_step :: "stream_event \<Rightarrow> protocol \<Rightarrow> protocol option" where
  "protocol_step (MessageStart _ _) Fresh = Some (Running {} {} {})"
| "protocol_step (TextStart i) (Running T U C) = (if i \<in> T \<union> U then None else Some (Running (insert i T) U C))"
| "protocol_step (ToolStart i _ _) (Running T U C) = (if i \<in> T \<union> U then None else Some (Running T (insert i U) C))"
| "protocol_step (TextDelta i _) (Running T U C) = (if i \<in> T - C then Some (Running T U C) else None)"
| "protocol_step (JsonDelta i _) (Running T U C) = (if i \<in> U - C then Some (Running T U C) else None)"
| "protocol_step (BlockStop i) (Running T U C) = (if i \<in> (T \<union> U) - C then Some (Running T U (insert i C)) else None)"
| "protocol_step (MessageDelta _ _) (Running T U C) = (if T \<union> U \<subseteq> C then Some Delivered else None)"
| "protocol_step MessageStop Delivered = Some Stopped"
| "protocol_step (ErrorEvent e) Fresh = Some (Errored e)"
| "protocol_step (ErrorEvent e) (Running T U C) = Some (Errored e)"
| "protocol_step _ _ = None"

fun protocol_run :: "stream_event list \<Rightarrow> protocol \<Rightarrow> protocol option" where
  "protocol_run [] p = Some p"
| "protocol_run (e # es) p = Option.bind (protocol_step e p) (protocol_run es)"

text \<open>Events and lifecycle together; a run marks its end at most once.\<close>

fun track_item :: "stream_item \<Rightarrow> protocol \<times> upstream_stream_state \<Rightarrow> (protocol \<times> upstream_stream_state) option" where
  "track_item (Emit e) (p, l) = map_option (\<lambda>p'. (p', l)) (protocol_step e p)"
| "track_item (Fail error) (p, l) = (if l = Pending then Some (p, Failed error) else None)"
| "track_item Complete (p, l) = (if l = Pending then Some (p, Completed) else None)"
| "track_item _ q = Some q"

fun track :: "stream_item list \<Rightarrow> protocol \<times> upstream_stream_state \<Rightarrow> (protocol \<times> upstream_stream_state) option" where
  "track [] q = Some q"
| "track (x # xs) q = Option.bind (track_item x q) (track xs)"

lemma track_append: "track (xs @ ys) q = Option.bind (track xs q) (track ys)"
  by (induction xs arbitrary: q) (auto split: bind_splits)

text \<open>A run from a tracked state: it goes on in a state with \<open>Q\<close>, or it has reported an error, or it
  has raised one with the message still open and the lifecycle undecided.\<close>

fun runs_to :: "protocol \<times> upstream_stream_state \<Rightarrow> 'a run \<Rightarrow> ('a \<Rightarrow> protocol \<times> upstream_stream_state \<Rightarrow> bool) \<Rightarrow> bool" where
  "runs_to q (items, Inr a) Q \<longleftrightarrow> (\<exists>q'. track items q = Some q' \<and> Q a q')"
| "runs_to q (items, Inl Returned) Q \<longleftrightarrow> (\<exists>e. track items q = Some (Errored e, Failed (display_error e)))"
| "runs_to q (items, Inl (Raised e)) Q \<longleftrightarrow> (\<exists>T U. track items q = Some (Running T U {}, Pending))"

lemma runs_to_yielding:
  assumes "runs_to q m R" and "\<And>a q'. R a q' \<Longrightarrow> runs_to q' (k a) Q"
  shows "runs_to q (yielding m k) Q"
proof (cases "(m, k)" rule: yielding.cases)
  case (1 fs e k')
  then show ?thesis using assms(1) by (cases e) auto
next
  case (2 fs a k')
  with assms(1) obtain q' where q': "track fs q = Some q'" "R a q'" by auto
  from assms(2) [OF q'(2)] obtain items res where ka: "k a = (items, res)" "runs_to q' (items, res) Q"
    by (cases "k a") auto
  show ?thesis
  proof (cases res)
    case (Inl e)
    with ka q' 2 show ?thesis by (cases e) (auto simp: track_append)
  next
    case (Inr b)
    with ka q' 2 show ?thesis by (auto simp: track_append)
  qed
qed

lemma runs_to_yields: "track items q = Some q' \<Longrightarrow> runs_to q' (k a) Q \<Longrightarrow> runs_to q (yielding (items, Inr a) k) Q"
  by (rule runs_to_yielding [where R = "\<lambda>b p. b = a \<and> p = q'"]) auto

lemma runs_to_weaken: "runs_to q m R \<Longrightarrow> (\<And>a q'. R a q' \<Longrightarrow> Q a q') \<Longrightarrow> runs_to q m Q"
  using runs_to_yielding [of q m R "\<lambda>a. ([], Inr a)" Q] by simp

section \<open>One tool call\<close>

abbreviation open_message :: "nat set \<Rightarrow> nat set \<Rightarrow> protocol \<times> upstream_stream_state" where
  "open_message T U \<equiv> (Running T U {}, Pending)"

lemma start_tool_state_runs:
  assumes "ts_index state \<notin> T \<union> U"
  shows "runs_to (open_message T U) (start_tool_state cv state)
    (\<lambda>state' q. state' = state\<lparr> ts_started := True \<rparr> \<and> q = open_message T (insert (ts_index state) U))"
  using assms by (auto simp: start_tool_state_def Let_def split: sum.splits)

lemma pending_runs:
  assumes "ts_started state \<and> ts_index state \<in> U"
  shows "runs_to (open_message T U) (pending_tool_arguments_event state dedup)
     (\<lambda>state' q. q = open_message T U \<and> ts_index state' = ts_index state \<and> ts_started state')"
  using assms by (auto simp: pending_tool_arguments_event_def)

lemma advance_tool_runs:
  assumes "ts_index state \<notin> T" and "ts_started state \<longleftrightarrow> ts_index state \<in> U"
  shows "runs_to (open_message T U) (advance_tool cv n said reason (ts_started state) state)
    (\<lambda>state' q. q = open_message T (if ts_started state' then insert (ts_index state) U else U)
       \<and> ts_index state' = ts_index state \<and> (ts_started state \<longrightarrow> ts_started state'))"
proof (cases "ts_started state")
  case True
  then have U: "insert (ts_index state) U = U" using assms(2) by auto
  show ?thesis
    unfolding advance_tool_def pending_tool_arguments_event_if_started_def
    using True assms(2) U by (auto intro!: runs_to_yielding [OF pending_runs])
next
  case False
  have "runs_to (open_message T U)
      (yielding (start_tool_state cv state) (\<lambda>state. pending_tool_arguments_event state (cv_dedup_arguments cv)))
      (\<lambda>state' q. q = open_message T (if ts_started state' then insert (ts_index state) U else U) \<and> ts_index state' = ts_index state)"
    using assms False
    by (intro runs_to_yielding [OF start_tool_state_runs])
      (auto intro!: runs_to_weaken [OF pending_runs])
  with False show ?thesis
    unfolding advance_tool_def pending_tool_arguments_event_if_started_def
    by (auto intro!: runs_to_yields simp del: yielding.simps)
qed

section \<open>One chunk\<close>

definition started_at :: "(nat, tool_state) btree \<Rightarrow> nat \<Rightarrow> nat set" where
  "started_at tools k = {i. \<exists>t. bt_get tools k = Some t \<and> ts_started t \<and> i = ts_index t}"

definition started_indexes :: "(nat, tool_state) btree \<Rightarrow> nat set" where
  "started_indexes tools = (\<Union>k. started_at tools k)"

lemma started_indexes_split: "started_indexes tools = started_at tools key \<union> (\<Union>k \<in> - {key}. started_at tools k)"
  unfolding started_indexes_def by (subst UNIV_I [THEN insert_absorb, symmetric, of key]) auto

text \<open>Every block has an index of its own, below the next one to be given out.\<close>

definition indexes_ok :: "conversion \<Rightarrow> bool" where
  "indexes_ok s \<longleftrightarrow>
     bt_wf (cs_tools s)
   \<and> (\<forall>i. cs_text_index s = Some i \<longrightarrow> i < cs_next_index s)
   \<and> (\<forall>k t. bt_get (cs_tools s) k = Some t \<longrightarrow> ts_index t < cs_next_index s \<and> cs_text_index s \<noteq> Some (ts_index t))
   \<and> (\<forall>k t k' t'. bt_get (cs_tools s) k = Some t \<and> bt_get (cs_tools s) k' = Some t' \<and> ts_index t = ts_index t' \<longrightarrow> k = k')"

definition in_message :: "conversion \<Rightarrow> protocol \<times> upstream_stream_state \<Rightarrow> bool" where
  "in_message s q \<longleftrightarrow>
     cs_message_started s \<and> indexes_ok s \<and> q = open_message (set_option (cs_text_index s)) (started_indexes (cs_tools s))"

lemma store_function_keeps [simp]:
  "ts_index (store_function cv f state) = ts_index state" "ts_started (store_function cv f state) = ts_started state"
  by (auto simp: store_function_def ingest_tool_arguments_def Let_def split: option.splits prod.splits)

lemma indexes_ok_unique:
  "indexes_ok s \<Longrightarrow> bt_get (cs_tools s) k = Some t \<Longrightarrow> bt_get (cs_tools s) k' = Some t' \<Longrightarrow> ts_index t = ts_index t' \<Longrightarrow> k = k'"
  unfolding indexes_ok_def by blast

lemma indexes_ok_below:
  "indexes_ok s \<Longrightarrow> bt_get (cs_tools s) k = Some t \<Longrightarrow> ts_index t < cs_next_index s \<and> cs_text_index s \<noteq> Some (ts_index t)"
  unfolding indexes_ok_def by blast

lemma entry_facts:
  assumes ok: "indexes_ok s" and entry: "entry_or_insert key s = (state, s')"
  shows "cs_tools s' = cs_tools s \<and> cs_text_index s' = cs_text_index s \<and> cs_message_started s' = cs_message_started s
      \<and> cs_next_index s \<le> cs_next_index s' \<and> ts_index state < cs_next_index s' \<and> cs_text_index s \<noteq> Some (ts_index state)"
    and "bt_get (cs_tools s) k = Some t \<Longrightarrow> ts_index t = ts_index state \<Longrightarrow> k = key \<and> t = state"
    and "bt_get (cs_tools s) key = Some state \<or> bt_get (cs_tools s) key = None \<and> \<not> ts_started state"
proof -
  show "bt_get (cs_tools s) key = Some state \<or> bt_get (cs_tools s) key = None \<and> \<not> ts_started state"
    using entry by (auto simp: entry_or_insert_def new_tool_state_def split: option.splits)
  show "cs_tools s' = cs_tools s \<and> cs_text_index s' = cs_text_index s \<and> cs_message_started s' = cs_message_started s
      \<and> cs_next_index s \<le> cs_next_index s' \<and> ts_index state < cs_next_index s' \<and> cs_text_index s \<noteq> Some (ts_index state)"
    using entry ok indexes_ok_below [OF ok, of key state]
    by (auto simp: entry_or_insert_def new_tool_state_def indexes_ok_def split: option.splits)
  assume t: "bt_get (cs_tools s) k = Some t" "ts_index t = ts_index state"
  show "k = key \<and> t = state"
    using entry t indexes_ok_below [OF ok t(1)] indexes_ok_unique [OF ok t(1), of key state]
    by (auto simp: entry_or_insert_def new_tool_state_def split: option.splits)
qed

text \<open>A tool state that is advanced and put back.\<close>

lemma put_back:
  assumes ok: "indexes_ok s" and entry: "entry_or_insert key s = (state, s')" and "ts_index st = ts_index state"
  shows "indexes_ok (s'\<lparr> cs_tools := bt_insert key st (cs_tools s') \<rparr>)"
    and "(ts_started state \<Longrightarrow> ts_started st) \<Longrightarrow>
      started_indexes (bt_insert key st (cs_tools s'))
        = (if ts_started st then insert (ts_index state) (started_indexes (cs_tools s)) else started_indexes (cs_tools s))"
proof -
  note facts = entry_facts [OF ok entry]
  show "indexes_ok (s'\<lparr> cs_tools := bt_insert key st (cs_tools s') \<rparr>)"
    unfolding indexes_ok_def
  proof (intro conjI allI impI)
    show "bt_wf (cs_tools (s'\<lparr> cs_tools := bt_insert key st (cs_tools s') \<rparr>))"
      using ok facts(1) by (simp add: indexes_ok_def)
  next
    fix i assume "cs_text_index (s'\<lparr> cs_tools := bt_insert key st (cs_tools s') \<rparr>) = Some i"
    then show "i < cs_next_index (s'\<lparr> cs_tools := bt_insert key st (cs_tools s') \<rparr>)"
      using ok facts(1) by (auto simp: indexes_ok_def)
  next
    fix k t assume "bt_get (cs_tools (s'\<lparr> cs_tools := bt_insert key st (cs_tools s') \<rparr>)) k = Some t"
    then show "ts_index t < cs_next_index (s'\<lparr> cs_tools := bt_insert key st (cs_tools s') \<rparr>)"
      and "cs_text_index (s'\<lparr> cs_tools := bt_insert key st (cs_tools s') \<rparr>) \<noteq> Some (ts_index t)"
      using facts(1) assms(3) indexes_ok_below [OF ok, of k t] by (auto split: if_splits)
  next
    fix k t k' t'
    assume "bt_get (cs_tools (s'\<lparr> cs_tools := bt_insert key st (cs_tools s') \<rparr>)) k = Some t
      \<and> bt_get (cs_tools (s'\<lparr> cs_tools := bt_insert key st (cs_tools s') \<rparr>)) k' = Some t' \<and> ts_index t = ts_index t'"
    then have kt: "(if k = key then Some st else bt_get (cs_tools s) k) = Some t"
        "(if k' = key then Some st else bt_get (cs_tools s) k') = Some t'" "ts_index t = ts_index t'"
      using facts(1) by auto
    have other: "ts_index u \<noteq> ts_index st" if "l \<noteq> key" "bt_get (cs_tools s) l = Some u" for l u
      using facts(2) [OF that(2)] that(1) assms(3) by metis
    show "k = k'"
      using kt other [of k t] other [of k' t'] indexes_ok_unique [OF ok, of k t k' t']
      by (cases "k = key"; cases "k' = key") simp_all
  qed
  assume keeps: "ts_started state \<Longrightarrow> ts_started st"
  let ?others = "\<Union>k \<in> - {key}. started_at (cs_tools s) k"
  have "started_indexes (bt_insert key st (cs_tools s')) = started_at (bt_insert key st (cs_tools s')) key \<union> ?others"
    using facts(1) by (subst started_indexes_split [where key = key]) (simp add: started_at_def)
  moreover have "started_at (bt_insert key st (cs_tools s')) key = (if ts_started st then {ts_index state} else {})"
    using assms(3) by (simp add: started_at_def)
  moreover have "started_at (cs_tools s) key = (if ts_started state then {ts_index state} else {})"
    using facts(3) by (auto simp: started_at_def)
  ultimately show "started_indexes (bt_insert key st (cs_tools s'))
      = (if ts_started st then insert (ts_index state) (started_indexes (cs_tools s)) else started_indexes (cs_tools s))"
    using keeps by (subst (1 2) started_indexes_split [where key = key]) simp
qed

lemma advance_entry_runs:
  assumes "in_message s q" and entry: "entry_or_insert key s = (state, s')"
    and state': "ts_index state' = ts_index state" "ts_started state' = ts_started state"
  shows "runs_to q (yielding (advance_tool cv n said reason (ts_started state) state')
      (\<lambda>st. ([], Inr (s'\<lparr> cs_tools := bt_insert key st (cs_tools s') \<rparr>)))) in_message"
proof (rule runs_to_yielding)
  let ?T = "set_option (cs_text_index s)" and ?U = "started_indexes (cs_tools s)" and ?i = "ts_index state"
  have q: "q = open_message ?T ?U" and ok: "indexes_ok s" "cs_message_started s" using assms(1) by (auto simp: in_message_def)
  note facts = entry_facts [OF ok(1) entry]
  have T: "?i \<notin> ?T" using facts(1) by auto
  have U: "ts_started state \<longleftrightarrow> ?i \<in> ?U" using facts(2,3) by (auto simp: started_indexes_def started_at_def)
  have "ts_index state' \<notin> ?T" "ts_started state' \<longleftrightarrow> ts_index state' \<in> ?U" using T U state' by simp_all
  from advance_tool_runs [OF this, of cv n said reason]
  show "runs_to q (advance_tool cv n said reason (ts_started state) state')
      (\<lambda>st q'. q' = open_message ?T (if ts_started st then insert ?i ?U else ?U) \<and> ts_index st = ?i \<and> (ts_started state \<longrightarrow> ts_started st))"
    unfolding q state' .
  show "runs_to q' ([], Inr (s'\<lparr> cs_tools := bt_insert key st (cs_tools s') \<rparr>)) in_message"
    if "q' = open_message ?T (if ts_started st then insert ?i ?U else ?U) \<and> ts_index st = ?i \<and> (ts_started state \<longrightarrow> ts_started st)" for st q'
    using that put_back [OF ok(1) entry, of st] facts(1) ok(2) by (simp add: in_message_def)
qed

lemma tool_call_step_runs: "in_message s q \<Longrightarrow> runs_to q (tool_call_step cv tool_call s) in_message"
  by (cases "entry_or_insert (tc_index tool_call) s")
    (auto simp: tool_call_step_def intro!: advance_entry_runs split: option.splits)

lemma tool_call_steps_runs: "in_message s q \<Longrightarrow> runs_to q (tool_call_steps cv tool_calls s) in_message"
  by (induction tool_calls arbitrary: s q) (auto intro: runs_to_yielding [OF tool_call_step_runs])

lemma function_call_step_runs: "in_message s q \<Longrightarrow> runs_to q (function_call_step cv f s) in_message"
  by (cases "entry_or_insert u64_max s") (auto simp: function_call_step_def intro!: advance_entry_runs)

lemma calls_step_runs: "in_message s q \<Longrightarrow> runs_to q (calls_step cv delta s) in_message"
  unfolding calls_step_def
  by (rule runs_to_yielding [where R = in_message])
    (auto simp: tool_call_steps_runs function_call_step_runs split: option.splits)

lemma text_step_runs:
  assumes "in_message s q"
  shows "runs_to q (text_step content s) in_message"
proof (cases "cs_text_index s")
  case None
  have "cs_next_index s \<notin> started_indexes (cs_tools s)"
    using assms by (fastforce simp: in_message_def indexes_ok_def started_indexes_def started_at_def)
  moreover have "indexes_ok (s\<lparr> cs_next_index := Suc (cs_next_index s), cs_text_index := Some (cs_next_index s) \<rparr>)"
    using assms by (fastforce simp: in_message_def indexes_ok_def less_Suc_eq)
  ultimately show ?thesis using assms None by (auto simp: text_step_def in_message_def Let_def)
next
  case (Some i)
  then show ?thesis using assms by (auto simp: text_step_def in_message_def)
qed

lemma indexes_ok_update [simp]:
  "indexes_ok (s\<lparr> cs_text_seen := seen \<rparr>) = indexes_ok s" "indexes_ok (s\<lparr> cs_stream_done := d \<rparr>) = indexes_ok s"
  "indexes_ok (s\<lparr> cs_finish_reason := r \<rparr>) = indexes_ok s" "indexes_ok (s\<lparr> cs_upstream_finish_reason := u \<rparr>) = indexes_ok s"
  "indexes_ok (s\<lparr> cs_saw_finish_reason := d \<rparr>) = indexes_ok s"
  by (simp_all add: indexes_ok_def)

lemma in_message_kept:
  "in_message s q \<Longrightarrow> in_message (note_finish reason s) q"
  "in_message s q \<Longrightarrow> in_message (s\<lparr> cs_text_seen := seen \<rparr>) q"
  "in_message s q \<Longrightarrow> in_message (s\<lparr> cs_stream_done := True \<rparr>) q"
  by (auto simp: in_message_def note_finish_def split: option.splits)

lemma choice_step_runs:
  assumes "in_message s q"
  shows "runs_to q (choice_step cv choice s) in_message"
  by (auto simp: choice_step_def Let_def calls_step_runs in_message_kept assms split: option.splits prod.splits
      intro!: runs_to_yielding [OF text_step_runs])

lemma choice_steps_runs: "in_message s q \<Longrightarrow> runs_to q (choice_steps cv choices s) in_message"
  by (induction choices arbitrary: s q) (auto intro: runs_to_yielding [OF choice_step_runs])

section \<open>The whole stream\<close>

definition conversion_inv :: "conversion \<Rightarrow> protocol \<times> upstream_stream_state \<Rightarrow> bool" where
  "conversion_inv s q \<longleftrightarrow>
     in_message s q \<or> \<not> cs_message_started s \<and> q = (Fresh, Pending) \<and> cs_text_index s = None \<and> cs_tools s = []"

lemma start_message_runs: "conversion_inv s q \<Longrightarrow> runs_to q (start_message cv s) in_message"
  by (auto simp: conversion_inv_def start_message_def in_message_def indexes_ok_def started_indexes_def started_at_def)

lemma track_usage: "track (usage_items usage) q = Some q"
  by (cases q) (auto simp: usage_items_def Let_def split: option.splits)

lemma chunk_step_runs: "conversion_inv s q \<Longrightarrow> runs_to q (chunk_step cv chunk s) in_message"
  unfolding chunk_step_def
  by (rule runs_to_yields [OF track_usage]) (rule runs_to_yielding [OF start_message_runs choice_steps_runs])

lemma fail_with_runs: "conversion_inv s q \<Longrightarrow> runs_to q (fail_with error) Q"
  by (auto simp: fail_with_def conversion_inv_def in_message_def)

lemma in_message_inv: "in_message s q \<Longrightarrow> conversion_inv s q"
  by (simp add: conversion_inv_def)

lemma data_steps_runs: "conversion_inv s q \<Longrightarrow> runs_to q (data_steps cv lines s) conversion_inv"
proof (induction lines arbitrary: s q)
  case (Cons data rest)
  have last: "runs_to q (yielding (start_message cv s) (\<lambda>s. ([], Inr (s\<lparr> cs_stream_done := True \<rparr>)))) conversion_inv"
    by (rule runs_to_yielding [OF start_message_runs [OF Cons.prems]])
      (simp add: conversion_inv_def in_message_kept)
  have "runs_to q (yielding (chunk_step cv chunk s) (\<lambda>s. if cs_stream_done s then ([], Inr s) else data_steps cv rest s)) conversion_inv"
    for chunk
    by (rule runs_to_yielding [OF chunk_step_runs [OF Cons.prems]]) (simp add: in_message_inv Cons.IH)
  with last show ?case by (simp add: fail_with_runs [OF Cons.prems] split: sum.splits)
qed simp

lemma frame_steps_runs: "conversion_inv s q \<Longrightarrow> runs_to q (frame_steps cv frames s) conversion_inv"
proof (induction frames arbitrary: s q)
  case (Cons frame frames)
  have "runs_to q (yielding (data_steps cv lines s) (\<lambda>s. if cs_stream_done s then ([], Inr s) else frame_steps cv frames s)) conversion_inv"
    for lines
    by (rule runs_to_yielding [OF data_steps_runs [OF Cons.prems]]) (simp add: Cons.IH)
  with Cons.prems show ?case by (cases frame) (auto simp: fail_with_runs)
qed simp

section \<open>The end of the stream\<close>

lemma validate_tools_names:
  "validate_tools cv states ids = Inr () \<Longrightarrow> t \<in> set states \<Longrightarrow> \<exists>name. validate_name (cv_policy cv) (ts_name t) = Inr name"
  by (induction cv states ids rule: validate_tools.induct)
    (auto simp: result_iffs Let_def split: option.splits if_splits)

lemma stop_tool_track:
  "ts_index t \<in> U - C \<Longrightarrow> track (stop_tool cv t) (Running T U C, l) = Some (Running T U (insert (ts_index t) C), l)"
  by (auto simp: stop_tool_def pending_tool_arguments_event_def split: option.splits)

lemma finish_tool_track:
  assumes "validate_name (cv_policy cv) (ts_name t) = Inr name"
    and "ts_index t \<notin> T \<union> C" and "ts_started t \<longleftrightarrow> ts_index t \<in> U"
  shows "\<exists>items U' C'. finish_tool cv t = (items, Inr ()) \<and> track items (Running T U C, l) = Some (Running T U' C', l)
    \<and> U' - C' = U - C - {ts_index t} \<and> U \<subseteq> U' \<and> U' \<subseteq> insert (ts_index t) U \<and> C \<subseteq> C' \<and> C' \<subseteq> insert (ts_index t) C"
proof -
  let ?i = "ts_index t"
  consider "ts_started t" | "\<not> ts_started t" "ts_name t \<noteq> None \<or> has_argument_data t"
    | "\<not> ts_started t" "\<not> (ts_name t \<noteq> None \<or> has_argument_data t)" by blast
  then show ?thesis
  proof cases
    case 1
    then show ?thesis using assms(2,3) stop_tool_track [of t U C cv T l]
      by (intro exI [of _ "stop_tool cv t"] exI [of _ U] exI [of _ "insert ?i C"]) (auto simp: finish_tool_def)
  next
    case 2
    let ?items = "Emit (ToolStart ?i (case ts_upstream_id t of Some i \<Rightarrow> i | None \<Rightarrow> ''toolu_'' @ cv_tool_uuid cv ?i) name)
        # stop_tool cv (t\<lparr> ts_started := True \<rparr>)"
    have "finish_tool cv t = (?items, Inr ())" using 2 assms(1) by (simp add: finish_tool_def start_tool_state_def)
    moreover have "track ?items (Running T U C, l) = Some (Running T (insert ?i U) (insert ?i C), l)"
      using 2 assms stop_tool_track [of "t\<lparr> ts_started := True \<rparr>" "insert ?i U" C cv T l] by auto
    ultimately show ?thesis using 2 assms(2,3) by (intro exI [of _ ?items] exI [of _ "insert ?i U"] exI [of _ "insert ?i C"]) auto
  next
    case 3
    then show ?thesis using assms(3)
      by (intro exI [of _ "[]"] exI [of _ U] exI [of _ C]) (auto simp: finish_tool_def)
  qed
qed

lemma finish_tools_track:
  assumes "distinct (map ts_index states)" and "T \<subseteq> C" and "U - C \<subseteq> ts_index ` set states"
    and "\<And>t. t \<in> set states \<Longrightarrow> ts_index t \<notin> T \<union> C \<and> (ts_started t \<longleftrightarrow> ts_index t \<in> U)
           \<and> (\<exists>name. validate_name (cv_policy cv) (ts_name t) = Inr name)"
  shows "\<exists>items U' C'. finish_tools cv states = (items, Inr ()) \<and> track items (Running T U C, l) = Some (Running T U' C', l)
    \<and> T \<union> U' \<subseteq> C'"
  using assms
proof (induction states arbitrary: U C)
  case Nil
  then show ?case by auto
next
  case (Cons t states)
  from Cons.prems(4) [of t] obtain name where t: "validate_name (cv_policy cv) (ts_name t) = Inr name"
    "ts_index t \<notin> T \<union> C" "ts_started t \<longleftrightarrow> ts_index t \<in> U" by auto
  from finish_tool_track [OF t] obtain items U' C' where
    one: "finish_tool cv t = (items, Inr ())" "track items (Running T U C, l) = Some (Running T U' C', l)"
    and sets: "U' - C' = U - C - {ts_index t}" "U \<subseteq> U'" "U' \<subseteq> insert (ts_index t) U" "C \<subseteq> C'" "C' \<subseteq> insert (ts_index t) C"
    by blast
  have fresh: "ts_index u \<noteq> ts_index t" if "u \<in> set states" for u
    using Cons.prems(1) imageI [OF that, of ts_index] by auto
  have "\<exists>items U'' C''. finish_tools cv states = (items, Inr ()) \<and> track items (Running T U' C', l) = Some (Running T U'' C'', l)
      \<and> T \<union> U'' \<subseteq> C''"
  proof (rule Cons.IH)
    show "distinct (map ts_index states)" "T \<subseteq> C'" using Cons.prems(1,2) sets by auto
    show "U' - C' \<subseteq> ts_index ` set states" using Cons.prems(3) sets(1) by auto
    show "ts_index u \<notin> T \<union> C' \<and> (ts_started u \<longleftrightarrow> ts_index u \<in> U') \<and> (\<exists>name. validate_name (cv_policy cv) (ts_name u) = Inr name)"
      if "u \<in> set states" for u
      using Cons.prems(4) [of u] that fresh [OF that] sets by auto
  qed
  then obtain items' U'' C'' where "finish_tools cv states = (items', Inr ())"
    "track items' (Running T U' C', l) = Some (Running T U'' C'', l)" "T \<union> U'' \<subseteq> C''" by blast
  with one show ?case by (auto simp: track_append)
qed

lemma in_values_iff: "bt_wf m \<Longrightarrow> t \<in> set (bt_values m) \<longleftrightarrow> (\<exists>k. bt_get m k = Some t)"
  by (auto simp: bt_values_def bt_get_iff_mem) force

lemma started_iff:
  assumes ok: "indexes_ok s" and k: "bt_get (cs_tools s) k = Some t"
  shows "ts_index t \<in> started_indexes (cs_tools s) \<longleftrightarrow> ts_started t"
proof
  assume "ts_index t \<in> started_indexes (cs_tools s)"
  then obtain k' t' where t': "bt_get (cs_tools s) k' = Some t'" "ts_started t'" "ts_index t = ts_index t'"
    by (auto simp: started_indexes_def started_at_def)
  from indexes_ok_unique [OF ok k t'(1,3)] t' k show "ts_started t" by simp
next
  assume "ts_started t"
  with k show "ts_index t \<in> started_indexes (cs_tools s)" by (auto simp: started_indexes_def started_at_def)
qed

lemma distinct_indexes:
  assumes "indexes_ok s"
  shows "distinct (map ts_index (bt_values (cs_tools s)))"
proof -
  have wf: "bt_wf (cs_tools s)" using assms by (simp add: indexes_ok_def)
  have "inj_on (\<lambda>(k, t). ts_index t) (set (cs_tools s))"
  proof (rule inj_onI, clarify)
    fix k t k' t' assume "(k, t) \<in> set (cs_tools s)" "(k', t') \<in> set (cs_tools s)" and same: "ts_index t = ts_index t'"
    then have kt: "bt_get (cs_tools s) k = Some t" "bt_get (cs_tools s) k' = Some t'"
      by (simp_all add: bt_get_iff_mem [OF wf])
    with indexes_ok_unique [OF assms kt same] show "k = k' \<and> t = t'" by simp
  qed
  then have "distinct (map (\<lambda>(k, t). ts_index t) (cs_tools s))"
    using bt_wf_distinct [OF wf] by (simp add: distinct_map)
  then show ?thesis by (simp add: bt_values_def comp_def case_prod_unfold)
qed

lemma finish_conversion_runs:
  assumes "conversion_inv s q"
  shows "runs_to q (finish_conversion cv s) (\<lambda>_ q'. q' = (Stopped, Completed))"
proof (cases "cs_message_started s \<and> validation cv s = Inr ()")
  case False
  then show ?thesis using fail_with_runs [OF assms] by (auto simp: finish_conversion_def split: sum.splits)
next
  case True
  let ?T = "set_option (cs_text_index s)" and ?U = "started_indexes (cs_tools s)" and ?states = "bt_values (cs_tools s)"
  have q: "q = open_message ?T ?U" and ok: "indexes_ok s" using assms True by (auto simp: conversion_inv_def in_message_def)
  have wf: "bt_wf (cs_tools s)" using ok by (simp add: indexes_ok_def)
  have "\<exists>items U' C'. finish_tools cv ?states = (items, Inr ())
      \<and> track items (Running ?T ?U ?T, Completed) = Some (Running ?T U' C', Completed) \<and> ?T \<union> U' \<subseteq> C'"
  proof (rule finish_tools_track)
    show "distinct (map ts_index ?states)" by (rule distinct_indexes [OF ok])
    show "?U - ?T \<subseteq> ts_index ` set ?states"
      using in_values_iff [OF wf] by (fastforce simp: started_indexes_def started_at_def)
    fix t assume "t \<in> set ?states"
    then obtain k where k: "bt_get (cs_tools s) k = Some t" by (auto simp: in_values_iff [OF wf])
    have "ts_started t \<longleftrightarrow> ts_index t \<in> ?U"
      using started_iff [OF ok k] by simp
    moreover have "\<exists>name. validate_name (cv_policy cv) (ts_name t) = Inr name"
      using True \<open>t \<in> set ?states\<close> by (auto simp: validation_def result_iffs dest: validate_tools_names)
    ultimately show "ts_index t \<notin> ?T \<union> ?T \<and> (ts_started t \<longleftrightarrow> ts_index t \<in> ?U)
        \<and> (\<exists>name. validate_name (cv_policy cv) (ts_name t) = Inr name)"
      using indexes_ok_below [OF ok k] by auto
  qed simp
  then show ?thesis
    using True by (cases "cs_text_index s") (auto simp: finish_conversion_def fail_with_def q track_append)
qed

lemma conversion_runs:
  "runs_to (Fresh, Pending) (openai_stream_to_anthropic cv frames) (\<lambda>_ q'. q' = (Stopped, Completed))"
  unfolding openai_stream_to_anthropic_def
  by (rule runs_to_yielding [OF frame_steps_runs finish_conversion_runs])
    (simp_all add: conversion_inv_def new_conversion_def)

section \<open>Events and lifecycle of a run\<close>

fun item_signal :: "stream_item \<Rightarrow> upstream_stream_state option" where
  "item_signal (Fail error) = Some (Failed error)"
| "item_signal Complete = Some Completed"
| "item_signal _ = None"

lemma track_events: "track items (p, l) = Some (p', l') \<Longrightarrow> protocol_run (run_events items) p = Some p'"
proof (induction items arbitrary: p l)
  case (Cons x items)
  then show ?case
    by (cases x) (auto simp: run_events_def List.map_filter_simps split: bind_splits if_splits)
qed (simp add: run_events_def List.map_filter_simps)

lemma track_signals:
  "track items (p, l) = Some (p', l') \<Longrightarrow>
   List.map_filter item_signal items = (if l = l' then [] else [l']) \<and> (l \<noteq> l' \<longrightarrow> l = Pending)"
proof (induction items arbitrary: p l)
  case (Cons x items)
  then show ?case
    by (cases x) (fastforce simp: List.map_filter_simps split: bind_splits if_splits)+
qed (simp add: List.map_filter_simps)

lemma run_ops_signals: "List.map_filter terminal_signal (run_ops clock items) = List.map_filter item_signal items"
proof -
  have "List.map_filter terminal_signal (List.map_filter (\<lambda>(i, item). item_op (clock i) item) (enumerate n items))
      = List.map_filter item_signal items" for n
  proof (induction items arbitrary: n)
    case (Cons x items)
    then show ?case by (cases x) (simp_all add: List.map_filter_simps)
  qed (simp add: List.map_filter_simps)
  then show ?thesis by (simp add: run_ops_def)
qed

lemma track_lifecycle:
  "track items (p, Pending) = Some (p', l') \<Longrightarrow> sl_state (history (run_ops clock items)) = l'"
  using track_signals [of items p Pending p' l'] by (auto simp: history_state run_ops_signals first_of_def)

text \<open>
  C30: Whatever frames an upstream sends and however its stream ends, the events sent to the client
  obey the streaming protocol: the message starts first and once, every content block is started once
  under an index of its own, deltas of its kind go to open blocks only, blocks are closed once, the
  stop reason comes after every block is closed and the end of the message last.  A run that comes to
  its end has sent the end of the message and the lifecycle is completed; a run that reports an error
  has sent it as its last event and the lifecycle has failed with the text of that error; and a run
  that raises leaves an open message, sends nothing after it and leaves the lifecycle undecided.
\<close>
theorem converted_stream_obeys_protocol:
  "case openai_stream_to_anthropic cv frames of (items, res) \<Rightarrow>
     \<exists>p. protocol_run (run_events items) Fresh = Some p
       \<and> (case res of
            Inr _ \<Rightarrow> p = Stopped \<and> sl_state (history (run_ops clock items)) = Completed
          | Inl Returned \<Rightarrow> (\<exists>e. p = Errored e \<and> sl_state (history (run_ops clock items)) = Failed (display_error e))
          | Inl (Raised _) \<Rightarrow> (\<exists>T U. p = Running T U {}) \<and> sl_state (history (run_ops clock items)) = Pending)"
proof (cases "openai_stream_to_anthropic cv frames")
  case (Pair items res)
  note run = conversion_runs [of cv frames, unfolded Pair]
  show ?thesis
  proof (cases res)
    case (Inl x)
    then show ?thesis
      using run by (cases x) (auto simp: Pair dest: track_events track_lifecycle [where clock = clock])
  next
    case (Inr u)
    then show ?thesis using run by (auto simp: Pair dest: track_events track_lifecycle [where clock = clock])
  qed
qed

section \<open>Buffered answers\<close>

lemma protocol_run_append: "protocol_run (xs @ ys) p = Option.bind (protocol_run xs p) (protocol_run ys)"
  by (induction xs arbitrary: p) (auto split: bind_splits)

lemma protocol_run_deltas: "i \<in> T - C \<Longrightarrow> protocol_run (map (TextDelta i) pieces) (Running T U C) = Some (Running T U C)"
  by (induction pieces) auto

lemma complete_block_obeys:
  assumes "C = T \<union> U" and "\<forall>i \<in> C. i < index"
  shows "\<exists>T' U' C'. protocol_run (complete_block al to_text uuid index block) (Running T U C) = Some (Running T' U' C')
    \<and> C' = T' \<union> U' \<and> (\<forall>i \<in> C'. i < Suc index)"
  using assms by (auto simp: complete_block_def Let_def protocol_run_append protocol_run_deltas less_Suc_eq)

lemma complete_blocks_obey:
  "C = T \<union> U \<Longrightarrow> \<forall>i \<in> C. i < index \<Longrightarrow>
   \<exists>T' U' C'. protocol_run (complete_blocks al to_text uuid index blocks) (Running T U C) = Some (Running T' U' C') \<and> C' = T' \<union> U'"
proof (induction blocks arbitrary: T U C index)
  case (Cons block blocks)
  from complete_block_obeys [OF Cons.prems] obtain T' U' C' where
    "protocol_run (complete_block al to_text uuid index block) (Running T U C) = Some (Running T' U' C')"
    "C' = T' \<union> U'" "\<forall>i \<in> C'. i < Suc index" by metis
  with Cons.IH [of C' T' U' "Suc index"] show ?case by (simp add: protocol_run_append)
qed simp

text \<open>The events made from a buffered answer obey the protocol to its end.\<close>

lemma buffered_answer_obeys_protocol:
  "protocol_run (openai_complete_to_anthropic_stream al to_text uuid message model) Fresh = Some Stopped"
proof (cases "get_array message ''content''")
  case (Some blocks)
  obtain T U where "protocol_run (complete_blocks al to_text uuid 0 blocks) (Running {} {} {}) = Some (Running T U (T \<union> U))"
    using complete_blocks_obey [of "{}" "{}" "{}" 0 al to_text uuid blocks] by auto
  with Some show ?thesis by (simp add: openai_complete_to_anthropic_stream_def protocol_run_append)
qed (simp add: openai_complete_to_anthropic_stream_def)

end
