(* ===== verification/Stream_Content.thy ===== *)
theory Stream_Content
  imports Stream_Protocol
begin

text \<open>
  What a converted stream says is what the upstream said: the text and the arguments of every tool
  call arrive complete and in order.
\<close>

section \<open>What was read and what was sent\<close>

definition finishes :: "stream_chunk \<Rightarrow> bool" where
  "finishes chunk \<longleftrightarrow> list_ex (\<lambda>choice. sc_finish_reason choice \<noteq> None) (ck_choices chunk)"

text \<open>The chunks of the lines of a frame up to the end of the stream, and whether it was there.\<close>

fun lines_read :: "'v converter \<Rightarrow> string list \<Rightarrow> stream_chunk list \<times> bool" where
  "lines_read cv [] = ([], False)"
| "lines_read cv (data # rest) =
     (if data = ''[DONE]'' then ([], True)
      else case cv_parse_chunk cv data of
             Inl _ \<Rightarrow> ([], True)
           | Inr chunk \<Rightarrow> if finishes chunk then ([chunk], True)
                         else (chunk # fst (lines_read cv rest), snd (lines_read cv rest)))"

fun chunks_read :: "'v converter \<Rightarrow> sse_frame result list \<Rightarrow> stream_chunk list" where
  "chunks_read cv [] = []"
| "chunks_read cv (Inl _ # frames) = []"
| "chunks_read cv (Inr frame # frames) =
     fst (lines_read cv (data_lines frame)) @ (if snd (lines_read cv (data_lines frame)) then [] else chunks_read cv frames)"

definition choices_read :: "'v converter \<Rightarrow> sse_frame result list \<Rightarrow> stream_choice list" where
  "choices_read cv frames = concat (map ck_choices (chunks_read cv frames))"

definition choice_text :: "stream_choice \<Rightarrow> string" where
  "choice_text choice = or_default [] (sd_content (sc_delta choice))"

definition function_text :: "function_delta option \<Rightarrow> string" where
  "function_text f = or_default [] (Option.bind f fd_arguments)"

text \<open>The arguments a choice has for the call under a key; the old function call has the last key.\<close>

definition calls_text :: "nat \<Rightarrow> tool_call_delta list \<Rightarrow> string" where
  "calls_text key calls = concat (map (\<lambda>c. if tc_index c = key then function_text (tc_function c) else []) calls)"

definition choice_arguments :: "nat \<Rightarrow> stream_choice \<Rightarrow> string" where
  "choice_arguments key choice =
     calls_text key (or_default [] (sd_tool_calls (sc_delta choice)))
     @ (if key = u64_max then function_text (sd_function_call (sc_delta choice)) else [])"

fun event_text :: "stream_event \<Rightarrow> string" where
  "event_text (TextDelta _ s) = s"
| "event_text _ = []"

fun event_arguments :: "nat \<Rightarrow> stream_event \<Rightarrow> string" where
  "event_arguments i (JsonDelta j s) = (if j = i then s else [])"
| "event_arguments i _ = []"

definition sent_text :: "stream_item list \<Rightarrow> string" where
  "sent_text items = concat (map event_text (run_events items))"

definition sent_arguments :: "nat \<Rightarrow> stream_item list \<Rightarrow> string" where
  "sent_arguments i items = concat (map (event_arguments i) (run_events items))"

text \<open>A choice with an empty text fragment is left before its calls are read.\<close>

definition calls_dropped :: "stream_choice \<Rightarrow> bool" where
  "calls_dropped choice \<longleftrightarrow>
     sd_content (sc_delta choice) = Some []
   \<and> (sd_tool_calls (sc_delta choice) \<noteq> None \<or> sd_function_call (sc_delta choice) \<noteq> None)"

lemma run_events_simps [simp]:
  "run_events [] = []" "run_events (Emit e # items) = e # run_events items"
  "run_events (Observe n b r # items) = run_events items" "run_events (Usage u # items) = run_events items"
  "run_events (Cost c # items) = run_events items" "run_events (Fail m # items) = run_events items"
  "run_events (Complete # items) = run_events items"
  by (simp_all add: run_events_def List.map_filter_simps)

lemma run_events_append [simp]: "run_events (xs @ ys) = run_events xs @ run_events ys"
  by (simp add: run_events_def List.map_filter_def)

lemma sent_append [simp]:
  "sent_text (xs @ ys) = sent_text xs @ sent_text ys" "sent_arguments i (xs @ ys) = sent_arguments i xs @ sent_arguments i ys"
  by (simp_all add: sent_text_def sent_arguments_def)

lemma sent_nil [simp]: "sent_text [] = []" "sent_arguments i [] = []"
  by (simp_all add: sent_text_def sent_arguments_def)

lemma sent_cons [simp]:
  "sent_text (Emit e # xs) = event_text e @ sent_text xs"
  "sent_arguments i (Emit e # xs) = event_arguments i e @ sent_arguments i xs"
  "sent_text (Observe n b r # xs) = sent_text xs" "sent_arguments i (Observe n b r # xs) = sent_arguments i xs"
  "sent_text (Usage u # xs) = sent_text xs" "sent_arguments i (Usage u # xs) = sent_arguments i xs"
  "sent_text (Cost c # xs) = sent_text xs" "sent_arguments i (Cost c # xs) = sent_arguments i xs"
  "sent_text (Complete # xs) = sent_text xs" "sent_arguments i (Complete # xs) = sent_arguments i xs"
  by (simp_all add: sent_text_def sent_arguments_def)

declare yielding.simps [simp del]

section \<open>One call\<close>

lemma pending_sent:
  "pending_tool_arguments_event t False = (items, Inr t') \<Longrightarrow>
   t' = t\<lparr> ts_pending_arguments := [] \<rparr> \<and> sent_text items = []
   \<and> (\<forall>i. sent_arguments i items = (if i = ts_index t then ts_pending_arguments t else []))"
  by (auto simp: pending_tool_arguments_event_def split: if_splits)

lemma start_sent:
  "start_tool_state cv t = (items, Inr t') \<Longrightarrow>
   t' = t\<lparr> ts_started := True \<rparr> \<and> sent_text items = [] \<and> (\<forall>i. sent_arguments i items = [])"
  by (auto simp: start_tool_state_def Let_def split: sum.splits)

lemma advance_sent:
  assumes "advance_tool cv n said reason started t = (items, Inr t')" and "\<not> cv_dedup_arguments cv"
  shows "ts_index t' = ts_index t \<and> ts_all_arguments t' = ts_all_arguments t \<and> sent_text items = []
    \<and> (\<forall>i. i \<noteq> ts_index t \<longrightarrow> sent_arguments i items = [])
    \<and> sent_arguments (ts_index t) items @ ts_pending_arguments t' = ts_pending_arguments t"
  using assms
  by (auto simp: advance_tool_def pending_tool_arguments_event_if_started_def yielding_eq_Inr
      split: if_splits dest!: pending_sent start_sent)

lemma store_function_stores:
  assumes "\<not> cv_dedup_arguments cv"
  shows "ts_all_arguments (store_function cv f t) = ts_all_arguments t @ function_text (Some f)"
    and "ts_pending_arguments (store_function cv f t) = ts_pending_arguments t @ function_text (Some f)"
  using assms
  by (auto simp: store_function_def ingest_tool_arguments_def Let_def function_text_def or_default_def split: option.splits)

definition arguments_at :: "conversion \<Rightarrow> nat \<Rightarrow> string" where
  "arguments_at s key = (case bt_get (cs_tools s) key of Some t \<Rightarrow> ts_all_arguments t | None \<Rightarrow> [])"

text \<open>Of every call, what is not sent is pending; no arguments were sent under any other index.\<close>

definition sent_ok :: "stream_item list \<Rightarrow> conversion \<Rightarrow> bool" where
  "sent_ok items s \<longleftrightarrow>
     (\<forall>k t. bt_get (cs_tools s) k = Some t \<longrightarrow> sent_arguments (ts_index t) items @ ts_pending_arguments t = ts_all_arguments t)
   \<and> (\<forall>i. (\<forall>k t. bt_get (cs_tools s) k = Some t \<longrightarrow> ts_index t \<noteq> i) \<longrightarrow> sent_arguments i items = [])"

definition kept :: "stream_item list \<Rightarrow> string \<Rightarrow> (nat \<Rightarrow> string) \<Rightarrow> conversion \<Rightarrow> bool" where
  "kept items said args s \<longleftrightarrow>
     indexes_ok s \<and> sent_ok items s \<and> sent_text items = said \<and> (\<forall>k. arguments_at s k = args k)"

definition same_rest :: "conversion \<Rightarrow> conversion \<Rightarrow> bool" where
  "same_rest s s' \<longleftrightarrow> cs_text_seen s' = cs_text_seen s \<and> cs_stream_done s' = cs_stream_done s"

lemma entry_sent:
  assumes "indexes_ok s" and "sent_ok items s" and "entry_or_insert key s = (t, s')"
  shows "sent_arguments (ts_index t) items @ ts_pending_arguments t = ts_all_arguments t \<and> ts_all_arguments t = arguments_at s key
    \<and> same_rest s s'"
proof (cases "bt_get (cs_tools s) key")
  case None
  have "sent_arguments (cs_next_index s) items = []"
    using assms(2) indexes_ok_below [OF assms(1)] unfolding sent_ok_def by (metis less_irrefl)
  with None assms(3) show ?thesis
    by (auto simp: entry_or_insert_def arguments_at_def new_tool_state_def same_rest_def)
next
  case (Some u)
  with assms(2,3) show ?thesis by (auto simp: entry_or_insert_def sent_ok_def arguments_at_def same_rest_def)
qed

lemma advance_entry_sent:
  assumes kept: "kept items said args s" and entry: "entry_or_insert key s = (t, s')" and "\<not> cv_dedup_arguments cv"
    and t2: "ts_index t2 = ts_index t" "ts_all_arguments t2 = ts_all_arguments t @ a" "ts_pending_arguments t2 = ts_pending_arguments t @ a"
    and advance: "advance_tool cv n present reason started t2 = (new, Inr t3)"
  shows "kept (items @ new) said (\<lambda>k. args k @ (if key = k then a else [])) (s'\<lparr> cs_tools := bt_insert key t3 (cs_tools s') \<rparr>)"
proof -
  let ?s = "s'\<lparr> cs_tools := bt_insert key t3 (cs_tools s') \<rparr>"
  have ok: "indexes_ok s" "sent_ok items s" using kept by (auto simp: kept_def)
  note facts = entry_facts [OF ok(1) entry] and sent = entry_sent [OF ok entry]
  note adv = advance_sent [OF advance assms(3)]
  have "indexes_ok ?s" using put_back(1) [OF ok(1) entry, of t3] adv t2(1) by simp
  moreover have "sent_ok (items @ new) ?s"
    unfolding sent_ok_def
  proof (intro conjI allI impI)
    fix k u assume u: "bt_get (cs_tools ?s) k = Some u"
    show "sent_arguments (ts_index u) (items @ new) @ ts_pending_arguments u = ts_all_arguments u"
    proof (cases "k = key")
      case True
      then have "u = t3" using u by simp
      with adv sent t2 show ?thesis by simp
    next
      case False
      then have k: "bt_get (cs_tools s) k = Some u" using u facts(1) by simp
      with False facts(2) [OF k] t2(1) have "ts_index u \<noteq> ts_index t2" by metis
      with adv ok(2) k show ?thesis by (simp add: sent_ok_def)
    qed
  next
    fix i assume none: "\<forall>k u. bt_get (cs_tools ?s) k = Some u \<longrightarrow> ts_index u \<noteq> i"
    then have "bt_get (cs_tools ?s) key = Some t3 \<longrightarrow> ts_index t3 \<noteq> i" by blast
    then have i: "i \<noteq> ts_index t2" using adv by simp
    have "ts_index u \<noteq> i" if "bt_get (cs_tools s) k = Some u" for k u
    proof (cases "k = key")
      case True
      then show ?thesis using that facts(3) i t2(1) by auto
    next
      case False
      then have "bt_get (cs_tools ?s) k = Some u" using that facts(1) by simp
      then show ?thesis using none by blast
    qed
    with ok(2) adv i show "sent_arguments i (items @ new) = []" by (simp add: sent_ok_def)
  qed
  moreover have "arguments_at ?s k = args k @ (if key = k then a else [])" for k
    using kept adv sent t2 facts(1) by (auto simp: kept_def arguments_at_def)
  ultimately show ?thesis using kept adv by (simp add: kept_def)
qed

lemma tool_call_step_kept:
  assumes "tool_call_step cv c s = (new, Inr s')" and "kept items said args s" and "\<not> cv_dedup_arguments cv"
  shows "kept (items @ new) said (\<lambda>k. args k @ calls_text k [c]) s' \<and> same_rest s s'"
proof (cases "entry_or_insert (tc_index c) s")
  case (Pair t s1)
  let ?t1 = "case tc_id c of Some i \<Rightarrow> t\<lparr> ts_upstream_id := Some i \<rparr> | None \<Rightarrow> t"
  let ?t2 = "case tc_function c of Some f \<Rightarrow> store_function cv f ?t1 | None \<Rightarrow> ?t1"
  from assms(1) obtain t3 where adv: "advance_tool cv (sat_add (tc_index c) 1) (cs_text_seen s1 \<noteq> []) (cs_upstream_finish_reason s1)
      (ts_started t) ?t2 = (new, Inr t3)" and s': "s' = s1\<lparr> cs_tools := bt_insert (tc_index c) t3 (cs_tools s1) \<rparr>"
    by (auto simp: tool_call_step_def Pair yielding_eq_Inr Let_def)
  have t2: "ts_index ?t2 = ts_index t" "ts_all_arguments ?t2 = ts_all_arguments t @ function_text (tc_function c)"
    "ts_pending_arguments ?t2 = ts_pending_arguments t @ function_text (tc_function c)"
    using store_function_stores [OF assms(3)]
    by (auto simp: function_text_def [of None] or_default_def split: option.splits)
  show ?thesis
    using advance_entry_sent [OF assms(2) Pair assms(3) t2 adv] entry_sent [OF _ _ Pair] assms(2)
    by (auto simp: s' calls_text_def kept_def same_rest_def)
qed

lemma same_rest_trans: "same_rest s s' \<Longrightarrow> same_rest s' s'' \<Longrightarrow> same_rest s s''"
  by (simp add: same_rest_def)

lemma calls_text_cons: "calls_text k (c # cs) = calls_text k [c] @ calls_text k cs"
  by (simp add: calls_text_def)

lemma tool_call_steps_kept:
  assumes "tool_call_steps cv calls s = (new, Inr s')" and "kept items said args s" and "\<not> cv_dedup_arguments cv"
  shows "kept (items @ new) said (\<lambda>k. args k @ calls_text k calls) s' \<and> same_rest s s'"
  using assms
proof (induction calls arbitrary: s new items args)
  case Nil
  then show ?case by (simp add: calls_text_def same_rest_def)
next
  case (Cons c calls)
  then obtain new1 s1 new2 where one: "tool_call_step cv c s = (new1, Inr s1)"
    and rest: "tool_call_steps cv calls s1 = (new2, Inr s')" and new: "new = new1 @ new2"
    by (auto simp: yielding_eq_Inr)
  note step = tool_call_step_kept [OF one Cons.prems(2,3)]
  from Cons.IH [OF rest conjunct1 [OF step] Cons.prems(3)] step show ?case
    unfolding calls_text_cons [of _ c calls] by (auto simp: new intro: same_rest_trans)
qed

lemma function_call_step_kept:
  assumes "function_call_step cv f s = (new, Inr s')" and "kept items said args s" and "\<not> cv_dedup_arguments cv"
  shows "kept (items @ new) said (\<lambda>k. args k @ (if k = u64_max then function_text (Some f) else [])) s' \<and> same_rest s s'"
proof (cases "entry_or_insert u64_max s")
  case (Pair t s1)
  from assms(1) obtain t3 where adv: "advance_tool cv 1 (cs_text_seen s1 \<noteq> []) (cs_upstream_finish_reason s1)
      (ts_started t) (store_function cv f t) = (new, Inr t3)"
    and s': "s' = s1\<lparr> cs_tools := bt_insert u64_max t3 (cs_tools s1) \<rparr>"
    by (auto simp: function_call_step_def Pair yielding_eq_Inr Let_def)
  show ?thesis
    using advance_entry_sent [OF assms(2) Pair assms(3) store_function_keeps(1) store_function_stores [OF assms(3)] adv]
      entry_sent [OF _ _ Pair] assms(2)
    by (auto simp: s' kept_def same_rest_def eq_commute [of u64_max])
qed

lemma calls_step_kept:
  assumes run: "calls_step cv (sc_delta choice) s = (new, Inr s')" and "kept items said args s" and plain: "\<not> cv_dedup_arguments cv"
  shows "kept (items @ new) said (\<lambda>k. args k @ choice_arguments k choice) s' \<and> same_rest s s'"
proof -
  from run obtain new1 s1 new2
    where one: "(case sd_tool_calls (sc_delta choice) of Some calls \<Rightarrow> tool_call_steps cv calls s | None \<Rightarrow> ([], Inr s)) = (new1, Inr s1)"
      and two: "(case sd_function_call (sc_delta choice) of Some f \<Rightarrow> function_call_step cv f s1 | None \<Rightarrow> ([], Inr s1)) = (new2, Inr s')"
      and new: "new = new1 @ new2"
    by (auto simp: calls_step_def yielding_eq_Inr)
  have k1: "kept (items @ new1) said (\<lambda>k. args k @ calls_text k (or_default [] (sd_tool_calls (sc_delta choice)))) s1 \<and> same_rest s s1"
    using one assms(2) tool_call_steps_kept [OF _ assms(2) plain]
    by (auto simp: or_default_def calls_text_def same_rest_def split: option.splits)
  then have "kept (items @ new1 @ new2) said (\<lambda>k. (args k @ calls_text k (or_default [] (sd_tool_calls (sc_delta choice))))
      @ (if k = u64_max then function_text (sd_function_call (sc_delta choice)) else [])) s' \<and> same_rest s1 s'"
    using two function_call_step_kept [OF _ conjunct1 [OF k1] plain]
    by (cases "sd_function_call (sc_delta choice)")
      (simp_all add: function_text_def [of None] or_default_def same_rest_def cong: if_cong)
  with k1 show ?thesis by (auto simp: new choice_arguments_def intro: same_rest_trans)
qed

section \<open>One choice\<close>

lemma kept_update [simp]:
  "kept items said args (s\<lparr> cs_text_seen := x \<rparr>) = kept items said args s"
  "kept items said args (note_finish reason s) = kept items said args s"
  "kept items said args (s\<lparr> cs_stream_done := d \<rparr>) = kept items said args s"
  "kept items said args (s\<lparr> cs_message_started := d \<rparr>) = kept items said args s"
  by (cases reason; simp add: kept_def sent_ok_def arguments_at_def note_finish_def indexes_ok_def)+

lemma text_step_kept:
  assumes "text_step content s = (new, Inr s')" and "kept items said args s"
  shows "kept (items @ new) (said @ content) args s' \<and> same_rest s s'"
proof -
  from assms(1) have sent: "sent_text new = content" "\<And>i. sent_arguments i new = []"
    and s': "s' = s \<or> cs_text_index s = None \<and> s' = s\<lparr> cs_next_index := Suc (cs_next_index s), cs_text_index := Some (cs_next_index s) \<rparr>"
    by (auto simp: text_step_def yielding_eq_Inr Let_def split: option.splits)
  have "indexes_ok (s\<lparr> cs_next_index := Suc (cs_next_index s), cs_text_index := Some (cs_next_index s) \<rparr>)" if "indexes_ok s"
    using that by (fastforce simp: indexes_ok_def less_Suc_eq)
  with s' assms(2) sent show ?thesis
    by (auto simp: kept_def sent_ok_def arguments_at_def same_rest_def)
qed

lemma choice_step_kept:
  assumes run: "choice_step cv choice s = (new, Inr s')" and kept: "kept items (cs_text_seen s) args s"
    and plain: "\<not> cv_dedup_arguments cv" "\<not> cv_dedup_text cv" and whole: "\<not> calls_dropped choice"
  shows "kept (items @ new) (cs_text_seen s') (\<lambda>k. args k @ choice_arguments k choice) s'
    \<and> cs_text_seen s' = cs_text_seen s @ choice_text choice
    \<and> cs_stream_done s' = (cs_stream_done s \<or> sc_finish_reason choice \<noteq> None)"
proof -
  let ?s = "note_finish (sc_finish_reason choice) s"
  have n: "cs_text_seen ?s = cs_text_seen s" "cs_stream_done ?s = (cs_stream_done s \<or> sc_finish_reason choice \<noteq> None)"
    by (auto simp: note_finish_def split: option.splits)
  show ?thesis
  proof (cases "sd_content (sc_delta choice)")
    case None
    then have "calls_step cv (sc_delta choice) ?s = (new, Inr s')" using run by (simp add: choice_step_def)
    from calls_step_kept [OF this _ plain(1), of items "cs_text_seen s" args] kept n None show ?thesis
      by (simp add: same_rest_def choice_text_def or_default_def)
  next
    case (Some content)
    show ?thesis
    proof (cases "content = []")
      case True
      then have "s' = ?s" "new = []" "choice_arguments k choice = []" for k
        using run whole Some n plain
        by (auto simp: choice_step_def text_delta_plain calls_dropped_def choice_arguments_def calls_text_def function_text_def or_default_def)
      then show ?thesis using kept n Some True by (simp add: choice_text_def or_default_def)
    next
      case False
      then obtain new1 s1 new2 where one: "text_step content (?s\<lparr> cs_text_seen := cs_text_seen s @ content \<rparr>) = (new1, Inr s1)"
        and two: "calls_step cv (sc_delta choice) s1 = (new2, Inr s')" and new: "new = new1 @ new2"
        using run Some plain n by (auto simp: choice_step_def text_delta_plain yielding_eq_Inr Let_def)
      note k1 = text_step_kept [OF one, of items "cs_text_seen s" args]
      from calls_step_kept [OF two _ plain(1), of "items @ new1" "cs_text_seen s @ content" args] k1 kept n Some new
      show ?thesis by (simp add: same_rest_def choice_text_def or_default_def)
    qed
  qed
qed

lemma choice_steps_kept:
  assumes "choice_steps cv choices s = (new, Inr s')" and "kept items (cs_text_seen s) args s"
    and "\<not> cv_dedup_arguments cv" "\<not> cv_dedup_text cv" and "list_all (\<lambda>c. \<not> calls_dropped c) choices"
  shows "kept (items @ new) (cs_text_seen s') (\<lambda>k. args k @ concat (map (choice_arguments k) choices)) s'
    \<and> cs_text_seen s' = cs_text_seen s @ concat (map choice_text choices)
    \<and> cs_stream_done s' = (cs_stream_done s \<or> list_ex (\<lambda>c. sc_finish_reason c \<noteq> None) choices)"
  using assms(1,2,5)
proof (induction choices arbitrary: s new items args)
  case (Cons c choices)
  then obtain new1 s1 new2 where one: "choice_step cv c s = (new1, Inr s1)"
    and rest: "choice_steps cv choices s1 = (new2, Inr s')" and new: "new = new1 @ new2"
    by (auto simp: yielding_eq_Inr)
  have "\<not> calls_dropped c" using Cons.prems(3) by simp
  note step = choice_step_kept [OF one Cons.prems(2) assms(3,4) this]
  from Cons.IH [OF rest conjunct1 [OF step]] Cons.prems(3) step show ?case by (auto simp: new)
qed simp

section \<open>The whole stream\<close>

lemma kept_quiet:
  "sent_text new = [] \<Longrightarrow> (\<And>i. sent_arguments i new = []) \<Longrightarrow> kept (items @ new) said args s = kept items said args s"
  by (simp add: kept_def sent_ok_def)

lemma start_message_kept:
  "start_message cv s = (new, Inr s') \<Longrightarrow>
   kept (items @ new) said args s' = kept items said args s \<and> cs_text_seen s' = cs_text_seen s \<and> cs_stream_done s' = cs_stream_done s"
  by (auto simp: start_message_def kept_quiet split: if_splits)

lemma usage_items_sent [simp]: "sent_text (usage_items u) = []" "sent_arguments i (usage_items u) = []"
  by (auto simp: usage_items_def Let_def split: option.splits)

lemma chunk_step_kept:
  assumes "chunk_step cv chunk s = (new, Inr s')" and "kept items (cs_text_seen s) args s"
    and plain: "\<not> cv_dedup_arguments cv" "\<not> cv_dedup_text cv" and "list_all (\<lambda>c. \<not> calls_dropped c) (ck_choices chunk)"
  shows "kept (items @ new) (cs_text_seen s') (\<lambda>k. args k @ concat (map (choice_arguments k) (ck_choices chunk))) s'
    \<and> cs_text_seen s' = cs_text_seen s @ concat (map choice_text (ck_choices chunk))
    \<and> cs_stream_done s' = (cs_stream_done s \<or> finishes chunk)"
proof -
  let ?usage = "usage_items (ck_usage chunk)"
  from assms(1) obtain new1 s1 new2 where one: "start_message cv s = (new1, Inr s1)"
    and two: "choice_steps cv (ck_choices chunk) s1 = (new2, Inr s')" and new: "new = ?usage @ new1 @ new2"
    by (auto simp: chunk_step_def yielding_eq_Inr)
  have "kept (items @ ?usage) (cs_text_seen s) args s" using assms(2) by (simp add: kept_quiet)
  with start_message_kept [OF one, of "items @ ?usage"]
  have "kept ((items @ ?usage) @ new1) (cs_text_seen s1) args s1" "cs_text_seen s1 = cs_text_seen s" "cs_stream_done s1 = cs_stream_done s"
    by simp_all
  with choice_steps_kept [OF two this(1) plain assms(5)] show ?thesis by (auto simp: new finishes_def)
qed

lemma data_steps_kept:
  assumes "data_steps cv lines s = (new, Inr s')" and "kept items (cs_text_seen s) args s" and "\<not> cs_stream_done s"
    and plain: "\<not> cv_dedup_arguments cv" "\<not> cv_dedup_text cv"
    and "list_all (\<lambda>c. \<not> calls_dropped c) (concat (map ck_choices (fst (lines_read cv lines))))"
  shows "kept (items @ new) (cs_text_seen s')
      (\<lambda>k. args k @ concat (map (choice_arguments k) (concat (map ck_choices (fst (lines_read cv lines)))))) s'
    \<and> cs_text_seen s' = cs_text_seen s @ concat (map choice_text (concat (map ck_choices (fst (lines_read cv lines)))))
    \<and> cs_stream_done s' = snd (lines_read cv lines)"
  using assms(1,2,3,6)
proof (induction lines arbitrary: s new items args)
  case (Cons data lines)
  show ?case
  proof (cases "data = ''[DONE]''")
    case True
    then obtain s1 where "start_message cv s = (new, Inr s1)" "s' = s1\<lparr> cs_stream_done := True \<rparr>"
      using Cons.prems(1) by (auto simp: yielding_eq_Inr)
    with start_message_kept [of cv s new s1 items] Cons.prems(2) True show ?thesis by auto
  next
    case False
    then obtain chunk new1 s1 where chunk: "cv_parse_chunk cv data = Inr chunk" and one: "chunk_step cv chunk s = (new1, Inr s1)"
      using Cons.prems(1) by (auto simp: fail_with_def yielding_eq_Inr split: sum.splits)
    have "list_all (\<lambda>c. \<not> calls_dropped c) (ck_choices chunk)" using Cons.prems(4) False chunk by (auto split: if_splits)
    note step = chunk_step_kept [OF one Cons.prems(2) plain this]
    show ?thesis
    proof (cases "finishes chunk")
      case True
      then have "s' = s1" "new = new1" using Cons.prems(1) False chunk one step by (auto simp: yielding_eq_Inr)
      with step True False chunk show ?thesis by auto
    next
      case go: False
      then obtain new2 where rest: "data_steps cv lines s1 = (new2, Inr s')" and new: "new = new1 @ new2"
        using Cons.prems(1,3) False chunk one step by (auto simp: yielding_eq_Inr)
      have "\<not> cs_stream_done s1" using step go Cons.prems(3) by simp
      from Cons.IH [OF rest conjunct1 [OF step] this] Cons.prems(4) step False chunk go show ?thesis by (auto simp: new)
    qed
  qed
qed simp

lemma frame_steps_kept:
  assumes "frame_steps cv frames s = (new, Inr s')" and "kept items (cs_text_seen s) args s" and "\<not> cs_stream_done s"
    and plain: "\<not> cv_dedup_arguments cv" "\<not> cv_dedup_text cv"
    and "list_all (\<lambda>c. \<not> calls_dropped c) (choices_read cv frames)"
  shows "kept (items @ new) (cs_text_seen s') (\<lambda>k. args k @ concat (map (choice_arguments k) (choices_read cv frames))) s'
    \<and> cs_text_seen s' = cs_text_seen s @ concat (map choice_text (choices_read cv frames))"
  using assms(1,2,3,6)
proof (induction frames arbitrary: s new items args)
  case (Cons x frames)
  show ?case
  proof (cases x)
    case (Inl e)
    then show ?thesis using Cons.prems by (auto simp: choices_read_def fail_with_def split: if_splits)
  next
    case (Inr frame)
    let ?read = "lines_read cv (data_lines frame)"
    from Cons.prems(1) Inr obtain new1 s1 new2 where one: "data_steps cv (data_lines frame) s = (new1, Inr s1)"
      and two: "(if cs_stream_done s1 then ([], Inr s1) else frame_steps cv frames s1) = (new2, Inr s')" and new: "new = new1 @ new2"
      by (auto simp: yielding_eq_Inr)
    have "list_all (\<lambda>c. \<not> calls_dropped c) (concat (map ck_choices (fst ?read)))"
      using Cons.prems(4) Inr by (simp add: choices_read_def)
    note step = data_steps_kept [OF one Cons.prems(2,3) plain this]
    show ?thesis
    proof (cases "cs_stream_done s1")
      case True
      with two step Inr show ?thesis by (auto simp: new choices_read_def)
    next
      case False
      with two have rest: "frame_steps cv frames s1 = (new2, Inr s')" by simp
      from Cons.IH [OF rest conjunct1 [OF step] False] Cons.prems(4) step False Inr show ?thesis
        by (auto simp: new choices_read_def)
    qed
  qed
qed (simp add: choices_read_def)

lemma finish_tool_sent:
  assumes "finish_tool cv t = (new, Inr ())" and "\<not> cv_dedup_arguments cv"
  shows "sent_text new = [] \<and> (\<forall>i. sent_arguments i new = (if i = ts_index t then ts_pending_arguments t else []))"
proof -
  have stop: "stop_tool cv u \<noteq> []" "sent_text (stop_tool cv u) = []" "sent_arguments i (stop_tool cv u) = (if i = ts_index u then ts_pending_arguments u else [])" for u i
    using assms(2) by (auto simp: stop_tool_def pending_tool_arguments_event_def)
  show ?thesis
    using assms(1) by (auto simp: finish_tool_def yielding_eq_Inr stop has_argument_data_def split: if_splits dest!: start_sent)
qed

lemma finish_tools_sent:
  assumes "finish_tools cv states = (new, Inr ())" and "\<not> cv_dedup_arguments cv" and "distinct (map ts_index states)"
  shows "sent_text new = [] \<and> (\<forall>t \<in> set states. sent_arguments (ts_index t) new = ts_pending_arguments t)
    \<and> (\<forall>i. i \<notin> ts_index ` set states \<longrightarrow> sent_arguments i new = [])"
  using assms(1,3)
proof (induction states arbitrary: new)
  case (Cons t states)
  then obtain new1 new2 where one: "finish_tool cv t = (new1, Inr ())" and two: "finish_tools cv states = (new2, Inr ())"
    and new: "new = new1 @ new2"
    by (auto simp: yielding_eq_Inr)
  have "ts_index u \<noteq> ts_index t" if "u \<in> set states" for u
    using Cons.prems(2) imageI [OF that, of ts_index] by auto
  with finish_tool_sent [OF one assms(2)] Cons.IH [OF two] Cons.prems(2) show ?case by (auto simp: new)
qed simp

lemma finish_conversion_sent:
  assumes "finish_conversion cv s = (new, Inr ())" and "kept items (cs_text_seen s) args s" and "\<not> cv_dedup_arguments cv"
  shows "sent_text (items @ new) = cs_text_seen s
    \<and> (\<forall>k t. bt_get (cs_tools s) k = Some t \<longrightarrow> sent_arguments (ts_index t) (items @ new) = args k)
    \<and> (\<forall>i. (\<forall>k t. bt_get (cs_tools s) k = Some t \<longrightarrow> ts_index t \<noteq> i) \<longrightarrow> sent_arguments i (items @ new) = [])"
proof -
  let ?states = "bt_values (cs_tools s)"
  have ok: "indexes_ok s" "sent_ok items s" "sent_text items = cs_text_seen s" "\<And>k. arguments_at s k = args k"
    using assms(2) by (auto simp: kept_def)
  have wf: "bt_wf (cs_tools s)" using ok(1) by (simp add: indexes_ok_def)
  from assms(1) obtain new1 where tools: "finish_tools cv ?states = (new1, Inr ())"
    and new: "sent_text new = sent_text new1" "\<And>i. sent_arguments i new = sent_arguments i new1"
    by (auto simp: finish_conversion_def fail_with_def yielding_eq_Inr split: if_splits sum.splits option.splits)
  note sent = finish_tools_sent [OF tools assms(3) distinct_indexes [OF ok(1)]]
  have "sent_arguments (ts_index t) (items @ new) = args k" if k: "bt_get (cs_tools s) k = Some t" for k t
  proof -
    have "t \<in> set ?states" using in_values_iff [OF wf] k by blast
    then show ?thesis using sent new ok(2) ok(4) [of k] k by (simp add: sent_ok_def arguments_at_def)
  qed
  moreover have "sent_arguments i (items @ new) = []" if "\<forall>k t. bt_get (cs_tools s) k = Some t \<longrightarrow> ts_index t \<noteq> i" for i
  proof -
    have "i \<notin> ts_index ` set ?states" using in_values_iff [OF wf] that by auto
    then show ?thesis using sent new ok(2) that by (simp add: sent_ok_def)
  qed
  ultimately show ?thesis using sent new ok(3) by simp
qed

text \<open>The blocks of the calls that have arguments.\<close>

lemma call_blocks:
  assumes ok: "indexes_ok s" and at: "\<And>k. arguments_at s k = args k"
    and own: "\<And>k t. bt_get (cs_tools s) k = Some t \<Longrightarrow> sent_arguments (ts_index t) items = args k"
    and other: "\<And>i. (\<forall>k t. bt_get (cs_tools s) k = Some t \<longrightarrow> ts_index t \<noteq> i) \<Longrightarrow> sent_arguments i items = []"
  shows "\<exists>index. inj_on index {k. args k \<noteq> []} \<and> (\<forall>k. args k \<noteq> [] \<longrightarrow> sent_arguments (index k) items = args k)
        \<and> (\<forall>i. i \<notin> index ` {k. args k \<noteq> []} \<longrightarrow> sent_arguments i items = [])"
proof -
  define index where "index k = ts_index (the (bt_get (cs_tools s) k))" for k
  have tool: "\<exists>t. bt_get (cs_tools s) k = Some t \<and> index k = ts_index t" if "args k \<noteq> []" for k
    using at [of k] that by (auto simp: arguments_at_def index_def split: option.splits)
  have "inj_on index {k. args k \<noteq> []}"
  proof (rule inj_onI)
    fix k k' assume k: "k \<in> {k. args k \<noteq> []}" "k' \<in> {k. args k \<noteq> []}" and same: "index k = index k'"
    from k(1) tool obtain t where t: "bt_get (cs_tools s) k = Some t" "index k = ts_index t" by blast
    from k(2) tool obtain t' where t': "bt_get (cs_tools s) k' = Some t'" "index k' = ts_index t'" by blast
    from t(2) t'(2) same have "ts_index t = ts_index t'" by simp
    then show "k = k'" by (rule indexes_ok_unique [OF ok t(1) t'(1)])
  qed
  moreover have "sent_arguments (index k) items = args k" if k: "args k \<noteq> []" for k
  proof -
    from tool [OF k] obtain t where "bt_get (cs_tools s) k = Some t" "index k = ts_index t" by blast
    with own show ?thesis by simp
  qed
  moreover have "sent_arguments i items = []" if i: "i \<notin> index ` {k. args k \<noteq> []}" for i
  proof (cases "\<exists>k t. bt_get (cs_tools s) k = Some t \<and> ts_index t = i")
    case True
    then obtain k t where k: "bt_get (cs_tools s) k = Some t" "ts_index t = i" by blast
    then have "index k = i" by (simp add: index_def)
    with i have "args k = []" by blast
    with own [OF k(1)] k(2) show ?thesis by simp
  next
    case False
    with other show ?thesis by blast
  qed
  ultimately show ?thesis by blast
qed


section \<open>Examples\<close>

definition example_choice :: stream_choice where
  "example_choice =
     \<lparr> sc_delta = \<lparr> sd_content = Some ''Hi'',
         sd_tool_calls = Some [\<lparr> tc_index = 0, tc_id = Some ''c1'',
           tc_function = Some \<lparr> fd_name = Some ''f'', fd_arguments = Some ''{}'' \<rparr> \<rparr>], sd_function_call = None \<rparr>,
       sc_finish_reason = Some ''tool_calls'' \<rparr>"

definition example_converter :: "unit converter" where
  "example_converter =
     \<lparr> cv_message_uuid = ''u'', cv_tool_uuid = (\<lambda>_. ''u''), cv_model = ''m'', cv_dedup_text = False, cv_dedup_arguments = False,
       cv_policy = \<lparr> tp_validation = BestEffortValidation, tp_allowed_names = None, tp_input_validators = [],
                     tp_minimum_calls = 0, tp_maximum_calls = None \<rparr>,
       cv_parse_chunk = (\<lambda>_. Inr \<lparr> ck_choices = [example_choice], ck_usage = None \<rparr>), cv_from_str = (\<lambda>_. Inr (JObj [])),
       cv_first_value = (\<lambda>_. None), cv_validate = (\<lambda>_ _. None) \<rparr>"

lemma example_data: "data_lines (example_frame) = [''hi'']"
  by code_simp

lemma example_choices: "choices_read example_converter [Inr example_frame] = [example_choice]"
  by (simp add: choices_read_def example_data example_converter_def finishes_def example_choice_def)

lemma example_run:
  "openai_stream_to_anthropic example_converter [Inr example_frame]
     = ([Emit (MessageStart ''msg_u'' ''m''), Observe 0 True (Some ''tool_calls''), Emit (TextStart 0), Emit (TextDelta 0 ''Hi''),
         Observe 1 True (Some ''tool_calls''), Emit (ToolStart 1 ''c1'' ''f''), Emit (JsonDelta 1 ''{}''),
         Observe 1 True (Some ''tool_calls''), Complete, Emit (BlockStop 0), Emit (BlockStop 1),
         Emit (MessageDelta ''tool_use'' 0), Emit MessageStop], Inr ())"
  by (simp add: openai_stream_to_anthropic_def example_data example_converter_def example_choice_def yielding.simps
      chunk_step_def usage_items_def start_message_def choice_step_def note_finish_def stream_finish_reason_def text_delta_def
      text_step_def calls_step_def tool_call_step_def entry_or_insert_def new_tool_state_def store_function_def
      ingest_tool_arguments_def advance_tool_def pending_tool_arguments_event_if_started_def pending_tool_arguments_event_def
      start_tool_state_def validate_name_def or_default_def sat_add_def u64_max_def new_conversion_def
      finish_conversion_def validation_def bt_values_def validate_arguments_def parse_arguments_def validate_call_summary_def
      finish_tool_def stop_tool_def and_then_def Let_def)


section \<open>Calls beside an empty text\<close>

text \<open>
  C32: A choice with an empty text fragment loses the calls beside it: it is converted exactly as if
  it had none.  Servers that open a tool call with an empty text next to its name and id therefore
  have the name and id of the call dropped.
\<close>
theorem empty_text_drops_calls:
  "choice_step cv (choice\<lparr> sc_delta := \<lparr> sd_content = Some [], sd_tool_calls = calls, sd_function_call = f \<rparr> \<rparr>) s
     = choice_step cv (choice\<lparr> sc_delta := \<lparr> sd_content = Some [], sd_tool_calls = None, sd_function_call = None \<rparr> \<rparr>) s"
  by (simp add: choice_step_def text_delta_def)

end
