(* ===== verification/Client_Address.thy ===== *)
theory Client_Address
  imports Egress_Policy
begin

text \<open>
  Which address a request comes from, \<^verbatim>\<open>src/routes.rs\<close>: the trusted proxies and the walk along
  the forwarding header.
\<close>

section \<open>Trusted proxies\<close>

datatype proxy_rule = Exact ip_addr | Cidr ip_addr nat

definition parse_ip_rule :: "string \<Rightarrow> proxy_rule option" where
  "parse_ip_rule value =
     (case parse_ip value of
        Some ip \<Rightarrow> Some (Exact ip)
      | None \<Rightarrow>
          Option.bind (split_once CHR ''/'' value) (\<lambda>(base, pre).
          Option.bind (parse_ip base) (\<lambda>base.
          Option.bind (parse_uint 255 pre) (\<lambda>pre.
            if pre > max_prefix base then None else Some (Cidr base pre)))))"

fun proxy_rule_matches :: "proxy_rule \<Rightarrow> ip_addr \<Rightarrow> bool" where
  "proxy_rule_matches (Exact exact) ip \<longleftrightarrow> exact = ip"
| "proxy_rule_matches (Cidr base pre) ip \<longleftrightarrow>
     (if is_v4 ip then is_v4 base \<and> pre \<le> 32 \<and> cidr_matches (ip_bits base) (ip_bits ip) pre 32
      else \<not> is_v4 base \<and> pre \<le> 128 \<and> cidr_matches (ip_bits base) (ip_bits ip) pre 128)"

fun parse_proxy_rules :: "string list \<Rightarrow> proxy_rule list result" where
  "parse_proxy_rules [] = Inr []"
| "parse_proxy_rules (item # items) =
     and_then (ok_or (Config (''invalid MODELPORT_TRUSTED_PROXIES entry: '' @ item)) (parse_ip_rule item)) (\<lambda>rule.
     and_then (parse_proxy_rules items) (\<lambda>rules. Inr (rule # rules)))"

definition loopback_rules :: "proxy_rule list" where
  "loopback_rules = [Exact (V4 127 0 0 1), Exact (V6 [0, 0, 0, 0, 0, 0, 0, 1])]"

definition proxies_from_value :: "string option \<Rightarrow> proxy_rule list result" where
  "proxies_from_value value =
     (case value of
        None \<Rightarrow> Inr loopback_rules
      | Some value \<Rightarrow>
          and_then (parse_proxy_rules (filter (\<lambda>item. item \<noteq> []) (map trim (split_on CHR '','' value))))
            (\<lambda>rules. Inr (loopback_rules @ rules)))"

definition is_trusted :: "proxy_rule list \<Rightarrow> ip_addr \<Rightarrow> bool" where
  "is_trusted rules ip \<longleftrightarrow> is_loopback ip \<or> list_ex (\<lambda>rule. proxy_rule_matches rule ip) rules"

section \<open>The client\<close>

definition parse_ip_with_optional_port :: "string \<Rightarrow> ip_addr option" where
  "parse_ip_with_optional_port value =
     (let value = trim value
      in case parse_ip value of
           Some ip \<Rightarrow> Some ip
         | None \<Rightarrow> Option.bind (rsplit_once CHR '':'' value) (\<lambda>(host, _). parse_ip host))"

definition single_ip_header :: "header_lines \<Rightarrow> string \<Rightarrow> ip_addr option" where
  "single_ip_header headers name = Option.bind (header_text headers name) parse_ip_with_optional_port"

definition forwarded_client_ip :: "header_lines \<Rightarrow> ip_addr \<Rightarrow> proxy_rule list \<Rightarrow> ip_addr option" where
  "forwarded_client_ip headers peer_ip trusted_proxies =
     (let chain = (case header_text headers ''x-forwarded-for'' of
                     Some value \<Rightarrow> List.map_filter parse_ip_with_optional_port (split_on CHR '','' value)
                   | None \<Rightarrow> [])
      in if chain \<noteq> []
         then (case find (\<lambda>ip. \<not> is_trusted trusted_proxies ip) (rev (chain @ [peer_ip])) of
                 Some client \<Rightarrow> Some client
               | None \<Rightarrow> Some peer_ip)
         else (case single_ip_header headers ''x-real-ip'' of
                 Some ip \<Rightarrow> Some ip
               | None \<Rightarrow> single_ip_header headers ''cf-connecting-ip''))"

definition client_ip :: "header_lines \<Rightarrow> ip_addr option \<Rightarrow> proxy_rule list \<Rightarrow> string option" where
  "client_ip headers peer_addr trusted_proxies =
     (case peer_addr of
        None \<Rightarrow> None
      | Some peer \<Rightarrow>
          (case (if is_trusted trusted_proxies peer then forwarded_client_ip headers peer trusted_proxies else None) of
             Some ip \<Rightarrow> Some (show_ip ip)
           | None \<Rightarrow> Some (show_ip peer)))"

section \<open>What a client can choose\<close>

lemma split_on_ne [simp]: "split_on d s \<noteq> []"
  by (induction s) (auto split: list.splits)

lemma split_on_append: "split_on d (s @ d # t) = split_on d s @ split_on d t"
  by (induction s) (auto split: list.splits)

lemma split_on_single: "d \<notin> set s \<Longrightarrow> split_on d s = [s]"
  by (induction s) auto

lemma split_on_hops:
  "d \<notin> set h \<Longrightarrow> (\<forall>h \<in> set hs. d \<notin> set h) \<Longrightarrow> split_on d (h @ concat (map (Cons d) hs)) = h # hs"
  by (induction hs arbitrary: h) (auto simp: split_on_single split_on_append)

lemma find_append: "find P (xs @ ys) = (case find P xs of Some x \<Rightarrow> Some x | None \<Rightarrow> find P ys)"
  by (induction xs) auto

text \<open>
  C33: A client cannot choose its address.  When the connection comes from a trusted proxy and the
  proxies append to the forwarding header, the address is that of the last hop which is not
  a trusted proxy, whatever the client wrote in the header before it.  Entries after that hop
  are trusted proxies or no addresses.
\<close>
theorem client_address_is_not_chosen:
  assumes "is_trusted rules peer" and "\<not> is_trusted rules client"
    and hop: "parse_ip_with_optional_port hop = Some client" "CHR '','' \<notin> set hop"
    and hops: "list_all (\<lambda>h. CHR '','' \<notin> set h \<and> (case parse_ip_with_optional_port h of Some ip \<Rightarrow> is_trusted rules ip | None \<Rightarrow> True)) hops"
    and shown: "header_text headers ''x-forwarded-for'' = Some (written @ CHR '','' # hop @ concat (map (Cons CHR '','') hops))"
  shows "client_ip headers (Some peer) rules = Some (show_ip client)"
proof -
  let ?parse = "List.map_filter parse_ip_with_optional_port" and ?untrusted = "\<lambda>ip. \<not> is_trusted rules ip"
  have "split_on CHR '','' (hop @ concat (map (Cons CHR '','') hops)) = hop # hops"
    using hop(2) hops by (intro split_on_hops) (auto simp: list_all_iff)
  then have chain: "?parse (split_on CHR '','' (written @ CHR '','' # hop @ concat (map (Cons CHR '','') hops)))
      = ?parse (split_on CHR '','' written) @ client # ?parse hops"
    using hop(1) by (simp add: split_on_append List.map_filter_def)
  have "\<forall>ip \<in> set (?parse hops). is_trusted rules ip"
    using hops by (fastforce simp: List.map_filter_def list_all_iff split: option.splits)
  then have "find ?untrusted (rev (?parse hops)) = None" by (auto simp: find_None_iff)
  then have "find ?untrusted (rev ((?parse (split_on CHR '','' written) @ client # ?parse hops) @ [peer])) = Some client"
    using assms(1,2) by (simp add: find_append)
  then have "forwarded_client_ip headers peer rules = Some client"
    by (simp add: forwarded_client_ip_def shown chain)
  then show ?thesis using assms(1) by (simp add: client_ip_def)
qed

theorem client_address_is_not_chosen_witness:
  "client_ip [(''x-forwarded-for'', ''1.2.3.4,203.0.113.9,127.0.0.1'')] (Some (V4 127 0 0 1)) loopback_rules = Some ''203.0.113.9''"
proof -
  have "client_ip [(''x-forwarded-for'', ''1.2.3.4,203.0.113.9,127.0.0.1'')] (Some (V4 127 0 0 1)) loopback_rules
      = Some (show_ip (V4 203 0 113 9))"
    by (rule client_address_is_not_chosen [where hop = "''203.0.113.9''" and written = "''1.2.3.4''" and hops = "[''127.0.0.1'']"])
      code_simp+
  then show ?thesis by (simp add: show_ip.simps) code_simp
qed

text \<open>An untrusted connection is taken by its own address, headers or not.\<close>

lemma untrusted_peer_is_the_client: "\<not> is_trusted rules peer \<Longrightarrow> client_ip headers (Some peer) rules = Some (show_ip peer)"
  by (simp add: client_ip_def)

text \<open>A proxy that adds a header line of its own instead of appending to the last one is not heard:
  the first line is the client's.\<close>

lemma repeated_header_is_spoofed:
  "client_ip [(''x-forwarded-for'', ''1.2.3.4''), (''x-forwarded-for'', ''203.0.113.9'')] (Some (V4 127 0 0 1)) loopback_rules
     = Some ''1.2.3.4''"
  by code_simp

end
