(* ===== verification/Rate_Limiter.thy ===== *)
theory Rate_Limiter
  imports Policy
begin

text \<open>
  The request rate limiter, \<^verbatim>\<open>src/routes.rs\<close>: a window of admission times per key, checked for all
  keys of a request before any is charged.  The lock makes a check one step; the clock is read once.
\<close>

section \<open>Windows\<close>

record rate_limit_config =
  rl_enabled :: bool
  rl_window_ms :: u64
  rl_global_per_minute :: u32
  rl_api_key_per_minute :: u32
  rl_ip_per_minute :: u32
  rl_provider_per_minute :: u32
  rl_model_per_minute :: u32

type_synonym rate_windows = "(string, u64 list) btree"
type_synonym rate_rule = "string \<times> u32 \<times> string"

definition prune_rate_window :: "string \<Rightarrow> u64 \<Rightarrow> rate_windows \<Rightarrow> rate_windows" where
  "prune_rate_window key window_start windows = bt_update key (dropWhile (\<lambda>t. t < window_start)) windows"

definition div_ceil :: "nat \<Rightarrow> nat \<Rightarrow> nat" where
  "div_ceil a b = (a + b - 1) div b"

definition rate_limited :: "rate_limit_config \<Rightarrow> u64 \<Rightarrow> u32 \<Rightarrow> string \<Rightarrow> u64 list \<Rightarrow> app_error" where
  "rate_limited cfg now limit message timestamps =
     (let retry_after_secs = (case timestamps of
            [] \<Rightarrow> 1
          | oldest # _ \<Rightarrow> max (div_ceil (sat_add oldest (rl_window_ms cfg) - now) 1000) 1);
          window_seconds = max (div_ceil (rl_window_ms cfg) 1000) 1
      in RateLimited (message @ ''; limit='' @ show_nat limit @ ''/'' @ show_nat window_seconds @ ''s'') retry_after_secs)"

fun rules_exceeded :: "rate_limit_config \<Rightarrow> u64 \<Rightarrow> u64 \<Rightarrow> rate_rule list \<Rightarrow> rate_windows \<Rightarrow> unit result \<times> rate_windows" where
  "rules_exceeded cfg now window_start [] windows = (Inr (), windows)"
| "rules_exceeded cfg now window_start ((key, limit, message) # rules) windows =
     (let windows = prune_rate_window key window_start windows
      in case bt_get windows key of
           Some timestamps \<Rightarrow>
             if limit > 0 \<and> length timestamps \<ge> limit then (Inl (rate_limited cfg now limit message timestamps), windows)
             else rules_exceeded cfg now window_start rules windows
         | None \<Rightarrow> rules_exceeded cfg now window_start rules windows)"

definition push_back :: "u64 \<Rightarrow> rate_rule \<Rightarrow> rate_windows \<Rightarrow> rate_windows" where
  "push_back now rule windows =
     (case rule of (key, limit, _) \<Rightarrow>
        if limit = 0 then windows
        else bt_insert key ((case bt_get windows key of Some ts \<Rightarrow> ts | None \<Rightarrow> []) @ [now]) windows)"

definition retain_windows :: "u64 \<Rightarrow> rate_windows \<Rightarrow> rate_windows" where
  "retain_windows window_start windows =
     bt_retain (\<lambda>_ ts. ts \<noteq> []) (bt_map_values (dropWhile (\<lambda>t. t < window_start)) windows)"

definition check_rules :: "rate_limit_config \<Rightarrow> u64 \<Rightarrow> rate_rule list \<Rightarrow> rate_windows \<Rightarrow> unit result \<times> rate_windows" where
  "check_rules cfg now rules windows =
     (let window_start = now - rl_window_ms cfg
      in case rules_exceeded cfg now window_start rules windows of
           (Inl e, windows) \<Rightarrow> (Inl e, windows)
         | (Inr _, windows) \<Rightarrow> (Inr (), retain_windows window_start (fold (push_back now) rules windows)))"

section \<open>Requests\<close>

record rate_limit_scope =
  rs_quota_subject_id :: "string option"
  rs_client_ip :: "string option"
  rs_provider_id :: "string option"
  rs_model :: "string option"

definition provider_rule :: "rate_limit_config \<Rightarrow> string \<Rightarrow> rate_rule" where
  "provider_rule cfg provider_id =
     (''provider:'' @ provider_id, rl_provider_per_minute cfg, ''provider request rate limit exceeded'')"

definition model_rule :: "rate_limit_config \<Rightarrow> string \<Rightarrow> rate_rule" where
  "model_rule cfg model = (''model:'' @ model, rl_model_per_minute cfg, ''model request rate limit exceeded'')"

definition scope_rules :: "rate_limit_config \<Rightarrow> rate_limit_scope \<Rightarrow> rate_rule list" where
  "scope_rules cfg scope =
     [(''global:inference'', rl_global_per_minute cfg, ''global request rate limit exceeded''),
      (''api-key:'' @ (case rs_quota_subject_id scope of Some i \<Rightarrow> i | None \<Rightarrow> ''legacy-router-token''),
       rl_api_key_per_minute cfg, ''API key request rate limit exceeded'')]
     @ (case rs_client_ip scope of
          Some ip \<Rightarrow> [(''ip:'' @ ip, rl_ip_per_minute cfg, ''client IP request rate limit exceeded'')]
        | None \<Rightarrow> [])
     @ (case rs_provider_id scope of Some provider_id \<Rightarrow> [provider_rule cfg provider_id] | None \<Rightarrow> [])
     @ (case rs_model scope of Some model \<Rightarrow> [model_rule cfg model] | None \<Rightarrow> [])"

definition rate_check :: "rate_limit_config \<Rightarrow> u64 \<Rightarrow> rate_limit_scope \<Rightarrow> rate_windows \<Rightarrow> unit result \<times> rate_windows" where
  "rate_check cfg now scope windows =
     (if \<not> rl_enabled cfg then (Inr (), windows) else check_rules cfg now (scope_rules cfg scope) windows)"

definition attempt_rules :: "rate_limit_config \<Rightarrow> string \<Rightarrow> string \<Rightarrow> rate_rule list" where
  "attempt_rules cfg provider_id model = [provider_rule cfg provider_id, model_rule cfg model]"

definition check_provider_attempt ::
  "rate_limit_config \<Rightarrow> u64 \<Rightarrow> string \<Rightarrow> string \<Rightarrow> rate_windows \<Rightarrow> unit result \<times> rate_windows" where
  "check_provider_attempt cfg now provider_id model windows =
     (if \<not> rl_enabled cfg then (Inr (), windows) else check_rules cfg now (attempt_rules cfg provider_id model) windows)"

text \<open>A run: calls with the time of each, and which of them were admitted.\<close>

datatype rate_call = CheckScope rate_limit_scope | CheckAttempt string string

fun call_rules :: "rate_limit_config \<Rightarrow> rate_call \<Rightarrow> rate_rule list" where
  "call_rules cfg (CheckScope scope) = scope_rules cfg scope"
| "call_rules cfg (CheckAttempt provider_id model) = attempt_rules cfg provider_id model"

fun call_limiter :: "rate_limit_config \<Rightarrow> u64 \<Rightarrow> rate_call \<Rightarrow> rate_windows \<Rightarrow> unit result \<times> rate_windows" where
  "call_limiter cfg now (CheckScope scope) windows = rate_check cfg now scope windows"
| "call_limiter cfg now (CheckAttempt provider_id model) windows = check_provider_attempt cfg now provider_id model windows"

fun run_limiter :: "rate_limit_config \<Rightarrow> (u64 \<times> rate_call) list \<Rightarrow> rate_windows \<Rightarrow> bool list" where
  "run_limiter cfg [] windows = []"
| "run_limiter cfg ((now, c) # calls) windows =
     (case call_limiter cfg now c windows of (r, windows) \<Rightarrow> is_ok r # run_limiter cfg calls windows)"

section \<open>The specification: a log of admissions\<close>

type_synonym admission_log = "(string \<times> u64) list"

definition admissions_since :: "admission_log \<Rightarrow> string \<Rightarrow> u64 \<Rightarrow> nat" where
  "admissions_since lg key since = length (filter (\<lambda>(k, t). k = key \<and> since \<le> t) lg)"

definition within_limits :: "rate_limit_config \<Rightarrow> u64 \<Rightarrow> rate_call \<Rightarrow> admission_log \<Rightarrow> bool" where
  "within_limits cfg now c lg \<longleftrightarrow>
     list_all (\<lambda>(key, limit, _). limit = 0 \<or> admissions_since lg key (now - rl_window_ms cfg) < limit) (call_rules cfg c)"

definition charge :: "rate_limit_config \<Rightarrow> u64 \<Rightarrow> rate_call \<Rightarrow> admission_log \<Rightarrow> admission_log" where
  "charge cfg now c lg = lg @ map (\<lambda>(key, _). (key, now)) (filter (\<lambda>(_, limit, _). limit \<noteq> 0) (call_rules cfg c))"

fun run_log :: "rate_limit_config \<Rightarrow> (u64 \<times> rate_call) list \<Rightarrow> admission_log \<Rightarrow> bool list \<times> admission_log" where
  "run_log cfg [] lg = ([], lg)"
| "run_log cfg ((now, c) # calls) lg =
     (let ok = within_limits cfg now c lg;
          (oks, lg') = run_log cfg calls (if ok then charge cfg now c lg else lg)
      in (ok # oks, lg'))"

section \<open>The windows are the end of the log\<close>

definition times_of :: "admission_log \<Rightarrow> string \<Rightarrow> u64 list" where
  "times_of lg key = map snd (filter (\<lambda>(k, _). k = key) lg)"

definition window_of :: "rate_windows \<Rightarrow> string \<Rightarrow> u64 list" where
  "window_of windows key = (case bt_get windows key of Some ts \<Rightarrow> ts | None \<Rightarrow> [])"

definition represents :: "u64 \<Rightarrow> rate_windows \<Rightarrow> admission_log \<Rightarrow> bool" where
  "represents since windows lg \<longleftrightarrow>
     bt_wf windows \<and> sorted (map snd lg)
   \<and> (\<forall>key. \<exists>s \<le> since. window_of windows key = filter (\<lambda>t. s \<le> t) (times_of lg key))"

lemma sorted_times: "sorted (map snd lg) \<Longrightarrow> sorted (times_of lg key)"
  by (simp add: times_of_def sorted_map sorted_wrt_filter)

lemma dropWhile_sorted: "sorted ts \<Longrightarrow> dropWhile (\<lambda>t. t < (a::nat)) ts = filter (\<lambda>t. a \<le> t) ts"
  by (induction ts) (auto intro!: filter_True [symmetric])

lemma dropWhile_window:
  assumes "sorted ts" and "s \<le> (a::nat)"
  shows "dropWhile (\<lambda>t. t < a) (filter (\<lambda>t. s \<le> t) ts) = filter (\<lambda>t. a \<le> t) ts"
proof -
  have "sorted (filter (\<lambda>t. s \<le> t) ts)" using assms(1) by (simp add: sorted_wrt_filter)
  then show ?thesis using assms(2) by (auto simp: dropWhile_sorted intro!: filter_cong)
qed

lemma represents_mono: "represents a windows lg \<Longrightarrow> a \<le> b \<Longrightarrow> represents b windows lg"
  unfolding represents_def by (meson order_trans)

lemma prune_represents:
  assumes "represents since windows lg"
  shows "represents since (prune_rate_window key since windows) lg"
    and "window_of (prune_rate_window key since windows) key = filter (\<lambda>t. since \<le> t) (times_of lg key)"
proof -
  obtain s where s: "s \<le> since" "window_of windows key = filter (\<lambda>t. s \<le> t) (times_of lg key)"
    using assms by (auto simp: represents_def)
  have "window_of (prune_rate_window key since windows) key = dropWhile (\<lambda>t. t < since) (window_of windows key)"
    by (simp add: prune_rate_window_def window_of_def split: option.splits)
  with s show key: "window_of (prune_rate_window key since windows) key = filter (\<lambda>t. since \<le> t) (times_of lg key)"
    using assms by (simp add: represents_def sorted_times dropWhile_window)
  have other: "window_of (prune_rate_window key since windows) k = window_of windows k" if "k \<noteq> key" for k
    using that by (simp add: prune_rate_window_def window_of_def)
  have "\<exists>s \<le> since. window_of (prune_rate_window key since windows) k = filter (\<lambda>t. s \<le> t) (times_of lg k)" for k
    using assms key other by (cases "k = key") (auto simp: represents_def)
  then show "represents since (prune_rate_window key since windows) lg"
    using assms by (simp add: represents_def prune_rate_window_def)
qed

lemma admissions_since_times: "admissions_since lg key since = length (filter (\<lambda>t. since \<le> t) (times_of lg key))"
  by (simp add: admissions_since_def times_of_def filter_map comp_def case_prod_unfold conj_commute)

lemma rules_exceeded_spec:
  assumes "represents since windows lg" and "rules_exceeded cfg now since rules windows = (r, windows')"
  shows "represents since windows' lg
    \<and> (is_ok r \<longleftrightarrow> list_all (\<lambda>(key, limit, _). limit = 0 \<or> admissions_since lg key since < limit) rules)"
  using assms
proof (induction cfg now since rules windows rule: rules_exceeded.induct)
  case (1 cfg now window_start windows)
  then show ?case by auto
next
  case (2 cfg now since key limit message rules windows)
  let ?w = "prune_rate_window key since windows"
  note pruned = prune_represents [OF 2(3), of key]
  have counted: "admissions_since lg key since = length (window_of ?w key)"
    by (simp add: admissions_since_times pruned(2))
  show ?case
  proof (cases "bt_get ?w key")
    case None
    then show ?thesis using 2(1) [OF refl None pruned(1)] 2(4) counted by (auto simp: window_of_def)
  next
    case (Some ts)
    then have len: "admissions_since lg key since = length ts" using counted by (simp add: window_of_def)
    show ?thesis
    proof (cases "limit > 0 \<and> length ts \<ge> limit")
      case True
      then show ?thesis using 2(4) Some pruned(1) len by (auto simp: Let_def)
    next
      case False
      then show ?thesis using 2(2) [OF refl Some False pruned(1)] 2(4) Some len by (auto simp: Let_def)
    qed
  qed
qed

lemma times_of_snoc: "times_of (lg @ [(k, t)]) key = times_of lg key @ (if k = key then [t] else [])"
  by (simp add: times_of_def)

lemma push_represents:
  assumes "represents since windows lg" and "since \<le> now" and "\<forall>t \<in> set (map snd lg). t \<le> now" and "limit \<noteq> 0"
  shows "represents since (push_back now (key, limit, message) windows) (lg @ [(key, now)])"
  unfolding represents_def
proof (intro conjI allI)
  show "bt_wf (push_back now (key, limit, message) windows)" "sorted (map snd (lg @ [(key, now)]))"
    using assms by (auto simp: represents_def push_back_def sorted_append)
  fix k
  obtain s where s: "s \<le> since" "window_of windows k = filter (\<lambda>t. s \<le> t) (times_of lg k)"
    using assms(1) by (auto simp: represents_def)
  have "window_of (push_back now (key, limit, message) windows) k = window_of windows k @ (if key = k then [now] else [])"
    using assms(4) by (simp add: push_back_def window_of_def)
  with s assms(2) show "\<exists>s \<le> since. window_of (push_back now (key, limit, message) windows) k
      = filter (\<lambda>t. s \<le> t) (times_of (lg @ [(key, now)]) k)"
    by (intro exI [of _ s]) (simp add: times_of_snoc)
qed

lemma push_all_represents:
  assumes "represents since windows lg" and "since \<le> now" and "\<forall>t \<in> set (map snd lg). t \<le> now"
  shows "represents since (fold (push_back now) rules windows)
    (lg @ map (\<lambda>(key, _). (key, now)) (filter (\<lambda>(_, limit, _). limit \<noteq> 0) rules))"
  using assms(1,3)
proof (induction rules arbitrary: windows lg)
  case (Cons rule rules)
  obtain key limit message where rule: "rule = (key, limit, message)" by (cases rule)
  show ?case
  proof (cases "limit = 0")
    case True
    then show ?thesis using Cons.IH [OF Cons.prems] by (simp add: rule push_back_def)
  next
    case False
    from Cons.IH [OF push_represents [OF Cons.prems(1) assms(2) Cons.prems(2) False]] Cons.prems(2) False
    show ?thesis by (auto simp: rule)
  qed
qed simp

lemma retain_represents:
  assumes "represents since windows lg"
  shows "represents since (retain_windows since windows) lg"
  unfolding represents_def
proof (intro conjI allI)
  show "bt_wf (retain_windows since windows)" "sorted (map snd lg)" using assms by (simp_all add: represents_def retain_windows_def)
  fix k
  obtain s where s: "s \<le> since" "window_of windows k = filter (\<lambda>t. s \<le> t) (times_of lg k)"
    using assms by (auto simp: represents_def)
  have "window_of (retain_windows since windows) k = dropWhile (\<lambda>t. t < since) (window_of windows k)"
    using assms by (cases "bt_get windows k")
      (auto simp: represents_def window_of_def retain_windows_def bt_get_retain simp del: dropWhile_eq_Nil_conv)
  with s assms show "\<exists>s \<le> since. window_of (retain_windows since windows) k = filter (\<lambda>t. s \<le> t) (times_of lg k)"
    by (intro exI [of _ since]) (simp add: represents_def sorted_times dropWhile_window)
qed

lemma call_limiter_eq: "rl_enabled cfg \<Longrightarrow> call_limiter cfg now c windows = check_rules cfg now (call_rules cfg c) windows"
  by (cases c) (simp_all add: rate_check_def check_provider_attempt_def)

text \<open>One call decides and charges as the specification does.\<close>

lemma call_limiter_spec:
  assumes "rl_enabled cfg" and "represents (now - rl_window_ms cfg) windows lg" and "\<forall>t \<in> set (map snd lg). t \<le> now"
    and "call_limiter cfg now c windows = (r, windows')"
  shows "is_ok r = within_limits cfg now c lg
    \<and> represents (now - rl_window_ms cfg) windows' (if within_limits cfg now c lg then charge cfg now c lg else lg)"
proof -
  let ?since = "now - rl_window_ms cfg"
  obtain r0 w0 where ex: "rules_exceeded cfg now ?since (call_rules cfg c) windows = (r0, w0)" by fastforce
  note spec = rules_exceeded_spec [OF assms(2) ex, folded within_limits_def]
  show ?thesis
  proof (cases r0)
    case (Inl e)
    with assms(4) ex spec show ?thesis by (auto simp: call_limiter_eq [OF assms(1)] check_rules_def)
  next
    case (Inr u)
    have "represents ?since (retain_windows ?since (fold (push_back now) (call_rules cfg c) w0)) (charge cfg now c lg)"
      unfolding charge_def using spec assms(3) by (intro retain_represents push_all_represents) auto
    with assms(4) ex spec Inr show ?thesis
      by (auto simp: call_limiter_eq [OF assms(1)] check_rules_def within_limits_def)
  qed
qed

lemma charge_times: "\<forall>t \<in> set (map snd lg). t \<le> now \<Longrightarrow> \<forall>t \<in> set (map snd (charge cfg now c lg)). t \<le> now"
  by (auto simp: charge_def)

lemma run_limiter_eq:
  assumes "rl_enabled cfg"
  shows "sorted (map fst calls) \<Longrightarrow> represents since windows lg \<Longrightarrow>
    (\<forall>(now, c) \<in> set calls. since \<le> now - rl_window_ms cfg \<and> (\<forall>t \<in> set (map snd lg). t \<le> now)) \<Longrightarrow>
    run_limiter cfg calls windows = fst (run_log cfg calls lg)"
proof (induction calls arbitrary: windows lg since)
  case (Cons x calls)
  obtain now c where x: "x = (now, c)" by (cases x)
  obtain r w where call: "call_limiter cfg now c windows = (r, w)" by fastforce
  have le: "\<forall>t \<in> set (map snd lg). t \<le> now" and since: "since \<le> now - rl_window_ms cfg" using Cons.prems(3) by (auto simp: x)
  let ?lg = "if within_limits cfg now c lg then charge cfg now c lg else lg"
  note spec = call_limiter_spec [OF assms represents_mono [OF Cons.prems(2) since] le call]
  have "\<forall>t \<in> set (map snd ?lg). t \<le> now" using charge_times [OF le] le by simp
  then have "\<forall>(n, d) \<in> set calls. now - rl_window_ms cfg \<le> n - rl_window_ms cfg \<and> (\<forall>t \<in> set (map snd ?lg). t \<le> n)"
    using Cons.prems(1) by (fastforce simp: x intro: diff_le_mono)
  with Cons.IH [of "now - rl_window_ms cfg" w ?lg] Cons.prems(1) spec show ?case
    by (simp add: x call Let_def case_prod_unfold)
qed simp

section \<open>The bound\<close>

lemma call_rules_distinct: "distinct (map fst (call_rules cfg c))"
  by (cases c) (auto simp: scope_rules_def attempt_rules_def provider_rule_def model_rule_def split: option.splits)

lemma call_rules_agree:
  "(key, l1, m1) \<in> set (call_rules cfg c1) \<Longrightarrow> (key, l2, m2) \<in> set (call_rules cfg c2) \<Longrightarrow> l1 = l2"
  by (cases c1; cases c2) (auto simp: scope_rules_def attempt_rules_def provider_rule_def model_rule_def split: option.splits)

definition admissions_between :: "admission_log \<Rightarrow> string \<Rightarrow> u64 \<Rightarrow> u64 \<Rightarrow> nat" where
  "admissions_between lg key a b = length (filter (\<lambda>(k, t). k = key \<and> a \<le> t \<and> t \<le> b) lg)"

lemma charges_once:
  "distinct (map fst rs) \<Longrightarrow>
   length (filter (\<lambda>(k, t). k = key \<and> P t) (map (\<lambda>(key, _). (key, now)) (filter (\<lambda>(_, limit, _). limit \<noteq> (0::nat)) rs)))
     \<le> (if P now \<and> key \<in> fst ` set rs then 1 else 0)"
  by (induction rs) (force split: if_splits)+

lemma charge_between:
  "admissions_between (charge cfg now c lg) key a b \<le> admissions_between lg key a b + (if a \<le> now \<and> now \<le> b then 1 else 0)"
  using charges_once [OF call_rules_distinct [of cfg c], of key "\<lambda>t. a \<le> t \<and> t \<le> b" now]
  by (auto simp: admissions_between_def charge_def split: if_splits)

lemma charge_other: "key \<notin> fst ` set (call_rules cfg c) \<Longrightarrow> admissions_between (charge cfg now c lg) key a b = admissions_between lg key a b"
  by (auto simp: admissions_between_def charge_def filter_empty_conv image_iff)

lemma between_le_since:
  assumes "\<forall>t \<in> set (map snd lg). t \<le> now" and "now \<le> b"
  shows "admissions_between lg key (b - w) b \<le> admissions_since lg key (now - w)"
proof -
  have "length (filter (\<lambda>(k, t). k = key \<and> b - w \<le> t \<and> t \<le> b) lg) \<le> length (filter (\<lambda>(k, t). k = key \<and> now - w \<le> t) lg)"
    using assms(2) by (induction lg) (auto simp: diff_le_mono intro: order_trans)
  then show ?thesis by (simp add: admissions_between_def admissions_since_def)
qed

definition log_bounded :: "rate_limit_config \<Rightarrow> string \<Rightarrow> nat \<Rightarrow> admission_log \<Rightarrow> bool" where
  "log_bounded cfg key limit lg \<longleftrightarrow> (\<forall>b. admissions_between lg key (b - rl_window_ms cfg) b \<le> limit)"

lemma charge_bounded:
  assumes "log_bounded cfg key limit lg" and "within_limits cfg now c lg" and "\<forall>t \<in> set (map snd lg). t \<le> now"
    and own: "\<And>l m. (key, l, m) \<in> set (call_rules cfg c) \<Longrightarrow> l = limit" and "0 < limit"
  shows "log_bounded cfg key limit (charge cfg now c lg)"
  unfolding log_bounded_def
proof
  fix b
  let ?w = "rl_window_ms cfg"
  show "admissions_between (charge cfg now c lg) key (b - ?w) b \<le> limit"
  proof (cases "now \<le> b \<and> key \<in> fst ` set (call_rules cfg c)")
    case True
    then obtain l m where "(key, l, m) \<in> set (call_rules cfg c)" by auto
    with own have "(key, limit, m) \<in> set (call_rules cfg c)" by blast
    with assms(2,5) have "admissions_since lg key (now - ?w) < limit" by (auto simp: within_limits_def list_all_iff)
    with between_le_since [OF assms(3), of b key ?w] charge_between [of cfg now c lg key "b - ?w" b] True show ?thesis
      by (auto split: if_splits)
  next
    case False
    have "admissions_between lg key (b - ?w) b \<le> limit" using assms(1) by (simp add: log_bounded_def)
    then show ?thesis
      using False charge_between [of cfg now c lg key "b - ?w" b] charge_other [of key cfg c now lg "b - ?w" b]
      by (cases "now \<le> b") auto
  qed
qed

lemma run_log_bounded:
  assumes "0 < limit" and "\<And>now c l m. (now, c) \<in> set calls \<Longrightarrow> (key, l, m) \<in> set (call_rules cfg c) \<Longrightarrow> l = limit"
  shows "sorted (map fst calls) \<Longrightarrow> log_bounded cfg key limit lg \<Longrightarrow>
    (\<forall>(now, c) \<in> set calls. \<forall>t \<in> set (map snd lg). t \<le> now) \<Longrightarrow> log_bounded cfg key limit (snd (run_log cfg calls lg))"
  using assms(2)
proof (induction calls arbitrary: lg)
  case (Cons x calls)
  obtain now c where x: "x = (now, c)" by (cases x)
  let ?lg = "if within_limits cfg now c lg then charge cfg now c lg else lg"
  have le: "\<forall>t \<in> set (map snd lg). t \<le> now" using Cons.prems(3) by (simp add: x)
  have own: "\<And>l m. (key, l, m) \<in> set (call_rules cfg c) \<Longrightarrow> l = limit" using Cons.prems(4) [of now c] by (simp add: x)
  have "log_bounded cfg key limit ?lg" using charge_bounded [OF Cons.prems(2) _ le own assms(1)] Cons.prems(2) by simp
  moreover have "\<forall>t \<in> set (map snd ?lg). t \<le> now" using charge_times [OF le] le by simp
  then have "\<forall>(n, d) \<in> set calls. \<forall>t \<in> set (map snd ?lg). t \<le> n"
    using Cons.prems(1) by (fastforce simp: x)
  ultimately show ?case
    using Cons.IH [of ?lg] Cons.prems(1,4) by (fastforce simp: x Let_def case_prod_unfold)
qed simp

text \<open>
  C34: The rate limiter is a sliding window, exactly.  Called at times that do not go back, it admits a
  call if and only if, in the full history of what it admitted, every key of the call with a limit
  has fewer admissions within the window than its limit; a refused call is charged to no key.  So
  for each key of a call and every moment, the admissions in the window ending at that moment
  are at most the limit.
\<close>
theorem rate_limiter_is_sliding_window:
  assumes "rl_enabled cfg" and "sorted (map fst calls)"
  shows "run_limiter cfg calls [] = fst (run_log cfg calls [])
    \<and> (\<forall>now c key limit message b. (now, c) \<in> set calls \<and> (key, limit, message) \<in> set (call_rules cfg c) \<and> 0 < limit \<longrightarrow>
         admissions_between (snd (run_log cfg calls [])) key (b - rl_window_ms cfg) b \<le> limit)"
proof (intro conjI allI impI)
  have "represents 0 [] []" by (simp add: represents_def window_of_def times_of_def)
  then show "run_limiter cfg calls [] = fst (run_log cfg calls [])"
    using assms by (intro run_limiter_eq [where since = 0]) auto
next
  fix now c key limit message b
  assume c: "(now, c) \<in> set calls \<and> (key, limit, message) \<in> set (call_rules cfg c) \<and> 0 < limit"
  have "log_bounded cfg key limit (snd (run_log cfg calls []))"
    by (rule run_log_bounded) (use c assms(2) call_rules_agree in \<open>auto simp: log_bounded_def admissions_between_def\<close>)
  then show "admissions_between (snd (run_log cfg calls [])) key (b - rl_window_ms cfg) b \<le> limit"
    by (simp add: log_bounded_def)
qed

definition example_rates :: rate_limit_config where
  "example_rates =
     \<lparr> rl_enabled = True, rl_window_ms = 100, rl_global_per_minute = 0, rl_api_key_per_minute = 1, rl_ip_per_minute = 0,
       rl_provider_per_minute = 0, rl_model_per_minute = 0 \<rparr>"

definition example_scope :: rate_limit_scope where
  "example_scope = \<lparr> rs_quota_subject_id = Some ''k'', rs_client_ip = None, rs_provider_id = None, rs_model = None \<rparr>"

theorem rate_limiter_is_sliding_window_witness:
  "run_limiter example_rates [(0, CheckScope example_scope), (100, CheckScope example_scope), (101, CheckScope example_scope)] []
     = [True, False, True]"
proof -
  let ?calls = "[(0 :: u64, CheckScope example_scope), (100, CheckScope example_scope), (101, CheckScope example_scope)]"
  have "fst (run_log example_rates ?calls []) = [True, False, True]" by code_simp
  moreover have "rl_enabled example_rates" "sorted (map fst ?calls)" by (simp_all add: example_rates_def)
  ultimately show ?thesis using rate_limiter_is_sliding_window [of example_rates ?calls] by simp
qed

end
