(* ===== verification/Auth_Accounts.thy ===== *)
theory Auth_Accounts
  imports State_Store
begin

text \<open>
  Console accounts and sessions, \<^verbatim>\<open>src/auth.rs\<close>: the records, the validators, and every operation
  on the state under the lock.  The password hash, SHA-256, the iteration order of a hash map,
  random identifiers, the clock and the environment are arguments (\<open>auth_libs\<close> and the arguments
  of the operations).  \<open>login\<close> and \<open>login_federated\<close> release the lock while a password is
  hashed; the parts before and after are definitions of their own.
\<close>

section \<open>Records\<close>

definition ADMIN_SESSION_COOKIE :: string where "ADMIN_SESSION_COOKIE = ''modelport_admin_session''"
definition DEFAULT_SESSION_TTL_SECONDS :: u64 where "DEFAULT_SESSION_TTL_SECONDS = 12 * 60 * 60"
definition MAX_FAILED_ATTEMPTS :: u32 where "MAX_FAILED_ATTEMPTS = 5"
definition LOCKOUT_SECONDS :: u64 where "LOCKOUT_SECONDS = 15 * 60"
definition MAX_PASSWORD_BYTES :: nat where "MAX_PASSWORD_BYTES = 1024"
definition LOGIN_ATTEMPT_RETENTION_MS :: u64 where "LOGIN_ATTEMPT_RETENTION_MS = 24 * 60 * 60 * 1000"
definition MAX_LOGIN_ATTEMPT_RECORDS :: nat where "MAX_LOGIN_ATTEMPT_RECORDS = 10000"

record federated_identity =
  fi_issuer :: string
  fi_subject :: string

record admin_user =
  au_id :: string
  au_username :: string
  au_email :: string
  au_role :: string
  au_status :: string
  au_password_hash :: string
  au_created_at_ms :: u64
  au_updated_at_ms :: u64
  au_last_login_at_ms :: "u64 option"
  au_federated_identities :: "federated_identity list"

record admin_session =
  sn_user_id :: string
  sn_expires_at_ms :: u64

record login_attempt =
  la_failed_count :: u32
  la_locked_until_ms :: u64
  la_last_attempt_ms :: u64

type_synonym accounts = "(string, admin_user) btree"
type_synonym attempts = "(string, login_attempt) btree"

record auth_inner =
  auth_users :: accounts
  auth_sessions :: "(string, admin_session) btree"
  auth_attempts :: attempts

record public_user =
  pu_id :: string
  pu_username :: string
  pu_email :: string
  pu_role :: string
  pu_status :: string
  pu_created_at :: string
  pu_last_login_at :: "string option"
  pu_api_key_count :: u32
  pu_request_count_24h :: u64

record login_result =
  lr_session_token :: string
  lr_expires_at_ms :: u64
  lr_user :: public_user

record login_input =
  li_username :: string
  li_password :: string

record federated_login_input =
  fl_issuer :: string
  fl_subject :: string
  fl_username :: "string option"
  fl_email :: "string option"
  fl_email_verified :: bool
  fl_auto_provision :: bool

record create_user_input =
  ci_username :: string
  ci_email :: string
  ci_password :: string
  ci_role :: "string option"
  ci_status :: "string option"

record update_user_input =
  ui_email :: "string option"
  ui_password :: "string option"
  ui_role :: "string option"
  ui_status :: "string option"

record auth_config =
  session_ttl_seconds :: u64
  cookie_secure :: bool

text \<open>
  What other crates and the hash map supply: the algorithm named by a well-formed password hash,
  Argon2, SHA-256, and the order in which the records of attempts are visited.
\<close>

record auth_libs =
  password_algorithm :: "string \<Rightarrow> string option"
  argon2_verify :: "string \<Rightarrow> string \<Rightarrow> bool"
  argon2_hash :: "string \<Rightarrow> string \<Rightarrow> string + string"
  sha256 :: "string \<Rightarrow> string"
  attempt_order :: "attempts \<Rightarrow> (string \<times> login_attempt) list"

definition public_user_of :: "admin_user \<Rightarrow> u32 \<Rightarrow> u64 \<Rightarrow> public_user" where
  "public_user_of user api_key_count request_count_24h =
     \<lparr> pu_id = au_id user, pu_username = au_username user, pu_email = au_email user, pu_role = au_role user,
       pu_status = au_status user, pu_created_at = show_nat (au_created_at_ms user),
       pu_last_login_at = map_option show_nat (au_last_login_at_ms user),
       pu_api_key_count = api_key_count, pu_request_count_24h = request_count_24h \<rparr>"

section \<open>Validators\<close>

definition normalize_username :: "string \<Rightarrow> string result" where
  "normalize_username value =
     (let username = trim value
      in if length username < 3 \<or> length username > 64
         then Inl (InvalidRequest ''username must be 3-64 characters'')
         else if \<not> list_all (\<lambda>c. is_alnum c \<or> c = CHR ''_'' \<or> c = CHR ''-'' \<or> c = CHR ''.'') username
         then Inl (InvalidRequest
           ''username may only contain letters, numbers, dots, underscores, and hyphens'')
         else Inr username)"

definition validate_email :: "string \<Rightarrow> string result" where
  "validate_email value =
     (let email = trim value
      in if length email > 254 \<or> CHR 0x40 \<notin> set email
         then Inl (InvalidRequest ''invalid email address'') else Inr email)"

definition validate_federated_identifier :: "string \<Rightarrow> string \<Rightarrow> nat \<Rightarrow> string result" where
  "validate_federated_identifier field value max_bytes =
     (let value = trim value
      in if value = [] \<or> length value > max_bytes \<or> has_control value
         then Inl (InvalidRequest (''invalid federated '' @ field)) else Inr value)"

definition validate_role :: "string \<Rightarrow> string result" where
  "validate_role value =
     (if value \<in> {''admin'', ''user'', ''viewer''} then Inr value
      else Inl (InvalidRequest ''invalid user role''))"

definition validate_status :: "string \<Rightarrow> string result" where
  "validate_status value =
     (if value \<in> {''active'', ''disabled'', ''suspended''} then Inr value
      else Inl (InvalidRequest ''invalid user status''))"

definition common_prefixes :: "string list" where
  "common_prefixes = [''admin'', ''password'', ''modelport'', ''letmein'', ''qwerty'', ''example-password'']"

definition is_placeholder :: "string \<Rightarrow> bool" where
  "is_placeholder normalized \<longleftrightarrow>
     normalized \<in> {''administrator'', ''password123'', ''password1234'', ''modelport123'', ''modelport-admin'',
       ''letmein12345'', ''change-me-now''}
     \<or> starts_with ''replace-with-'' normalized
     \<or> starts_with ''your-password'' normalized
     \<or> contains ''placeholder'' normalized
     \<or> contains ''change-me'' normalized
     \<or> contains ''changeme'' normalized"

definition validate_password_strength :: "string \<Rightarrow> unit result" where
  "validate_password_strength password =
     (if length password > MAX_PASSWORD_BYTES
      then Inl (InvalidRequest (''password must be at most '' @ show_nat MAX_PASSWORD_BYTES @ '' bytes''))
      else if length (chars password) < 12
      then Inl (InvalidRequest ''password must be at least 12 characters'')
      else let normalized = to_ascii_lowercase (trim password);
               has_common_prefix = list_ex (\<lambda>p. starts_with p normalized) common_prefixes;
               only_digits = list_all is_digit normalized;
               distinct_characters = card (set (chars password))
           in if normalized = [] \<or> has_common_prefix \<or> is_placeholder normalized \<or> only_digits
                \<or> distinct_characters < 6
              then Inl (InvalidRequest ''password is a common placeholder or is too weak'')
              else Inr ())"

definition hash_password :: "auth_libs \<Rightarrow> string \<Rightarrow> string \<Rightarrow> string result" where
  "hash_password libs salt password =
     (case argon2_hash libs salt password of
        Inl m \<Rightarrow> Inl (Config (''failed to hash admin password: '' @ m))
      | Inr h \<Rightarrow> Inr h)"

definition verify_password :: "auth_libs \<Rightarrow> string \<Rightarrow> string \<Rightarrow> bool" where
  "verify_password libs password password_hash \<longleftrightarrow>
     (case password_algorithm libs password_hash of
        None \<Rightarrow> False
      | Some _ \<Rightarrow> argon2_verify libs password password_hash)"

section \<open>Attempts and tokens\<close>

definition no_attempt :: login_attempt where
  "no_attempt = \<lparr> la_failed_count = 0, la_locked_until_ms = 0, la_last_attempt_ms = 0 \<rparr>"

definition record_failed_attempt :: "u64 \<Rightarrow> login_attempt \<Rightarrow> login_attempt" where
  "record_failed_attempt now_ms attempt =
     (let attempt = attempt\<lparr> la_last_attempt_ms := now_ms, la_failed_count := sat_add32 (la_failed_count attempt) 1 \<rparr>
      in if la_failed_count attempt \<ge> MAX_FAILED_ATTEMPTS
         then attempt\<lparr> la_locked_until_ms := sat_add now_ms (sat_mul LOCKOUT_SECONDS 1000), la_failed_count := 0 \<rparr>
         else attempt)"

definition record_failed_login :: "auth_libs \<Rightarrow> string \<Rightarrow> u64 \<Rightarrow> attempts \<Rightarrow> attempts" where
  "record_failed_login libs username now_ms attempts =
     (let attempts =
            (if bt_get attempts username = None \<and> length attempts \<ge> MAX_LOGIN_ATTEMPT_RECORDS
             then (case min_by_key (\<lambda>(_, attempt). la_last_attempt_ms attempt) (attempt_order libs attempts) of
                     Some (oldest, _) \<Rightarrow> bt_remove oldest attempts
                   | None \<Rightarrow> attempts)
             else attempts);
          attempt = (case bt_get attempts username of Some a \<Rightarrow> a | None \<Rightarrow> no_attempt)
      in bt_insert username (record_failed_attempt now_ms attempt) attempts)"

definition prune_login_attempts :: "u64 \<Rightarrow> attempts \<Rightarrow> attempts" where
  "prune_login_attempts now_ms =
     bt_retain (\<lambda>_ attempt. la_locked_until_ms attempt > now_ms
       \<or> sat_add (la_last_attempt_ms attempt) LOGIN_ATTEMPT_RETENTION_MS > now_ms)"

definition prune_expired_sessions :: "u64 \<Rightarrow> auth_inner \<Rightarrow> auth_inner" where
  "prune_expired_sessions now_ms inner =
     inner\<lparr> auth_sessions := bt_retain (\<lambda>_ session. sn_expires_at_ms session > now_ms) (auth_sessions inner) \<rparr>"

definition is_locked :: "attempts \<Rightarrow> string \<Rightarrow> u64 \<Rightarrow> bool" where
  "is_locked attempts username now_ms \<longleftrightarrow>
     (case bt_get attempts username of Some attempt \<Rightarrow> la_locked_until_ms attempt > now_ms | None \<Rightarrow> False)"

definition hash_session_token :: "auth_libs \<Rightarrow> string \<Rightarrow> string" where
  "hash_session_token libs token = hex_bytes (sha256 libs token)"

definition new_session_token :: "string \<times> string \<Rightarrow> string" where
  "new_session_token uuids = ''mps_'' @ fst uuids @ snd uuids"

definition cookie_token :: "string \<Rightarrow> string option" where
  "cookie_token cookie =
     Option.bind (split_once CHR ''='' (trim cookie)) (\<lambda>(name, value).
       if name = ADMIN_SESSION_COOKIE \<and> value \<noteq> [] then Some value else None)"

definition session_token_from_headers :: "header_lines \<Rightarrow> string option" where
  "session_token_from_headers headers =
     (case Option.bind (header_text headers ''x-admin-session'') (\<lambda>v. if v = [] then None else Some v) of
        Some token \<Rightarrow> Some token
      | None \<Rightarrow> Option.bind (header_text headers ''cookie'') (\<lambda>cookies. find_map cookie_token (split_on CHR '';'' cookies)))"

definition session_cookie :: "auth_config \<Rightarrow> string \<Rightarrow> string" where
  "session_cookie cfg token =
     ADMIN_SESSION_COOKIE @ ''='' @ token @ ''; Path=/; HttpOnly; SameSite=Lax; Max-Age='' @ show_nat (session_ttl_seconds cfg)
       @ (if cookie_secure cfg then ''; Secure'' else [])"

definition clear_cookie :: "auth_config \<Rightarrow> string" where
  "clear_cookie cfg =
     ADMIN_SESSION_COOKIE @ ''=; Path=/; HttpOnly; SameSite=Lax; Max-Age=0''
       @ (if cookie_secure cfg then ''; Secure'' else [])"

section \<open>Operations\<close>

type_synonym auth_table = "admin_user list state_table"
type_synonym auth_cell = "auth_inner cell"

text \<open>The document written is the list of users.\<close>

definition auth_file :: "auth_inner \<Rightarrow> admin_user list" where
  "auth_file inner = bt_values (auth_users inner)"

definition save_or_restore_locked ::
  "fault \<Rightarrow> auth_table \<Rightarrow> auth_cell \<Rightarrow> auth_inner \<Rightarrow> auth_table \<times> auth_cell \<times> unit result" where
  "save_or_restore_locked fault table previous inner = save_or_restore auth_file ''auth'' fault table previous inner"

definition expires_at :: "auth_config \<Rightarrow> u64 \<Rightarrow> u64" where
  "expires_at cfg now_ms = sat_add now_ms (sat_mul (session_ttl_seconds cfg) 1000)"

definition open_session :: "auth_libs \<Rightarrow> auth_config \<Rightarrow> u64 \<Rightarrow> string \<Rightarrow> string \<Rightarrow> auth_inner \<Rightarrow> auth_inner" where
  "open_session libs cfg now_ms token user_id inner =
     inner\<lparr> auth_users := bt_update user_id (\<lambda>user. user\<lparr> au_last_login_at_ms := Some now_ms, au_updated_at_ms := now_ms \<rparr>) (auth_users inner),
            auth_sessions := bt_insert (hash_session_token libs token)
              \<lparr> sn_user_id = user_id, sn_expires_at_ms = expires_at cfg now_ms \<rparr> (auth_sessions inner) \<rparr>"

text \<open>The end of both kinds of sign-in: the session is opened on \<open>previous\<close>, saved, and taken back when
  the save fails.\<close>

definition sign_in ::
  "auth_libs \<Rightarrow> auth_config \<Rightarrow> fault \<Rightarrow> string \<Rightarrow> u64 \<Rightarrow> string \<times> string \<Rightarrow> string \<Rightarrow> auth_table \<Rightarrow> auth_cell \<Rightarrow> auth_inner \<Rightarrow>
   auth_table \<times> auth_cell \<times> login_result result" where
  "sign_in libs cfg fault gone now_ms uuids user_id table previous inner =
     (let token = new_session_token uuids;
          inner = open_session libs cfg now_ms token user_id inner
      in case save_or_restore_locked fault table previous inner of
           (table', cell', Inl e) \<Rightarrow> (table', cell', Inl e)
         | (table', cell', Inr _) \<Rightarrow>
             (table', cell',
              and_then (ok_or (Config gone) (bt_get (auth_users (cell_doc cell')) user_id)) (\<lambda>user.
              Inr \<lparr> lr_session_token = token, lr_expires_at_ms = expires_at cfg now_ms,
                    lr_user = public_user_of user 1 0 \<rparr>)))"

subsection \<open>Password sign-in\<close>

definition login_username :: "login_input \<Rightarrow> string result" where
  "login_username input =
     and_then (normalize_username (li_username input)) (\<lambda>username.
       if li_password input = [] \<or> length (li_password input) > MAX_PASSWORD_BYTES then Inl Auth else Inr username)"

text \<open>Under the lock: who is signing in, unless the name is locked.\<close>

definition login_candidate :: "u64 \<Rightarrow> string \<Rightarrow> auth_inner \<Rightarrow> auth_inner \<times> (string \<times> admin_user) option result" where
  "login_candidate now_ms username inner =
     (let inner = prune_expired_sessions now_ms inner;
          inner = inner\<lparr> auth_attempts := prune_login_attempts now_ms (auth_attempts inner) \<rparr>
      in if is_locked (auth_attempts inner) username now_ms then (inner, Inl Auth)
         else (inner, Inr (find (\<lambda>(_, user). eq_ignore_ascii_case (au_username user) username) (auth_users inner))))"

text \<open>Without the lock: the password is compared.\<close>

definition login_verified :: "auth_libs \<Rightarrow> string \<Rightarrow> (string \<times> admin_user) option \<Rightarrow> bool" where
  "login_verified libs password candidate \<longleftrightarrow>
     (case candidate of
        Some (_, user) \<Rightarrow> au_status user = ''active'' \<and> verify_password libs password (au_password_hash user)
      | None \<Rightarrow> False)"

definition candidate_is_current :: "string \<Rightarrow> string \<times> admin_user \<Rightarrow> auth_inner \<Rightarrow> bool" where
  "candidate_is_current username candidate inner \<longleftrightarrow>
     (case bt_get (auth_users inner) (fst candidate) of
        Some user \<Rightarrow> au_status user = ''active'' \<and> eq_ignore_ascii_case (au_username user) username
          \<and> au_password_hash user = au_password_hash (snd candidate)
      | None \<Rightarrow> False)"

definition login_failed :: "auth_libs \<Rightarrow> string \<Rightarrow> u64 \<Rightarrow> auth_inner \<Rightarrow> auth_inner" where
  "login_failed libs username now_ms inner =
     inner\<lparr> auth_attempts := record_failed_login libs username now_ms (auth_attempts inner) \<rparr>"

text \<open>Under the lock again: the outcome is recorded.\<close>

definition login_outcome ::
  "auth_libs \<Rightarrow> auth_config \<Rightarrow> fault \<Rightarrow> u64 \<Rightarrow> string \<times> string \<Rightarrow> string \<Rightarrow> bool \<Rightarrow> (string \<times> admin_user) option \<Rightarrow>
   auth_table \<Rightarrow> auth_cell \<Rightarrow> auth_table \<times> auth_cell \<times> login_result result" where
  "login_outcome libs cfg fault now_ms uuids username verified candidate table cell =
     (let inner = prune_expired_sessions now_ms (cell_doc cell)
      in case candidate of
           None \<Rightarrow> (table, cell\<lparr> cell_doc := login_failed libs username now_ms inner \<rparr>, Inl Auth)
         | Some candidate \<Rightarrow>
             if \<not> verified \<or> \<not> candidate_is_current username candidate inner
             then (table, cell\<lparr> cell_doc := login_failed libs username now_ms inner \<rparr>, Inl Auth)
             else if is_locked (auth_attempts inner) username now_ms
             then (table, cell\<lparr> cell_doc := inner \<rparr>, Inl Auth)
             else let previous = inner\<lparr> auth_attempts := bt_remove username (auth_attempts inner) \<rparr>
                  in sign_in libs cfg fault ''admin user disappeared during login'' now_ms uuids (fst candidate)
                       table (cell\<lparr> cell_doc := previous \<rparr>) previous)"

definition login ::
  "auth_libs \<Rightarrow> auth_config \<Rightarrow> fault \<Rightarrow> u64 \<Rightarrow> string \<times> string \<Rightarrow> login_input \<Rightarrow>
   auth_table \<Rightarrow> auth_cell \<Rightarrow> auth_table \<times> auth_cell \<times> login_result result" where
  "login libs cfg fault now_ms uuids input table cell =
     (case login_username input of
        Inl e \<Rightarrow> (table, cell, Inl e)
      | Inr username \<Rightarrow>
          (case login_candidate now_ms username (cell_doc cell) of
             (inner, Inl e) \<Rightarrow> (table, cell\<lparr> cell_doc := inner \<rparr>, Inl e)
           | (inner, Inr candidate) \<Rightarrow>
               login_outcome libs cfg fault now_ms uuids username (login_verified libs (li_password input) candidate)
                 candidate table (cell\<lparr> cell_doc := inner \<rparr>)))"

subsection \<open>Federated sign-in\<close>

definition holds_identity :: "string \<Rightarrow> string \<Rightarrow> admin_user \<Rightarrow> bool" where
  "holds_identity issuer subject user \<longleftrightarrow>
     list_ex (\<lambda>identity. fi_issuer identity = issuer \<and> fi_subject identity = subject) (au_federated_identities user)"

definition bound_user_id :: "auth_inner \<Rightarrow> string \<Rightarrow> string \<Rightarrow> string option result" where
  "bound_user_id inner issuer subject =
     (case filter (\<lambda>(_, user). holds_identity issuer subject user) (auth_users inner) of
        [] \<Rightarrow> Inr None
      | [(i, _)] \<Rightarrow> Inr (Some i)
      | _ \<Rightarrow> Inl (Config ''duplicate federated identity binding in auth store''))"

definition finish_federated_login_locked ::
  "auth_libs \<Rightarrow> auth_config \<Rightarrow> fault \<Rightarrow> u64 \<Rightarrow> string \<times> string \<Rightarrow> string \<Rightarrow> auth_table \<Rightarrow> auth_cell \<Rightarrow> auth_inner \<Rightarrow>
   auth_table \<times> auth_cell \<times> login_result result" where
  "finish_federated_login_locked libs cfg fault now_ms uuids user_id table previous inner =
     (case bt_get (auth_users inner) user_id of
        None \<Rightarrow> (table, previous\<lparr> cell_doc := inner \<rparr>, Inl (Config ''OIDC user disappeared''))
      | Some user \<Rightarrow>
          if au_status user \<noteq> ''active'' then (table, previous\<lparr> cell_doc := inner \<rparr>, Inl Auth)
          else sign_in libs cfg fault ''OIDC user disappeared'' now_ms uuids user_id table previous inner)"

definition name_taken :: "string \<Rightarrow> string \<Rightarrow> auth_inner \<Rightarrow> bool" where
  "name_taken username email inner \<longleftrightarrow>
     list_ex (\<lambda>user. eq_ignore_ascii_case (au_username user) username \<or> eq_ignore_ascii_case (au_email user) email)
       (bt_values (auth_users inner))"

text \<open>
  The first part, under the lock, either ends the sign-in or leaves an account to make: issuer,
  subject, user name and e-mail address.
\<close>

definition bind_by_email ::
  "auth_libs \<Rightarrow> auth_config \<Rightarrow> fault \<Rightarrow> u64 \<Rightarrow> string \<times> string \<Rightarrow> string \<Rightarrow> string \<Rightarrow> string \<Rightarrow> auth_table \<Rightarrow> auth_cell \<Rightarrow>
   auth_table \<times> auth_cell \<times> login_result result" where
  "bind_by_email libs cfg fault now_ms uuids issuer subject user_id table cell =
     (case bt_get (auth_users (cell_doc cell)) user_id of
        None \<Rightarrow> (table, cell, Inl (Config ''OIDC email-matched user disappeared''))
      | Some user \<Rightarrow>
          if au_role user = ''admin'' \<or> au_status user \<noteq> ''active'' \<or> au_federated_identities user \<noteq> []
          then (table, cell, Inl Auth)
          else finish_federated_login_locked libs cfg fault now_ms uuids user_id table cell
                 ((cell_doc cell)\<lparr> auth_users := bt_update user_id
                    (\<lambda>user. user\<lparr> au_federated_identities := au_federated_identities user @
                       [\<lparr> fi_issuer = issuer, fi_subject = subject \<rparr>] \<rparr>) (auth_users (cell_doc cell)) \<rparr>))"

definition provision_request ::
  "federated_login_input \<Rightarrow> string \<Rightarrow> string \<Rightarrow> string \<Rightarrow> auth_inner \<Rightarrow> (string \<times> string \<times> string \<times> string) result" where
  "provision_request input issuer subject email inner =
     (if \<not> fl_auto_provision input then Inl Auth
      else and_then (ok_or Auth (fl_username input)) (\<lambda>username.
           case normalize_username username of
             Inl _ \<Rightarrow> Inl Auth
           | Inr username \<Rightarrow>
               if name_taken username email inner then Inl Auth else Inr (issuer, subject, username, email)))"

definition verified_email :: "federated_login_input \<Rightarrow> string result" where
  "verified_email input =
     (if \<not> fl_email_verified input then Inl Auth
      else and_then (ok_or Auth (fl_email input)) (\<lambda>email.
           case validate_email email of Inl _ \<Rightarrow> Inl Auth | Inr email \<Rightarrow> Inr email))"

type_synonym federated_outcome = "login_result + string \<times> string \<times> string \<times> string"

definition signed_in :: "auth_table \<times> auth_cell \<times> login_result result \<Rightarrow> auth_table \<times> auth_cell \<times> federated_outcome result" where
  "signed_in r = (fst r, fst (snd r), (case snd (snd r) of Inl e \<Rightarrow> Inl e | Inr l \<Rightarrow> Inr (Inl l)))"

definition federated_known ::
  "auth_libs \<Rightarrow> auth_config \<Rightarrow> fault \<Rightarrow> u64 \<Rightarrow> string \<times> string \<Rightarrow> federated_login_input \<Rightarrow> string \<Rightarrow> string \<Rightarrow>
   auth_table \<Rightarrow> auth_cell \<Rightarrow> auth_table \<times> auth_cell \<times> federated_outcome result" where
  "federated_known libs cfg fault now_ms uuids input issuer subject table cell =
     (let inner = prune_expired_sessions now_ms (cell_doc cell); cell = cell\<lparr> cell_doc := inner \<rparr>
      in case bound_user_id inner issuer subject of
           Inl e \<Rightarrow> (table, cell, Inl e)
         | Inr (Some user_id) \<Rightarrow>
             signed_in (finish_federated_login_locked libs cfg fault now_ms uuids user_id table cell inner)
         | Inr None \<Rightarrow>
             (case verified_email input of
                Inl e \<Rightarrow> (table, cell, Inl e)
              | Inr email \<Rightarrow>
                  (case map fst (filter (\<lambda>(_, user). eq_ignore_ascii_case (au_email user) email) (auth_users inner)) of
                     [] \<Rightarrow> (table, cell, (case provision_request input issuer subject email inner of
                                            Inl e \<Rightarrow> Inl e | Inr request \<Rightarrow> Inr (Inr request)))
                   | [user_id] \<Rightarrow> signed_in (bind_by_email libs cfg fault now_ms uuids issuer subject user_id table cell)
                   | _ \<Rightarrow> (table, cell, Inl Auth))))"

definition federated_user :: "string \<Rightarrow> u64 \<Rightarrow> string \<Rightarrow> string \<times> string \<times> string \<times> string \<Rightarrow> admin_user" where
  "federated_user uuid now_ms password_hash request =
     (let (issuer, subject, username, email) = request
      in \<lparr> au_id = ''usr_'' @ uuid, au_username = username, au_email = email, au_role = ''user'', au_status = ''active'',
           au_password_hash = password_hash, au_created_at_ms = now_ms, au_updated_at_ms = now_ms,
           au_last_login_at_ms = None, au_federated_identities = [\<lparr> fi_issuer = issuer, fi_subject = subject \<rparr>] \<rparr>)"

text \<open>The second part, after the random password was hashed.\<close>

definition federated_provision ::
  "auth_libs \<Rightarrow> auth_config \<Rightarrow> fault \<Rightarrow> u64 \<Rightarrow> string \<times> string \<Rightarrow> string \<Rightarrow> string \<Rightarrow> string \<times> string \<times> string \<times> string \<Rightarrow>
   auth_table \<Rightarrow> auth_cell \<Rightarrow> auth_table \<times> auth_cell \<times> login_result result" where
  "federated_provision libs cfg fault now_ms uuids uuid password_hash request table cell =
     (let (issuer, subject, username, email) = request;
          inner = prune_expired_sessions now_ms (cell_doc cell); cell = cell\<lparr> cell_doc := inner \<rparr>
      in case bound_user_id inner issuer subject of
           Inl e \<Rightarrow> (table, cell, Inl e)
         | Inr (Some user_id) \<Rightarrow> finish_federated_login_locked libs cfg fault now_ms uuids user_id table cell inner
         | Inr None \<Rightarrow>
             if name_taken username email inner then (table, cell, Inl Auth)
             else let user = federated_user uuid now_ms password_hash request
                  in finish_federated_login_locked libs cfg fault now_ms uuids (au_id user) table cell
                       (inner\<lparr> auth_users := bt_insert (au_id user) user (auth_users inner) \<rparr>))"

definition federated_identity_of :: "federated_login_input \<Rightarrow> (string \<times> string) result" where
  "federated_identity_of input =
     and_then (validate_federated_identifier ''issuer'' (fl_issuer input) 2048) (\<lambda>issuer.
     and_then (validate_federated_identifier ''subject'' (fl_subject input) 512) (\<lambda>subject.
     Inr (issuer, subject)))"

text \<open>\<open>secret\<close> is the random local password, \<open>salt\<close> the salt it is hashed with.\<close>

definition login_federated ::
  "auth_libs \<Rightarrow> auth_config \<Rightarrow> fault \<Rightarrow> u64 \<Rightarrow> string \<times> string \<Rightarrow> string \<Rightarrow> string \<Rightarrow> string \<Rightarrow> federated_login_input \<Rightarrow>
   auth_table \<Rightarrow> auth_cell \<Rightarrow> auth_table \<times> auth_cell \<times> login_result result" where
  "login_federated libs cfg fault now_ms uuids uuid salt secret input table cell =
     (case federated_identity_of input of
        Inl e \<Rightarrow> (table, cell, Inl e)
      | Inr (issuer, subject) \<Rightarrow>
          (case federated_known libs cfg fault now_ms uuids input issuer subject table cell of
             (table, cell, Inl e) \<Rightarrow> (table, cell, Inl e)
           | (table, cell, Inr (Inl l)) \<Rightarrow> (table, cell, Inr l)
           | (table, cell, Inr (Inr request)) \<Rightarrow>
               (case hash_password libs salt secret of
                  Inl e \<Rightarrow> (table, cell, Inl e)
                | Inr password_hash \<Rightarrow>
                    federated_provision libs cfg fault now_ms uuids uuid password_hash request table cell)))"

subsection \<open>Sessions and queries\<close>

definition require_session :: "auth_libs \<Rightarrow> u64 \<Rightarrow> header_lines \<Rightarrow> auth_inner \<Rightarrow> auth_inner \<times> public_user result" where
  "require_session libs now_ms headers inner =
     (case session_token_from_headers headers of
        None \<Rightarrow> (inner, Inl Auth)
      | Some token \<Rightarrow>
          let inner = prune_expired_sessions now_ms inner; token_hash = hash_session_token libs token
          in case bt_get (auth_sessions inner) token_hash of
               None \<Rightarrow> (inner, Inl Auth)
             | Some session \<Rightarrow>
                 if sn_expires_at_ms session \<le> now_ms
                 then (inner\<lparr> auth_sessions := bt_remove token_hash (auth_sessions inner) \<rparr>, Inl Auth)
                 else (inner,
                       and_then (ok_or Auth (bt_get (auth_users inner) (sn_user_id session))) (\<lambda>user.
                         if au_status user \<noteq> ''active'' then Inl Auth else Inr (public_user_of user 1 0))))"

definition logout :: "auth_libs \<Rightarrow> header_lines \<Rightarrow> auth_inner \<Rightarrow> auth_inner" where
  "logout libs headers inner =
     (case session_token_from_headers headers of
        None \<Rightarrow> inner
      | Some token \<Rightarrow> inner\<lparr> auth_sessions := bt_remove (hash_session_token libs token) (auth_sessions inner) \<rparr>)"

definition list_users :: "u64 \<Rightarrow> auth_inner \<Rightarrow> public_user list" where
  "list_users request_count_24h inner =
     (let api_key_count = (if auth_users inner = [] then 0 else 1)
      in map (\<lambda>user. public_user_of user api_key_count request_count_24h) (bt_values (auth_users inner)))"

definition user_by_id :: "string \<Rightarrow> auth_inner \<Rightarrow> public_user option" where
  "user_by_id user_id inner = map_option (\<lambda>user. public_user_of user 0 0) (bt_get (auth_users inner) (trim user_id))"

definition is_user_active :: "string \<Rightarrow> auth_inner \<Rightarrow> bool" where
  "is_user_active user_id inner \<longleftrightarrow>
     (case bt_get (auth_users inner) (trim user_id) of Some user \<Rightarrow> au_status user = ''active'' | None \<Rightarrow> False)"

definition is_active_admin :: "admin_user \<Rightarrow> bool" where
  "is_active_admin user \<longleftrightarrow> au_role user = ''admin'' \<and> au_status user = ''active''"

definition active_admin_count :: "auth_inner \<Rightarrow> nat" where
  "active_admin_count inner = length (filter is_active_admin (bt_values (auth_users inner)))"

definition active_user_count :: "auth_inner \<Rightarrow> nat" where
  "active_user_count inner = length (filter (\<lambda>user. au_status user = ''active'') (bt_values (auth_users inner)))"

definition has_active_federated_admin :: "string \<Rightarrow> auth_inner \<Rightarrow> bool" where
  "has_active_federated_admin issuer inner \<longleftrightarrow>
     list_ex (\<lambda>user. is_active_admin user \<and> list_ex (\<lambda>identity. fi_issuer identity = issuer) (au_federated_identities user))
       (bt_values (auth_users inner))"

subsection \<open>Managing accounts\<close>

definition created_user ::
  "auth_libs \<Rightarrow> string \<Rightarrow> string \<Rightarrow> u64 \<Rightarrow> create_user_input \<Rightarrow> admin_user result" where
  "created_user libs salt uuid now_ms input =
     and_then (normalize_username (ci_username input)) (\<lambda>username.
     and_then (validate_email (ci_email input)) (\<lambda>email.
     and_then (validate_role (case ci_role input of Some role \<Rightarrow> role | None \<Rightarrow> ''user'')) (\<lambda>role.
     and_then (validate_status (case ci_status input of Some status \<Rightarrow> status | None \<Rightarrow> ''active'')) (\<lambda>status.
     and_then (validate_password_strength (ci_password input)) (\<lambda>_.
     and_then (hash_password libs salt (ci_password input)) (\<lambda>password_hash.
     Inr \<lparr> au_id = ''usr_'' @ uuid, au_username = username, au_email = email, au_role = role, au_status = status,
           au_password_hash = password_hash, au_created_at_ms = now_ms, au_updated_at_ms = now_ms,
           au_last_login_at_ms = None, au_federated_identities = [] \<rparr>))))))"

definition insert_user ::
  "auth_libs \<Rightarrow> string \<Rightarrow> string \<Rightarrow> u64 \<Rightarrow> create_user_input \<Rightarrow> auth_inner \<Rightarrow> (public_user \<times> auth_inner) result" where
  "insert_user libs salt uuid now_ms input inner =
     and_then (created_user libs salt uuid now_ms input) (\<lambda>user.
     if list_ex (\<lambda>existing. eq_ignore_ascii_case (au_username existing) (au_username user)) (bt_values (auth_users inner))
     then Inl (InvalidRequest ''username already exists'')
     else Inr (public_user_of user 1 0, inner\<lparr> auth_users := bt_insert (au_id user) user (auth_users inner) \<rparr>))"

definition new_password_hash :: "auth_libs \<Rightarrow> string \<Rightarrow> update_user_input \<Rightarrow> string option result" where
  "new_password_hash libs salt input =
     transpose (\<lambda>password. and_then (validate_password_strength password) (\<lambda>_. hash_password libs salt password))
       (Option.bind (ui_password input) (\<lambda>password. if password = [] then None else Some password))"

definition revoke_sessions :: "string \<Rightarrow> auth_inner \<Rightarrow> auth_inner" where
  "revoke_sessions user_id inner =
     inner\<lparr> auth_sessions := bt_retain (\<lambda>_ session. sn_user_id session \<noteq> user_id) (auth_sessions inner) \<rparr>"

definition active_admins_after :: "string \<Rightarrow> string \<Rightarrow> string \<Rightarrow> auth_inner \<Rightarrow> nat" where
  "active_admins_after user_id next_role next_status inner =
     length (filter (\<lambda>(i, user). if i = user_id then next_role = ''admin'' \<and> next_status = ''active'' else is_active_admin user)
       (auth_users inner))"

definition should_clear_sessions :: "string option \<Rightarrow> string \<Rightarrow> string \<Rightarrow> admin_user \<Rightarrow> bool" where
  "should_clear_sessions password_hash next_role next_status existing \<longleftrightarrow>
     password_hash \<noteq> None \<or> next_status \<noteq> ''active'' \<or> next_role \<noteq> au_role existing"

definition updated_user :: "u64 \<Rightarrow> string option \<Rightarrow> string \<Rightarrow> string \<Rightarrow> string option \<Rightarrow> admin_user \<Rightarrow> admin_user" where
  "updated_user now_ms email next_role next_status password_hash user =
     user\<lparr> au_email := (case email of Some email \<Rightarrow> email | None \<Rightarrow> au_email user),
           au_role := next_role, au_status := next_status,
           au_password_hash := (case password_hash of Some h \<Rightarrow> h | None \<Rightarrow> au_password_hash user),
           au_updated_at_ms := now_ms \<rparr>"

definition change_user ::
  "auth_libs \<Rightarrow> string \<Rightarrow> u64 \<Rightarrow> string \<Rightarrow> string \<Rightarrow> update_user_input \<Rightarrow> auth_inner \<Rightarrow> (public_user \<times> auth_inner) result" where
  "change_user libs salt now_ms user_id current_user_id input inner =
     and_then (transpose validate_email (ui_email input)) (\<lambda>email.
     and_then (transpose validate_role (ui_role input)) (\<lambda>role.
     and_then (transpose validate_status (ui_status input)) (\<lambda>status.
     and_then (new_password_hash libs salt input) (\<lambda>password_hash.
     and_then (ok_or (InvalidRequest ''user not found'') (bt_get (auth_users inner) user_id)) (\<lambda>existing.
       if user_id = current_user_id
          \<and> ((case role of Some r \<Rightarrow> r \<noteq> ''admin'' | None \<Rightarrow> False) \<or> (case status of Some s \<Rightarrow> s \<noteq> ''active'' | None \<Rightarrow> False))
       then Inl (Forbidden ''cannot remove admin access from the current signed-in user'')
       else let next_role = (case role of Some r \<Rightarrow> r | None \<Rightarrow> au_role existing);
                next_status = (case status of Some s \<Rightarrow> s | None \<Rightarrow> au_status existing)
            in if active_admins_after user_id next_role next_status inner = 0
               then Inl (Forbidden ''cannot remove the last active admin'')
               else let user = updated_user now_ms email next_role next_status password_hash existing;
                        changed = inner\<lparr> auth_users := bt_insert user_id user (auth_users inner) \<rparr>
                    in Inr (public_user_of user 1 0,
                         if should_clear_sessions password_hash next_role next_status existing
                         then revoke_sessions user_id changed else changed))))))"

definition create_user ::
  "auth_libs \<Rightarrow> fault \<Rightarrow> string \<Rightarrow> string \<Rightarrow> u64 \<Rightarrow> create_user_input \<Rightarrow> auth_table \<Rightarrow> auth_cell \<Rightarrow>
   auth_table \<times> auth_cell \<times> public_user result" where
  "create_user libs fault salt uuid now_ms input = transact auth_file ''auth'' fault (insert_user libs salt uuid now_ms input)"

definition update_user ::
  "auth_libs \<Rightarrow> fault \<Rightarrow> string \<Rightarrow> u64 \<Rightarrow> string \<Rightarrow> string \<Rightarrow> update_user_input \<Rightarrow> auth_table \<Rightarrow> auth_cell \<Rightarrow>
   auth_table \<times> auth_cell \<times> public_user result" where
  "update_user libs fault salt now_ms user_id current_user_id input =
     transact auth_file ''auth'' fault (change_user libs salt now_ms user_id current_user_id input)"

definition delete_user ::
  "fault \<Rightarrow> string \<Rightarrow> string \<Rightarrow> auth_table \<Rightarrow> auth_cell \<Rightarrow> auth_table \<times> auth_cell \<times> unit result" where
  "delete_user fault user_id current_user_id table cell =
     (if user_id = current_user_id
      then (table, cell, Inl (Forbidden ''cannot delete the current signed-in user''))
      else let inner = cell_doc cell
           in case bt_get (auth_users inner) user_id of
                None \<Rightarrow> (table, cell, Inr ())
              | Some user \<Rightarrow>
                  if au_role user = ''admin'' \<and> active_admin_count inner \<le> 1
                  then (table, cell, Inl (Forbidden ''cannot delete the last active admin''))
                  else save_or_restore_locked fault table cell
                         (revoke_sessions user_id (inner\<lparr> auth_users := bt_remove user_id (auth_users inner) \<rparr>)))"

subsection \<open>Start-up and backups\<close>

definition new_bootstrap_admin :: "auth_libs \<Rightarrow> string \<Rightarrow> string \<Rightarrow> u64 \<Rightarrow> string \<Rightarrow> string \<Rightarrow> string \<Rightarrow> admin_user result" where
  "new_bootstrap_admin libs salt uuid now_ms username email password =
     and_then (hash_password libs salt password) (\<lambda>password_hash.
     Inr \<lparr> au_id = ''usr_'' @ uuid, au_username = username, au_email = email, au_role = ''admin'', au_status = ''active'',
           au_password_hash = password_hash, au_created_at_ms = now_ms, au_updated_at_ms = now_ms,
           au_last_login_at_ms = None, au_federated_identities = [] \<rparr>)"

text \<open>An account to make at start-up: the random identifier and salt it gets.\<close>

type_synonym fresh = "string \<times> string"

definition admin_from ::
  "auth_libs \<Rightarrow> fresh \<Rightarrow> u64 \<Rightarrow> string \<Rightarrow> string \<Rightarrow> string \<Rightarrow> admin_user result" where
  "admin_from libs f now_ms username email password =
     and_then (validate_password_strength password) (\<lambda>_.
     and_then (normalize_username username) (\<lambda>username.
     and_then (validate_email email) (\<lambda>email.
     new_bootstrap_admin libs (snd f) (fst f) now_ms username email password)))"

definition backup_admin ::
  "auth_libs \<Rightarrow> (string \<Rightarrow> string option) \<Rightarrow> bool \<Rightarrow> fresh \<Rightarrow> u64 \<Rightarrow> accounts \<Rightarrow> accounts result" where
  "backup_admin libs env enterprise f now_ms users =
     (let backup_values = (env ''MODELPORT_BACKUP_ADMIN_USERNAME'', env ''MODELPORT_BACKUP_ADMIN_EMAIL'',
                           env ''MODELPORT_BACKUP_ADMIN_PASSWORD'')
      in case backup_values of
           (None, None, None) \<Rightarrow>
             if enterprise
             then Inl (Config ''enterprise bootstrap requires MODELPORT_BACKUP_ADMIN_USERNAME, MODELPORT_BACKUP_ADMIN_EMAIL, and MODELPORT_BACKUP_ADMIN_PASSWORD'')
             else Inr users
         | (Some username, Some email, Some password) \<Rightarrow>
             and_then (validate_password_strength password) (\<lambda>_.
             and_then (normalize_username username) (\<lambda>username.
             and_then (validate_email email) (\<lambda>email.
               if list_ex (\<lambda>user. eq_ignore_ascii_case (au_username user) username \<or> eq_ignore_ascii_case (au_email user) email)
                    (bt_values users)
               then Inl (Config ''bootstrap Owner and Backup must use different usernames and email addresses'')
               else and_then (new_bootstrap_admin libs (snd f) (fst f) now_ms username email password) (\<lambda>backup.
                    Inr (bt_insert (au_id backup) backup users)))))
         | _ \<Rightarrow> Inl (Config ''backup administrator bootstrap values must be configured together''))"

text \<open>\<open>auth_token\<close> is that of the configuration; \<open>enterprise\<close> the flag MODELPORT\_ENTERPRISE\_MODE.\<close>

definition bootstrap_initial_admins ::
  "auth_libs \<Rightarrow> (string \<Rightarrow> string option) \<Rightarrow> bool \<Rightarrow> string option \<Rightarrow> fresh \<Rightarrow> fresh \<Rightarrow> u64 \<Rightarrow> fault \<Rightarrow>
   auth_table \<Rightarrow> auth_cell \<Rightarrow> auth_table \<times> auth_cell result" where
  "bootstrap_initial_admins libs env enterprise auth_token f1 f2 now_ms fault table cell =
     (if auth_users (cell_doc cell) \<noteq> [] then (table, Inr cell)
      else case and_then (ok_or (Config ''MODELPORT_ADMIN_PASSWORD is required to bootstrap the first admin user'')
                  (case env ''MODELPORT_ADMIN_PASSWORD'' of Some p \<Rightarrow> Some p | None \<Rightarrow> auth_token)) (\<lambda>password.
                and_then (admin_from libs f1 now_ms
                  (case env ''MODELPORT_ADMIN_USERNAME'' of Some u \<Rightarrow> u | None \<Rightarrow> ''admin'')
                  (case env ''MODELPORT_ADMIN_EMAIL'' of Some e \<Rightarrow> e | None \<Rightarrow> ''admin@modelport.local'') password) (\<lambda>primary.
                backup_admin libs env enterprise f2 now_ms (bt_insert (au_id primary) primary (auth_users (cell_doc cell))))) of
             Inl e \<Rightarrow> (table, Inl e)
           | Inr users \<Rightarrow>
               (case save_or_restore_locked fault table cell ((cell_doc cell)\<lparr> auth_users := users \<rparr>) of
                  (table', cell', Inl e) \<Rightarrow> (table', Inl e)
                | (table', cell', Inr _) \<Rightarrow> (table', Inr cell')))"

definition collect_users :: "admin_user list \<Rightarrow> accounts" where
  "collect_users users = collect_by au_id users"

definition loaded_inner :: "admin_user list \<Rightarrow> auth_inner" where
  "loaded_inner file = \<lparr> auth_users = collect_users file, auth_sessions = [], auth_attempts = [] \<rparr>"

definition load_or_bootstrap ::
  "auth_libs \<Rightarrow> (string \<Rightarrow> string option) \<Rightarrow> bool \<Rightarrow> string option \<Rightarrow> fresh \<Rightarrow> fresh \<Rightarrow> u64 \<Rightarrow> fault \<Rightarrow>
   auth_table \<Rightarrow> auth_table \<times> auth_cell result" where
  "load_or_bootstrap libs env enterprise auth_token f1 f2 now_ms fault table =
     bootstrap_initial_admins libs env enterprise auth_token f1 f2 now_ms fault table
       (load_cell loaded_inner (loaded_inner []) ''auth'' table)"

definition auth_config_of :: "(string \<Rightarrow> string option) \<Rightarrow> bool \<Rightarrow> auth_config" where
  "auth_config_of env secure =
     \<lparr> session_ttl_seconds =
         (case Option.bind (env ''MODELPORT_ADMIN_SESSION_TTL_SECONDS'') (parse_uint u64_max) of
            Some n \<Rightarrow> n | None \<Rightarrow> DEFAULT_SESSION_TTL_SECONDS),
       cookie_secure = secure \<rparr>"

fun backup_identities :: "(string \<times> string) set \<Rightarrow> federated_identity list \<Rightarrow> (string \<times> string) set result" where
  "backup_identities seen [] = Inr seen"
| "backup_identities seen (identity # identities) =
     and_then (validate_federated_identifier ''issuer'' (fi_issuer identity) 2048) (\<lambda>issuer.
     and_then (validate_federated_identifier ''subject'' (fi_subject identity) 512) (\<lambda>subject.
       if (issuer, subject) \<in> seen
       then Inl (InvalidRequest ''backup auth document contains a duplicate federated identity'')
       else backup_identities (insert (issuer, subject) seen) identities))"

fun backup_users ::
  "auth_libs \<Rightarrow> string set \<Rightarrow> string set \<Rightarrow> (string \<times> string) set \<Rightarrow> nat \<Rightarrow> admin_user list \<Rightarrow> nat result" where
  "backup_users libs ids usernames identities active_admins [] = Inr active_admins"
| "backup_users libs ids usernames identities active_admins (user # users) =
     (if trim (au_id user) = [] \<or> au_id user \<in> ids
      then Inl (InvalidRequest ''backup auth document contains an empty or duplicate user id'')
      else and_then (normalize_username (au_username user)) (\<lambda>username.
        if to_ascii_lowercase username \<in> usernames
        then Inl (InvalidRequest ''backup auth document contains duplicate usernames'')
        else and_then (validate_email (au_email user)) (\<lambda>_.
        and_then (validate_role (au_role user)) (\<lambda>_.
        and_then (validate_status (au_status user)) (\<lambda>_.
        and_then (ok_or (InvalidRequest ''backup auth document contains an invalid password hash'')
          (password_algorithm libs (au_password_hash user))) (\<lambda>algorithm.
        if algorithm \<notin> {''argon2id'', ''argon2i'', ''argon2d''}
        then Inl (InvalidRequest ''backup auth document contains an unsupported password hash'')
        else and_then (backup_identities identities (au_federated_identities user)) (\<lambda>identities.
        backup_users libs (insert (au_id user) ids) (insert (to_ascii_lowercase username) usernames) identities
          (if is_active_admin user then active_admins + 1 else active_admins) users)))))))"

text \<open>\<open>from_value\<close> reads the document; its message is serde's.\<close>

definition validate_backup_document :: "auth_libs \<Rightarrow> ('j \<Rightarrow> string + admin_user list) \<Rightarrow> 'j \<Rightarrow> unit result" where
  "validate_backup_document libs from_value value =
     (case from_value value of
        Inl m \<Rightarrow> Inl (InvalidRequest (''backup auth document is invalid: '' @ m))
      | Inr users \<Rightarrow>
          and_then (backup_users libs {} {} {} 0 users) (\<lambda>active_admins.
          if users \<noteq> [] \<and> active_admins = 0
          then Inl (InvalidRequest ''backup auth document must retain at least one active admin'')
          else Inr ()))"

end
