(* ===== verification/Auth_Sessions.thy ===== *)
theory Auth_Sessions
  imports Auth_Accounts
begin

text \<open>
  The sign-in system as a whole: one process with its accounts, sessions and sign-ins in flight,
  the row its accounts are stored in, other replicas that write the row, failing saves and
  restarts.  Every operation of \<^verbatim>\<open>src/auth.rs\<close> is a step; a sign-in that hashes a password is two.
  The log of what happened is the specification of a session: \<open>live\<close> reads it.
\<close>

section \<open>Accounts\<close>

definition account_ok :: "string \<Rightarrow> admin_user \<Rightarrow> bool" where
  "account_ok k user \<longleftrightarrow> au_id user = k \<and> au_role user \<in> {''admin'', ''user'', ''viewer''}
     \<and> au_status user \<in> {''active'', ''disabled'', ''suspended''}"

definition same_name :: "admin_user \<Rightarrow> admin_user \<Rightarrow> bool" where
  "same_name u v \<longleftrightarrow> eq_ignore_ascii_case (au_username u) (au_username v)"

definition share_identity :: "admin_user \<Rightarrow> admin_user \<Rightarrow> bool" where
  "share_identity u v \<longleftrightarrow> set (au_federated_identities u) \<inter> set (au_federated_identities v) \<noteq> {}"

text \<open>Accounts have known roles and states, no two of them a user name in common, up to case, or an
  identity, and one is an active administrator.\<close>

definition accounts_apart :: "accounts \<Rightarrow> bool" where
  "accounts_apart users \<longleftrightarrow>
     (\<forall>k u k' u'. bt_get users k = Some u \<and> bt_get users k' = Some u' \<and> k \<noteq> k' \<longrightarrow> \<not> same_name u u' \<and> \<not> share_identity u u')"

definition accounts_ok :: "accounts \<Rightarrow> bool" where
  "accounts_ok users \<longleftrightarrow>
     bt_wf users \<and> (\<forall>k u. bt_get users k = Some u \<longrightarrow> account_ok k u) \<and> accounts_apart users
     \<and> (\<exists>k u. bt_get users k = Some u \<and> is_active_admin u)"

definition sessions_ok :: "auth_inner \<Rightarrow> bool" where
  "sessions_ok inner \<longleftrightarrow>
     bt_wf (auth_sessions inner)
     \<and> (\<forall>h s. bt_get (auth_sessions inner) h = Some s \<longrightarrow>
          (\<exists>u. bt_get (auth_users inner) (sn_user_id s) = Some u \<and> au_status u = ''active''))"

definition inner_ok :: "auth_inner \<Rightarrow> bool" where
  "inner_ok inner \<longleftrightarrow> accounts_ok (auth_users inner) \<and> sessions_ok inner"

lemma holds_identity_iff: "holds_identity i s u \<longleftrightarrow> \<lparr> fi_issuer = i, fi_subject = s \<rparr> \<in> set (au_federated_identities u)"
proof
  assume "holds_identity i s u"
  then obtain x where "x \<in> set (au_federated_identities u)" "fi_issuer x = i" "fi_subject x = s"
    by (auto simp: holds_identity_def list_ex_iff)
  moreover have "x = \<lparr> fi_issuer = i, fi_subject = s \<rparr>"
    using \<open>fi_issuer x = i\<close> \<open>fi_subject x = s\<close> by (intro federated_identity.equality) simp_all
  ultimately show "\<lparr> fi_issuer = i, fi_subject = s \<rparr> \<in> set (au_federated_identities u)" by simp
qed (force simp: holds_identity_def list_ex_iff)

lemma accounts_apart_insert:
  assumes "accounts_apart users"
    and "\<And>k' u'. bt_get users k' = Some u' \<Longrightarrow> k' \<noteq> k \<Longrightarrow> \<not> same_name u u' \<and> \<not> share_identity u u'"
  shows "accounts_apart (bt_insert k u users)"
proof -
  have "same_name a b = same_name b a" "share_identity a b = share_identity b a" for a b
    by (auto simp: same_name_def share_identity_def eq_ignore_ascii_case_def)
  then show ?thesis using assms unfolding accounts_apart_def by (auto split: if_splits)
qed

lemma accounts_apart_changed:
  assumes apart: "accounts_apart users" and k: "bt_get users k = Some u" and name: "au_username u' = au_username u"
    and ids: "\<And>x. x \<in> set (au_federated_identities u') \<Longrightarrow> x \<notin> set (au_federated_identities u) \<Longrightarrow>
      (\<forall>k' v. bt_get users k' = Some v \<longrightarrow> x \<notin> set (au_federated_identities v))"
  shows "accounts_apart (bt_insert k u' users)"
  using apart
proof (rule accounts_apart_insert)
  fix k' v assume v: "bt_get users k' = Some v" "k' \<noteq> k"
  have old: "\<not> same_name u v" "\<not> share_identity u v" using apart k v by (auto simp: accounts_apart_def)
  have "\<not> share_identity u' v"
    using old(2) ids v(1) by (auto simp: share_identity_def disjoint_iff)
  with old(1) show "\<not> same_name u' v \<and> \<not> share_identity u' v" by (simp add: same_name_def name)
qed

lemma accounts_ok_changed:
  assumes ok: "accounts_ok users" and k: "bt_get users k = Some u" and name: "au_username u' = au_username u"
    and u': "account_ok k u'"
    and ids: "\<And>x. x \<in> set (au_federated_identities u') \<Longrightarrow> x \<notin> set (au_federated_identities u) \<Longrightarrow>
      (\<forall>k' v. bt_get users k' = Some v \<longrightarrow> x \<notin> set (au_federated_identities v))"
    and admin: "is_active_admin u' \<or> (\<exists>k' v. k' \<noteq> k \<and> bt_get users k' = Some v \<and> is_active_admin v)"
  shows "accounts_ok (bt_insert k u' users)"
proof -
  have "accounts_apart (bt_insert k u' users)"
    using ok by (intro accounts_apart_changed [OF _ k name ids]) (auto simp: accounts_ok_def)
  moreover have "\<exists>k' v. bt_get (bt_insert k u' users) k' = Some v \<and> is_active_admin v"
    using admin by (auto split: if_splits)
  ultimately show ?thesis using ok u' unfolding accounts_ok_def by auto
qed

lemma accounts_ok_same_access:
  assumes "accounts_ok users" "bt_get users k = Some u"
    and same: "au_id u' = au_id u" "au_username u' = au_username u" "au_role u' = au_role u" "au_status u' = au_status u"
    and ids: "\<And>x. x \<in> set (au_federated_identities u') \<Longrightarrow> x \<notin> set (au_federated_identities u) \<Longrightarrow>
      (\<forall>k' v. bt_get users k' = Some v \<longrightarrow> x \<notin> set (au_federated_identities v))"
  shows "accounts_ok (bt_insert k u' users)"
proof (rule accounts_ok_changed [OF assms(1,2) same(2) _ ids])
  show "account_ok k u'" using assms(1,2) same by (simp add: accounts_ok_def account_ok_def)
  obtain k' v where v: "bt_get users k' = Some v" "is_active_admin v" using assms(1) by (auto simp: accounts_ok_def)
  show "is_active_admin u' \<or> (\<exists>k' v. k' \<noteq> k \<and> bt_get users k' = Some v \<and> is_active_admin v)"
  proof (cases "k' = k")
    case True
    with v assms(2) same show ?thesis by (simp add: is_active_admin_def)
  qed (use v in blast)
qed

lemma bt_insert_present: "bt_get users k = Some u \<Longrightarrow> bt_update k f users = bt_insert k (f u) users"
  by (simp add: bt_update_def)

lemma sessions_ok_users:
  assumes "sessions_ok inner"
    and "\<And>k u. bt_get (auth_users inner) k = Some u \<Longrightarrow> au_status u = ''active'' \<Longrightarrow>
      (\<exists>u'. bt_get users k = Some u' \<and> au_status u' = ''active'')"
  shows "sessions_ok (inner\<lparr> auth_users := users \<rparr>)"
  using assms by (force simp: sessions_ok_def)

lemma sessions_ok_retain:
  "sessions_ok inner \<Longrightarrow> sessions_ok (inner\<lparr> auth_sessions := bt_retain P (auth_sessions inner) \<rparr>)"
  by (auto simp: sessions_ok_def bt_get_retain split: option.splits if_splits)

lemma inner_ok_prune [simp]: "inner_ok inner \<Longrightarrow> inner_ok (prune_expired_sessions now inner)"
  by (simp add: inner_ok_def prune_expired_sessions_def sessions_ok_retain)

lemma inner_ok_attempts [simp]: "inner_ok (inner\<lparr> auth_attempts := a \<rparr>) = inner_ok inner"
  by (simp add: inner_ok_def sessions_ok_def)

lemma inner_ok_failed [simp]: "inner_ok (login_failed libs username now inner) = inner_ok inner"
  by (simp add: login_failed_def)

lemma prune_users [simp]: "auth_users (prune_expired_sessions now inner) = auth_users inner"
  by (simp add: prune_expired_sessions_def)

section \<open>Saving\<close>

lemma collect_auth_file: "accounts_ok (auth_users inner) \<Longrightarrow> collect_users (auth_file inner) = auth_users inner"
  unfolding auth_file_def collect_users_def
  by (rule collect_by_values) (auto simp: accounts_ok_def account_ok_def bt_get_iff_mem)

definition row_ok :: "auth_table \<Rightarrow> bool" where
  "row_ok table \<longleftrightarrow> (\<forall>f r. table ''auth'' = Some (f, r) \<longrightarrow> accounts_ok (collect_users f))"

lemma save_cases:
  assumes "save_or_restore_locked fault table previous inner = (table', cell', r)"
    and "row_ok table" and "accounts_ok (auth_users inner)"
  obtains (saved) "r = Inr ()" "cell_doc cell' = inner" "row_ok table'"
  | (failed) e where "r = Inl e" "cell_doc cell' = cell_doc previous" "row_ok table'"
proof -
  obtain t0 r0 where cas: "compare_and_swap_value fault table ''auth'' (cell_revision previous) (auth_file inner) = (t0, r0)"
    by force
  have row: "row_ok (table(''auth'' \<mapsto> (auth_file inner, n)))" for n
    using assms(3) by (simp add: row_ok_def collect_auth_file)
  from cas show thesis
    by (cases rule: cas_value_cases)
      (use assms cas saved failed row in \<open>auto simp: save_or_restore_locked_def save_or_restore_def\<close>)
qed

lemma open_session_ok:
  assumes "inner_ok inner" "bt_get (auth_users inner) k = Some u" "au_status u = ''active''"
  shows "inner_ok (open_session libs cfg now token k inner)"
proof -
  let ?u = "u\<lparr> au_last_login_at_ms := Some now, au_updated_at_ms := now \<rparr>"
  have users: "auth_users (open_session libs cfg now token k inner) = bt_insert k ?u (auth_users inner)"
    using assms(2) by (simp add: open_session_def bt_insert_present)
  have ok: "accounts_ok (auth_users inner)" "sessions_ok inner" using assms(1) by (simp_all add: inner_ok_def)
  have "accounts_ok (bt_insert k ?u (auth_users inner))"
    using ok(1) assms(2) by (rule accounts_ok_same_access) simp_all
  moreover have "sessions_ok (open_session libs cfg now token k inner)"
    using ok(2) assms(2,3) by (force simp: sessions_ok_def open_session_def)
  ultimately show ?thesis by (simp add: inner_ok_def users)
qed

lemma sign_in_cases:
  assumes "sign_in libs cfg fault gone now uuids k table previous inner = (table', cell', r)"
    and "row_ok table" "inner_ok inner" "bt_get (auth_users inner) k = Some u" "au_status u = ''active''"
  obtains (saved) l where "r = Inr l" "cell_doc cell' = open_session libs cfg now (new_session_token uuids) k inner"
      "lr_session_token l = new_session_token uuids" "pu_id (lr_user l) = k" "lr_expires_at_ms l = expires_at cfg now"
      "pu_role (lr_user l) = au_role u" "inner_ok (cell_doc cell')" "row_ok table'"
  | (failed) e where "r = Inl e" "cell_doc cell' = cell_doc previous" "row_ok table'"
proof -
  let ?inner = "open_session libs cfg now (new_session_token uuids) k inner"
  obtain t0 c0 r0 where sv: "save_or_restore_locked fault table previous ?inner = (t0, c0, r0)" by (rule prod_cases3)
  have ok: "inner_ok ?inner" using open_session_ok assms(3-5) by blast
  have u: "bt_get (auth_users ?inner) k = Some (u\<lparr> au_last_login_at_ms := Some now, au_updated_at_ms := now \<rparr>)"
    using assms(4) by (simp add: open_session_def)
  have i: "au_id u = k" using assms(3,4) by (simp add: inner_ok_def accounts_ok_def account_ok_def)
  have acc: "accounts_ok (auth_users ?inner)" using ok by (simp add: inner_ok_def)
  from sv assms(2) acc show thesis
  proof (cases rule: save_cases)
    case saved
    show thesis
      by (rule that(1)) (use assms(1) sv u i ok saved in \<open>auto simp: sign_in_def Let_def public_user_of_def\<close>)
  next
    case (failed e)
    show thesis by (rule that(2)) (use assms(1) sv failed in \<open>auto simp: sign_in_def Let_def\<close>)
  qed
qed

section \<open>The operations keep the accounts\<close>

lemma login_candidate_ok:
  "login_candidate now username inner = (inner', r) \<Longrightarrow> inner_ok inner \<Longrightarrow> inner_ok inner'"
  by (auto simp: login_candidate_def Let_def split: if_splits)

lemma finish_federated_cases:
  assumes "finish_federated_login_locked libs cfg fault now uuids k table previous inner = (table', cell', r)"
    and "row_ok table" "inner_ok inner"
  obtains (saved) u l where "bt_get (auth_users inner) k = Some u" "r = Inr l"
      "cell_doc cell' = open_session libs cfg now (new_session_token uuids) k inner"
      "lr_session_token l = new_session_token uuids" "pu_id (lr_user l) = k" "lr_expires_at_ms l = expires_at cfg now"
      "pu_role (lr_user l) = au_role u" "inner_ok (cell_doc cell')" "row_ok table'"
  | (failed) e where "r = Inl e" "cell_doc cell' = cell_doc previous \<or> cell_doc cell' = inner" "row_ok table'"
proof (cases "bt_get (auth_users inner) k")
  case None
  then show thesis using assms that(2) by (auto simp: finish_federated_login_locked_def)
next
  case (Some u)
  show thesis
  proof (cases "au_status u = ''active''")
    case True
    have "sign_in libs cfg fault ''OIDC user disappeared'' now uuids k table previous inner = (table', cell', r)"
      using assms(1) Some True by (simp add: finish_federated_login_locked_def)
    from this assms(2,3) Some True show thesis
      by (cases rule: sign_in_cases) (use Some that in auto)
  next
    case False
    then show thesis using assms Some that(2) by (auto simp: finish_federated_login_locked_def)
  qed
qed

lemma bound_user_id_None:
  "bound_user_id inner i s = Inr None \<Longrightarrow> bt_get (auth_users inner) k = Some u \<Longrightarrow>
   \<lparr> fi_issuer = i, fi_subject = s \<rparr> \<notin> set (au_federated_identities u)"
  using bt_get_Some_mem [of "auth_users inner" k u]
  by (force simp: bound_user_id_def filter_empty_conv holds_identity_iff [symmetric] split: list.splits prod.splits)

lemma bind_identity_ok:
  assumes ok: "inner_ok inner" and u: "bt_get (auth_users inner) k = Some u"
    and free: "bound_user_id inner i s = Inr None"
  shows "inner_ok (inner\<lparr> auth_users := bt_update k (\<lambda>user. user\<lparr> au_federated_identities := au_federated_identities user @
     [\<lparr> fi_issuer = i, fi_subject = s \<rparr>] \<rparr>) (auth_users inner) \<rparr>)"
proof -
  let ?u = "u\<lparr> au_federated_identities := au_federated_identities u @ [\<lparr> fi_issuer = i, fi_subject = s \<rparr>] \<rparr>"
  have acc: "accounts_ok (auth_users inner)" and ses: "sessions_ok inner" using ok by (simp_all add: inner_ok_def)
  have "accounts_ok (bt_insert k ?u (auth_users inner))"
    using acc u by (rule accounts_ok_same_access) (use bound_user_id_None [OF free] in auto)
  moreover have "sessions_ok (inner\<lparr> auth_users := bt_insert k ?u (auth_users inner) \<rparr>)"
    using ses u by (intro sessions_ok_users) auto
  ultimately show ?thesis using u by (simp add: inner_ok_def bt_insert_present)
qed

lemma add_account_ok:
  assumes ok: "inner_ok inner" and fresh: "bt_get (auth_users inner) (au_id u) = None" and u: "account_ok (au_id u) u"
    and apart: "\<And>k' v. bt_get (auth_users inner) k' = Some v \<Longrightarrow> \<not> same_name u v \<and> \<not> share_identity u v"
  shows "inner_ok (inner\<lparr> auth_users := bt_insert (au_id u) u (auth_users inner) \<rparr>)"
proof -
  have acc: "accounts_ok (auth_users inner)" and ses: "sessions_ok inner" using ok by (simp_all add: inner_ok_def)
  have "accounts_apart (bt_insert (au_id u) u (auth_users inner))"
    using acc apart by (intro accounts_apart_insert) (auto simp: accounts_ok_def)
  moreover have "\<exists>k' v. bt_get (bt_insert (au_id u) u (auth_users inner)) k' = Some v \<and> is_active_admin v"
  proof -
    obtain k' v where v: "bt_get (auth_users inner) k' = Some v" "is_active_admin v" using acc by (auto simp: accounts_ok_def)
    then have "bt_get (bt_insert (au_id u) u (auth_users inner)) k' = Some v" using fresh by auto
    with v(2) show ?thesis by blast
  qed
  ultimately have "accounts_ok (bt_insert (au_id u) u (auth_users inner))"
    using acc u unfolding accounts_ok_def by auto
  moreover have "sessions_ok (inner\<lparr> auth_users := bt_insert (au_id u) u (auth_users inner) \<rparr>)"
    using ses fresh by (intro sessions_ok_users) auto
  ultimately show ?thesis by (simp add: inner_ok_def)
qed

lemma name_free:
  "\<not> name_taken username email inner \<Longrightarrow> bt_get (auth_users inner) k = Some v \<Longrightarrow> \<not> eq_ignore_ascii_case (au_username v) username"
  using bt_get_Some_mem [of "auth_users inner" k v] by (force simp: name_taken_def list_ex_iff bt_values_def)

lemma eq_ignore_ascii_case_sym: "eq_ignore_ascii_case a b = eq_ignore_ascii_case b a"
  by (auto simp: eq_ignore_ascii_case_def)

lemma add_federated_ok:
  assumes "inner_ok inner" "bt_get (auth_users inner) (''usr_'' @ uuid) = None"
    and "bound_user_id inner i s = Inr None" "\<not> name_taken username email inner"
  shows "inner_ok (inner\<lparr> auth_users := bt_insert (''usr_'' @ uuid) (federated_user uuid now h (i, s, username, email)) (auth_users inner) \<rparr>)"
proof -
  let ?u = "federated_user uuid now h (i, s, username, email)"
  have i: "au_id ?u = ''usr_'' @ uuid" by (simp add: federated_user_def)
  have "inner_ok (inner\<lparr> auth_users := bt_insert (au_id ?u) ?u (auth_users inner) \<rparr>)"
  proof (rule add_account_ok [OF assms(1)])
    fix k' v assume v: "bt_get (auth_users inner) k' = Some v"
    show "\<not> same_name ?u v \<and> \<not> share_identity ?u v"
      using name_free [OF assms(4) v] bound_user_id_None [OF assms(3) v]
      by (simp add: same_name_def share_identity_def federated_user_def eq_ignore_ascii_case_sym)
  qed (use assms(2) in \<open>simp_all add: federated_user_def account_ok_def\<close>)
  then show ?thesis by (simp add: i)
qed

lemma created_user_ok:
  "created_user libs salt uuid now input = Inr u \<Longrightarrow> account_ok (au_id u) u \<and> au_id u = ''usr_'' @ uuid \<and> au_federated_identities u = []"
  by (auto simp: created_user_def result_iffs account_ok_def validate_role_def validate_status_def split: if_splits)

lemma create_user_ok:
  assumes "insert_user libs salt uuid now input inner = Inr (p, inner')" "inner_ok inner" "bt_get (auth_users inner) (''usr_'' @ uuid) = None"
  shows "inner_ok inner'"
proof -
  obtain u where u: "created_user libs salt uuid now input = Inr u"
    and taken: "\<not> list_ex (\<lambda>v. eq_ignore_ascii_case (au_username v) (au_username u)) (bt_values (auth_users inner))"
    and inner': "inner' = inner\<lparr> auth_users := bt_insert (au_id u) u (auth_users inner) \<rparr>"
    using assms(1) by (auto simp: insert_user_def result_iffs split: if_splits)
  note f = created_user_ok [OF u]
  have "\<not> same_name u v \<and> \<not> share_identity u v" if "bt_get (auth_users inner) k' = Some v" for k' v
    using taken bt_get_Some_mem [OF that] f
    by (force simp: list_ex_iff bt_values_def same_name_def share_identity_def eq_ignore_ascii_case_sym [of "au_username u"])
  then show ?thesis unfolding inner' using assms(2,3) f by (intro add_account_ok) auto
qed

lemma transpose_role:
  "transpose validate_role m = Inr r \<Longrightarrow> r = m \<and> (\<forall>x. m = Some x \<longrightarrow> x \<in> {''admin'', ''user'', ''viewer''})"
  by (cases m) (auto simp: transpose_def validate_role_def split: if_splits)

lemma transpose_status:
  "transpose validate_status m = Inr r \<Longrightarrow> r = m \<and> (\<forall>x. m = Some x \<longrightarrow> x \<in> {''active'', ''disabled'', ''suspended''})"
  by (cases m) (auto simp: transpose_def validate_status_def split: if_splits)

definition password_given :: "update_user_input \<Rightarrow> bool" where
  "password_given input \<longleftrightarrow> ui_password input \<noteq> None \<and> ui_password input \<noteq> Some []"

lemma new_password_given: "new_password_hash libs salt input = Inr h \<Longrightarrow> (h \<noteq> None) = password_given input"
  by (cases "ui_password input")
    (auto simp: new_password_hash_def transpose_def password_given_def result_iffs)

text \<open>A successful update: the new account, and the sessions that end.\<close>

lemma update_user_cases:
  assumes "change_user libs salt now k current input inner = Inr (p, inner')" and ok: "inner_ok inner"
  obtains u u' where "bt_get (auth_users inner) k = Some u" "account_ok k u'" "au_username u' = au_username u"
    "au_federated_identities u' = au_federated_identities u"
    "is_active_admin u' \<or> (\<exists>k' v. k' \<noteq> k \<and> bt_get (auth_users inner) k' = Some v \<and> is_active_admin v)"
    "inner' = (if password_given input \<or> au_status u' \<noteq> ''active'' \<or> au_role u' \<noteq> au_role u
               then revoke_sessions k (inner\<lparr> auth_users := bt_insert k u' (auth_users inner) \<rparr>)
               else inner\<lparr> auth_users := bt_insert k u' (auth_users inner) \<rparr>)"
    "p = public_user_of u' 1 0"
proof -
  obtain email role status ph u where v: "transpose validate_role (ui_role input) = Inr role"
      "transpose validate_status (ui_status input) = Inr status" "new_password_hash libs salt input = Inr ph"
    and u: "bt_get (auth_users inner) k = Some u"
    and rest: "(let next_role = (case role of Some r \<Rightarrow> r | None \<Rightarrow> au_role u);
                next_status = (case status of Some s \<Rightarrow> s | None \<Rightarrow> au_status u)
            in if active_admins_after k next_role next_status inner = 0
               then Inl (Forbidden ''cannot remove the last active admin'')
               else let user = updated_user now email next_role next_status ph u;
                        changed = inner\<lparr> auth_users := bt_insert k user (auth_users inner) \<rparr>
                    in Inr (public_user_of user 1 0,
                         if should_clear_sessions ph next_role next_status u
                         then revoke_sessions k changed else changed)) = Inr (p, inner')"
    using assms(1) by (auto simp: change_user_def result_iffs split: if_splits)
  let ?role = "case role of Some r \<Rightarrow> r | None \<Rightarrow> au_role u" and ?status = "case status of Some s \<Rightarrow> s | None \<Rightarrow> au_status u"
  let ?u = "updated_user now email ?role ?status ph u"
  have admins: "active_admins_after k ?role ?status inner \<noteq> 0"
    and p: "p = public_user_of ?u 1 0"
    and inner': "inner' = (if should_clear_sessions ph ?role ?status u
        then revoke_sessions k (inner\<lparr> auth_users := bt_insert k ?u (auth_users inner) \<rparr>)
        else inner\<lparr> auth_users := bt_insert k ?u (auth_users inner) \<rparr>)"
    using rest by (auto simp: Let_def split: if_splits)
  have acc: "accounts_ok (auth_users inner)" using ok by (simp add: inner_ok_def)
  have old: "account_ok k u" using acc u by (simp add: accounts_ok_def)
  have "account_ok k ?u"
    using old transpose_role [OF v(1)] transpose_status [OF v(2)]
    by (auto simp: account_ok_def updated_user_def split: option.splits)
  moreover obtain k' w where w: "(k', w) \<in> set (auth_users inner)"
      "if k' = k then ?role = ''admin'' \<and> ?status = ''active'' else is_active_admin w"
    using admins by (auto simp: active_admins_after_def filter_empty_conv)
  moreover have "is_active_admin ?u \<or> (\<exists>k' v. k' \<noteq> k \<and> bt_get (auth_users inner) k' = Some v \<and> is_active_admin v)"
  proof (cases "k' = k")
    case True
    with w(2) show ?thesis by (simp add: is_active_admin_def updated_user_def)
  next
    case False
    with w acc show ?thesis by (auto simp: accounts_ok_def bt_get_iff_mem)
  qed
  ultimately show thesis
    by (intro that [OF u, of ?u])
      (use p inner' new_password_given [OF v(3)] in \<open>simp_all add: updated_user_def should_clear_sessions_def\<close>)
qed

lemma sessions_ok_revoke:
  assumes "sessions_ok inner" and "\<And>k' u. k' \<noteq> k \<Longrightarrow> bt_get (auth_users inner) k' = Some u \<Longrightarrow> bt_get users k' = Some u"
  shows "sessions_ok (revoke_sessions k (inner\<lparr> auth_users := users \<rparr>))"
  unfolding sessions_ok_def
proof (intro conjI allI impI)
  show "bt_wf (auth_sessions (revoke_sessions k (inner\<lparr> auth_users := users \<rparr>)))"
    using assms(1) by (simp add: revoke_sessions_def sessions_ok_def)
  fix h s assume "bt_get (auth_sessions (revoke_sessions k (inner\<lparr> auth_users := users \<rparr>))) h = Some s"
  then have s: "bt_get (auth_sessions inner) h = Some s" "sn_user_id s \<noteq> k"
    using assms(1) by (auto simp: revoke_sessions_def sessions_ok_def bt_get_retain split: option.splits if_splits)
  then obtain u where "bt_get (auth_users inner) (sn_user_id s) = Some u" "au_status u = ''active''"
    using assms(1) by (auto simp: sessions_ok_def)
  with assms(2) s(2) show "\<exists>u. bt_get (auth_users (revoke_sessions k (inner\<lparr> auth_users := users \<rparr>))) (sn_user_id s) = Some u
      \<and> au_status u = ''active''"
    by (auto simp: revoke_sessions_def)
qed

lemma revoke_users [simp]: "auth_users (revoke_sessions k inner) = auth_users inner"
  by (simp add: revoke_sessions_def)

lemma update_user_ok:
  assumes "change_user libs salt now k current input inner = Inr (p, inner')" "inner_ok inner"
  shows "inner_ok inner'"
  using assms
proof (cases rule: update_user_cases)
  case (1 u u')
  have acc: "accounts_ok (auth_users inner)" and ses: "sessions_ok inner" using assms(2) by (simp_all add: inner_ok_def)
  have "accounts_ok (bt_insert k u' (auth_users inner))"
    by (rule accounts_ok_changed [OF acc 1(1,3,2)]) (use 1(4,5) in auto)
  moreover have "sessions_ok (inner\<lparr> auth_users := bt_insert k u' (auth_users inner) \<rparr>)" if "au_status u' = ''active''"
    using ses that by (intro sessions_ok_users) auto
  moreover have "sessions_ok (revoke_sessions k (inner\<lparr> auth_users := bt_insert k u' (auth_users inner) \<rparr>))"
    using ses by (rule sessions_ok_revoke) simp
  ultimately show ?thesis using 1(6) by (auto simp: inner_ok_def split: if_splits)
qed

text \<open>Deleting an administrator leaves another one.\<close>

lemma other_admin:
  assumes "bt_wf users" "bt_get users k = Some u" "length (filter is_active_admin (bt_values users)) > 1"
  shows "\<exists>k' v. k' \<noteq> k \<and> bt_get users k' = Some v \<and> is_active_admin v"
proof (rule ccontr)
  assume none: "\<not> ?thesis"
  let ?xs = "filter (\<lambda>(_, v). is_active_admin v) users"
  have d: "distinct (map fst ?xs)" using bt_wf_distinct [OF assms(1)] by (rule distinct_map_filter)
  have "set (map fst ?xs) \<subseteq> {k}" using none assms(1) by (auto simp: bt_get_iff_mem)
  then have "card (set (map fst ?xs)) \<le> 1" using card_mono [of "{k}" "set (map fst ?xs)"] by simp
  then have "length ?xs \<le> 1" using distinct_card [OF d] by simp
  moreover have "length ?xs = length (filter is_active_admin (bt_values users))"
    by (simp add: bt_values_def filter_map comp_def case_prod_unfold)
  ultimately show False using assms(3) by simp
qed

lemma removed_ok:
  assumes "inner_ok inner" and "bt_get (auth_users inner) k = Some u"
    and "au_role u = ''admin'' \<longrightarrow> active_admin_count inner > 1"
  shows "inner_ok (revoke_sessions k (inner\<lparr> auth_users := bt_remove k (auth_users inner) \<rparr>))"
proof -
  have acc: "accounts_ok (auth_users inner)" and ses: "sessions_ok inner" using assms(1) by (simp_all add: inner_ok_def)
  then have wf: "bt_wf (auth_users inner)" by (simp add: accounts_ok_def)
  have "\<exists>k' v. k' \<noteq> k \<and> bt_get (auth_users inner) k' = Some v \<and> is_active_admin v"
  proof (cases "au_role u = ''admin''")
    case True
    with assms(3) other_admin [OF wf assms(2)] show ?thesis by (simp add: active_admin_count_def)
  next
    case False
    obtain k' v where "bt_get (auth_users inner) k' = Some v" "is_active_admin v" using acc by (auto simp: accounts_ok_def)
    with False assms(2) show ?thesis by (intro exI [of _ k'] exI [of _ v]) (auto simp: is_active_admin_def)
  qed
  then have "\<exists>k' v. bt_get (bt_remove k (auth_users inner)) k' = Some v \<and> is_active_admin v" by auto
  with acc have "accounts_ok (bt_remove k (auth_users inner))"
    unfolding accounts_ok_def accounts_apart_def by (auto split: if_splits)
  with ses show ?thesis by (auto simp: inner_ok_def intro!: sessions_ok_revoke)
qed

section \<open>Start-up\<close>

lemma new_bootstrap_admin_ok:
  "new_bootstrap_admin libs salt uuid now username email password = Inr u \<Longrightarrow>
   account_ok (au_id u) u \<and> is_active_admin u \<and> au_federated_identities u = [] \<and> au_username u = username"
  by (auto simp: new_bootstrap_admin_def result_iffs account_ok_def is_active_admin_def)

lemma single_account_ok:
  "account_ok (au_id u) u \<Longrightarrow> is_active_admin u \<Longrightarrow> inner_ok \<lparr> auth_users = [(au_id u, u)], auth_sessions = [], auth_attempts = [] \<rparr>"
  by (auto simp: inner_ok_def accounts_ok_def sessions_ok_def accounts_apart_def bt_wf_def bt_get_def)

lemma backup_admin_ok:
  assumes "backup_admin libs env enterprise f now [(au_id p, p)] = Inr users"
    and p: "account_ok (au_id p) p" "is_active_admin p" "au_federated_identities p = []"
  shows "inner_ok \<lparr> auth_users = users, auth_sessions = [], auth_attempts = [] \<rparr>"
proof (cases "users = [(au_id p, p)]")
  case True
  with single_account_ok p show ?thesis by simp
next
  case False
  with assms(1) obtain username email password b where
      taken: "\<not> eq_ignore_ascii_case (au_username p) username"
    and b: "new_bootstrap_admin libs (snd f) (fst f) now username email password = Inr b"
    and users: "users = bt_insert (au_id b) b [(au_id p, p)]"
    by (auto simp: backup_admin_def Let_def result_iffs bt_values_def simp del: bt_insert.simps split: option.splits if_splits)
  note bo = new_bootstrap_admin_ok [OF b]
  show ?thesis
  proof (cases "au_id b = au_id p")
    case True
    with bo users single_account_ok [of b] show ?thesis by simp
  next
    case False
    let ?inner = "\<lparr> auth_users = [(au_id p, p)], auth_sessions = [], auth_attempts = [] \<rparr>"
    have "\<not> same_name b v \<and> \<not> share_identity b v" if "bt_get (auth_users ?inner) k = Some v" for k v
      using that taken bo by (auto simp: bt_get_def same_name_def share_identity_def eq_ignore_ascii_case_sym split: if_splits)
    then have "inner_ok (?inner\<lparr> auth_users := bt_insert (au_id b) b (auth_users ?inner) \<rparr>)"
      using single_account_ok [OF p(1,2)] bo False by (intro add_account_ok) (auto simp: bt_get_def)
    then show ?thesis by (simp add: users)
  qed
qed

lemma load_ok:
  assumes load: "load_or_bootstrap libs env enterprise token f1 f2 now fault table = (table', Inr cell)"
    and row: "row_ok table"
  shows "inner_ok (cell_doc cell) \<and> row_ok table' \<and> auth_sessions (cell_doc cell) = []"
proof (cases "table ''auth''")
  case (Some fr)
  obtain f r where fr: "fr = (f, r)" by force
  then have acc: "accounts_ok (collect_users f)" using row Some by (simp add: row_ok_def)
  then have "collect_users f \<noteq> []" by (auto simp: accounts_ok_def)
  with load Some fr have "table' = table" "cell_doc cell = loaded_inner f"
    by (auto simp: load_or_bootstrap_def bootstrap_initial_admins_def load_cell_def read_postgres_value_def loaded_inner_def)
  with acc row show ?thesis by (simp add: loaded_inner_def inner_ok_def sessions_ok_def)
next
  case None
  let ?cell = "load_cell loaded_inner (loaded_inner []) ''auth'' table"
  have doc: "cell_doc ?cell = \<lparr> auth_users = [], auth_sessions = [], auth_attempts = [] \<rparr>"
    using None by (simp add: load_cell_def read_postgres_value_def loaded_inner_def collect_users_def collect_by_def)
  obtain username email password p users where
      p: "admin_from libs f1 now username email password = Inr p"
    and users: "backup_admin libs env enterprise f2 now (bt_insert (au_id p) p []) = Inr users"
    and sv: "save_or_restore_locked fault table ?cell ((cell_doc ?cell)\<lparr> auth_users := users \<rparr>) = (table', cell, Inr ())"
    using load doc by (auto simp: load_or_bootstrap_def bootstrap_initial_admins_def result_iffs split: prod.splits sum.splits)
  obtain username' email' where p': "new_bootstrap_admin libs (snd f1) (fst f1) now username' email' password = Inr p"
    using p by (auto simp: admin_from_def result_iffs)
  note po = new_bootstrap_admin_ok [OF p']
  have ok: "inner_ok ((cell_doc ?cell)\<lparr> auth_users := users \<rparr>)"
    using backup_admin_ok [of libs env enterprise f2 now p users] users po by (simp add: doc)
  have acc: "accounts_ok (auth_users ((cell_doc ?cell)\<lparr> auth_users := users \<rparr>))" using ok by (simp add: inner_ok_def)
  from sv row acc show ?thesis
    by (cases rule: save_cases) (use ok doc in auto)
qed

section \<open>The system\<close>

datatype auth_event =
    SignedIn string string u64
  | SignedOut string
  | Revoked string
  | Restarted

text \<open>
  What a session is, read off the log, newest event first: the last sign-in under the hash of the
  token, unless it was signed out, the access of its user was revoked or the process was restarted
  since.
\<close>

fun live :: "auth_event list \<Rightarrow> string \<Rightarrow> (string \<times> u64) option" where
  "live [] h = None"
| "live (SignedIn h' user expires # lg) h = (if h' = h then Some (user, expires) else live lg h)"
| "live (SignedOut h' # lg) h = (if h' = h then None else live lg h)"
| "live (Revoked user # lg) h =
     (case live lg h of Some (user', expires) \<Rightarrow> if user' = user then None else Some (user', expires) | None \<Rightarrow> None)"
| "live (Restarted # lg) h = None"

datatype pending =
    PasswordLogin u64 string string "(string \<times> admin_user) option"
  | Provision u64 "string \<times> string \<times> string \<times> string"

record auth_system =
  sys_table :: auth_table
  sys_cell :: auth_cell
  sys_pending :: "nat \<Rightarrow> pending option"
  sys_log :: "auth_event list"
  sys_clock :: u64

definition sign_in_events :: "auth_libs \<Rightarrow> login_result result \<Rightarrow> auth_event list" where
  "sign_in_events libs r =
     (case r of
        Inl _ \<Rightarrow> []
      | Inr l \<Rightarrow> [SignedIn (hash_session_token libs (lr_session_token l)) (pu_id (lr_user l)) (lr_expires_at_ms l)])"

definition federated_events :: "auth_libs \<Rightarrow> federated_outcome result \<Rightarrow> auth_event list" where
  "federated_events libs r = (case r of Inr (Inl l) \<Rightarrow> sign_in_events libs (Inr l) | _ \<Rightarrow> [])"

text \<open>An update revokes access when it sets a password or leaves the user inactive or in another role.\<close>

definition update_events :: "string \<Rightarrow> update_user_input \<Rightarrow> auth_inner \<Rightarrow> public_user result \<Rightarrow> auth_event list" where
  "update_events user_id input before r =
     (case (r, bt_get (auth_users before) user_id) of
        (Inr p, Some u) \<Rightarrow>
          if password_given input \<or> pu_status p \<noteq> ''active'' \<or> pu_role p \<noteq> au_role u then [Revoked user_id] else []
      | _ \<Rightarrow> [])"

definition sys_update :: "auth_system \<Rightarrow> auth_table \<Rightarrow> auth_cell \<Rightarrow> auth_event list \<Rightarrow> u64 \<Rightarrow> auth_system" where
  "sys_update s table cell events now =
     s\<lparr> sys_table := table, sys_cell := cell, sys_log := events @ sys_log s, sys_clock := max (sys_clock s) now \<rparr>"

definition sys_doc :: "auth_system \<Rightarrow> auth_inner" where
  "sys_doc s = cell_doc (sys_cell s)"

text \<open>A new random identifier is not in use.\<close>

definition fresh_user :: "auth_system \<Rightarrow> string \<Rightarrow> bool" where
  "fresh_user s uuid \<longleftrightarrow> bt_get (auth_users (sys_doc s)) (''usr_'' @ uuid) = None"

inductive auth_step :: "auth_libs \<Rightarrow> auth_config \<Rightarrow> auth_system \<Rightarrow> auth_system \<Rightarrow> bool"
  for libs :: auth_libs and cfg :: auth_config where
  login_begins:
    "login_username input = Inr username \<Longrightarrow>
     login_candidate now username (sys_doc s) = (inner, r) \<Longrightarrow>
     auth_step libs cfg s ((sys_update s (sys_table s) ((sys_cell s)\<lparr> cell_doc := inner \<rparr>) [] now)\<lparr> sys_pending :=
       (sys_pending s)(k := (case r of Inl _ \<Rightarrow> None | Inr c \<Rightarrow> Some (PasswordLogin now username (li_password input) c))) \<rparr>)"
| login_ends:
    "sys_pending s k = Some (PasswordLogin now username password candidate) \<Longrightarrow>
     login_outcome libs cfg fault now uuids username (login_verified libs password candidate) candidate
       (sys_table s) (sys_cell s) = (table', cell', r) \<Longrightarrow>
     auth_step libs cfg s ((sys_update s table' cell' (sign_in_events libs r) now)\<lparr> sys_pending := (sys_pending s)(k := None) \<rparr>)"
| federated_begins:
    "federated_identity_of input = Inr (issuer, subject) \<Longrightarrow>
     federated_known libs cfg fault now uuids input issuer subject (sys_table s) (sys_cell s) = (table', cell', r) \<Longrightarrow>
     auth_step libs cfg s ((sys_update s table' cell' (federated_events libs r) now)\<lparr> sys_pending :=
       (sys_pending s)(k := (case r of Inr (Inr request) \<Rightarrow> Some (Provision now request) | _ \<Rightarrow> None)) \<rparr>)"
| federated_ends:
    "sys_pending s k = Some (Provision now request) \<Longrightarrow>
     hash_password libs salt secret = Inr password_hash \<Longrightarrow>
     fresh_user s uuid \<Longrightarrow>
     federated_provision libs cfg fault now uuids uuid password_hash request (sys_table s) (sys_cell s) = (table', cell', r) \<Longrightarrow>
     auth_step libs cfg s ((sys_update s table' cell' (sign_in_events libs r) now)\<lparr> sys_pending := (sys_pending s)(k := None) \<rparr>)"
| session_checked:
    "require_session libs now headers (sys_doc s) = (inner, r) \<Longrightarrow>
     auth_step libs cfg s (sys_update s (sys_table s) ((sys_cell s)\<lparr> cell_doc := inner \<rparr>) [] now)"
| logged_out:
    "session_token_from_headers headers = Some token \<Longrightarrow>
     auth_step libs cfg s (sys_update s (sys_table s) ((sys_cell s)\<lparr> cell_doc := logout libs headers (sys_doc s) \<rparr>)
       [SignedOut (hash_session_token libs token)] now)"
| user_created:
    "fresh_user s uuid \<Longrightarrow>
     create_user libs fault salt uuid now input (sys_table s) (sys_cell s) = (table', cell', r) \<Longrightarrow>
     auth_step libs cfg s (sys_update s table' cell' [] now)"
| user_updated:
    "update_user libs fault salt now user_id current_user_id input (sys_table s) (sys_cell s)
       = (table', cell', r) \<Longrightarrow>
     auth_step libs cfg s (sys_update s table' cell' (update_events user_id input (sys_doc s) r) now)"
| user_deleted:
    "delete_user fault user_id current_user_id (sys_table s) (sys_cell s) = (table', cell', r) \<Longrightarrow>
     auth_step libs cfg s (sys_update s table' cell' (case r of Inr _ \<Rightarrow> [Revoked user_id] | Inl _ \<Rightarrow> []) now)"
| health_checked:
    "health_check ''auth'' (sys_table s) ''auth'' (sys_cell s) = (cell', r) \<Longrightarrow>
     auth_step libs cfg s (sys_update s (sys_table s) cell' [] now)"
| replica_wrote:
    "row_ok table' \<Longrightarrow> auth_step libs cfg s (sys_update s table' (sys_cell s) [] now)"
| restarted:
    "load_or_bootstrap libs env enterprise token f1 f2 now fault (sys_table s) = (table', Inr cell') \<Longrightarrow>
     auth_step libs cfg s ((sys_update s table' cell' [Restarted] now)\<lparr> sys_pending := \<lambda>_. None \<rparr>)"

inductive_cases auth_stepE [consumes 1, case_names login_begins login_ends federated_begins federated_ends session_checked
  logged_out user_created user_updated user_deleted health_checked replica_wrote restarted]: "auth_step libs cfg s t"

inductive auth_init :: "auth_libs \<Rightarrow> auth_system \<Rightarrow> bool" for libs :: auth_libs where
  "row_ok table \<Longrightarrow>
   load_or_bootstrap libs env enterprise token f1 f2 now fault table = (sys_table s, Inr (sys_cell s)) \<Longrightarrow>
   sys_pending s = (\<lambda>_. None) \<Longrightarrow> sys_log s = [] \<Longrightarrow> auth_init libs s"

section \<open>The sessions follow the log\<close>

fun agrees :: "u64 \<Rightarrow> admin_session option \<Rightarrow> (string \<times> u64) option \<Rightarrow> bool" where
  "agrees clock (Some s) l \<longleftrightarrow> l = Some (sn_user_id s, sn_expires_at_ms s)"
| "agrees clock None (Some l) \<longleftrightarrow> snd l \<le> clock"
| "agrees clock None None \<longleftrightarrow> True"

definition tracks :: "auth_event list \<Rightarrow> u64 \<Rightarrow> (string, admin_session) btree \<Rightarrow> bool" where
  "tracks lg clock sessions \<longleftrightarrow> (\<forall>h. agrees clock (bt_get sessions h) (live lg h))"

lemma agrees_later: "agrees c x l \<Longrightarrow> agrees (max c now) x l"
  by (cases x; cases l) auto

lemma tracks_later: "tracks lg c sessions \<Longrightarrow> tracks lg (max c now) sessions"
  by (simp add: tracks_def agrees_later)

lemma tracks_prune:
  assumes "tracks lg c sessions" "bt_wf sessions"
  shows "tracks lg (max c now) (bt_retain (\<lambda>_ s. sn_expires_at_ms s > now) sessions)"
  unfolding tracks_def
proof
  fix h
  have "agrees c (bt_get sessions h) (live lg h)" using assms(1) by (simp add: tracks_def)
  then show "agrees (max c now) (bt_get (bt_retain (\<lambda>_ s. sn_expires_at_ms s > now) sessions) h) (live lg h)"
    using assms(2) by (cases "bt_get sessions h"; cases "live lg h") (auto simp: bt_get_retain)
qed

lemma tracks_signed_in:
  "tracks lg c sessions \<Longrightarrow>
   tracks (SignedIn h user expires # lg) c (bt_insert h \<lparr> sn_user_id = user, sn_expires_at_ms = expires \<rparr> sessions)"
  by (simp add: tracks_def)

lemma tracks_signed_out: "tracks lg c sessions \<Longrightarrow> tracks (SignedOut h # lg) c (bt_remove h sessions)"
  by (simp add: tracks_def)

lemma tracks_revoked:
  assumes "tracks lg c sessions" "bt_wf sessions"
  shows "tracks (Revoked user # lg) c (bt_retain (\<lambda>_ s. sn_user_id s \<noteq> user) sessions)"
  unfolding tracks_def
proof
  fix h
  have "agrees c (bt_get sessions h) (live lg h)" using assms(1) by (simp add: tracks_def)
  then show "agrees c (bt_get (bt_retain (\<lambda>_ s. sn_user_id s \<noteq> user) sessions) h) (live (Revoked user # lg) h)"
    using assms(2) by (cases "bt_get sessions h"; cases "live lg h") (auto simp: bt_get_retain)
qed

lemma tracks_restarted: "tracks (Restarted # lg) c []"
  by (simp add: tracks_def)

text \<open>What the end of a sign-in does to the state.\<close>

definition session_effect ::
  "auth_libs \<Rightarrow> (string, admin_session) btree \<Rightarrow> auth_table \<Rightarrow> auth_cell \<Rightarrow> login_result result \<Rightarrow> bool" where
  "session_effect libs sessions table' cell' r \<longleftrightarrow>
     inner_ok (cell_doc cell') \<and> row_ok table'
     \<and> auth_sessions (cell_doc cell') =
         (case r of
            Inl _ \<Rightarrow> sessions
          | Inr l \<Rightarrow> bt_insert (hash_session_token libs (lr_session_token l))
                      \<lparr> sn_user_id = pu_id (lr_user l), sn_expires_at_ms = lr_expires_at_ms l \<rparr> sessions)"

lemma sign_in_effect:
  assumes "sign_in libs cfg fault gone now uuids k table previous inner = (table', cell', r)"
    and "row_ok table" "inner_ok inner" "bt_get (auth_users inner) k = Some u" "au_status u = ''active''"
    and "inner_ok (cell_doc previous)" "auth_sessions (cell_doc previous) = auth_sessions inner"
  shows "session_effect libs (auth_sessions inner) table' cell' r"
  using assms(1-5)
  by (cases rule: sign_in_cases) (use assms(6,7) in \<open>auto simp: session_effect_def open_session_def\<close>)

lemma finish_federated_effect:
  assumes "finish_federated_login_locked libs cfg fault now uuids k table previous inner = (table', cell', r)"
    and "row_ok table" "inner_ok inner" "inner_ok (cell_doc previous)" "auth_sessions (cell_doc previous) = auth_sessions inner"
  shows "session_effect libs (auth_sessions inner) table' cell' r"
  using assms(1-3)
  by (cases rule: finish_federated_cases) (use assms(3-5) in \<open>auto simp: session_effect_def open_session_def\<close>)

lemma candidate_is_currentD:
  "candidate_is_current username candidate inner \<Longrightarrow>
   \<exists>u. bt_get (auth_users inner) (fst candidate) = Some u \<and> au_status u = ''active''
     \<and> eq_ignore_ascii_case (au_username u) username \<and> au_password_hash u = au_password_hash (snd candidate)"
  by (auto simp: candidate_is_current_def split: option.splits)

lemma login_outcome_effect:
  assumes "login_outcome libs cfg fault now uuids username verified candidate table cell = (table', cell', r)"
    and "row_ok table" "inner_ok (cell_doc cell)"
  shows "session_effect libs (auth_sessions (prune_expired_sessions now (cell_doc cell))) table' cell' r"
proof -
  let ?inner = "prune_expired_sessions now (cell_doc cell)"
  let ?previous = "?inner\<lparr> auth_attempts := bt_remove username (auth_attempts ?inner) \<rparr>"
  consider (refused) inner e where "table' = table" "cell' = cell\<lparr> cell_doc := inner \<rparr>" "r = Inl e" "inner_ok inner"
      "auth_sessions inner = auth_sessions ?inner"
    | (current) c where "candidate = Some c" "candidate_is_current username c ?inner"
      "sign_in libs cfg fault ''admin user disappeared during login'' now uuids (fst c) table
         (cell\<lparr> cell_doc := ?previous \<rparr>) ?previous = (table', cell', r)"
    using assms(1,3) by (auto simp: login_outcome_def Let_def login_failed_def split: option.splits if_splits)
  then show ?thesis
  proof cases
    case refused
    with assms(2) show ?thesis by (simp add: session_effect_def)
  next
    case (current c)
    obtain u where u: "bt_get (auth_users ?previous) (fst c) = Some u" "au_status u = ''active''"
      using candidate_is_currentD [OF current(2)] by auto
    have "session_effect libs (auth_sessions ?previous) table' cell' r"
      by (rule sign_in_effect [OF current(3) assms(2) _ u]) (use assms(3) in simp_all)
    then show ?thesis by simp
  qed
qed

lemma federated_provision_effect:
  assumes "federated_provision libs cfg fault now uuids uuid h request table cell = (table', cell', r)"
    and "row_ok table" "inner_ok (cell_doc cell)" "bt_get (auth_users (cell_doc cell)) (''usr_'' @ uuid) = None"
  shows "session_effect libs (auth_sessions (prune_expired_sessions now (cell_doc cell))) table' cell' r"
proof -
  obtain i s username email where request: "request = (i, s, username, email)" by (metis prod_cases4)
  let ?inner = "prune_expired_sessions now (cell_doc cell)"
  let ?cell = "cell\<lparr> cell_doc := ?inner \<rparr>"
  let ?user = "federated_user uuid now h request"
  let ?new = "?inner\<lparr> auth_users := bt_insert (''usr_'' @ uuid) ?user (auth_users ?inner) \<rparr>"
  have i: "au_id ?user = ''usr_'' @ uuid" by (simp add: federated_user_def request)
  consider (refused) e where "table' = table" "cell' = ?cell" "r = Inl e"
    | (bound) k where "finish_federated_login_locked libs cfg fault now uuids k table ?cell ?inner = (table', cell', r)"
    | (new) "bound_user_id ?inner i s = Inr None" "\<not> name_taken username email ?inner"
        "finish_federated_login_locked libs cfg fault now uuids (''usr_'' @ uuid) table ?cell ?new = (table', cell', r)"
    using assms(1) by (auto simp: federated_provision_def Let_def request federated_user_def split: sum.splits option.splits if_splits)
  then show ?thesis
  proof cases
    case refused
    with assms show ?thesis by (simp add: session_effect_def)
  next
    case bound
    from finish_federated_effect [OF this assms(2)] assms(3) show ?thesis by simp
  next
    case new
    have "inner_ok ?new"
      unfolding request using assms(3,4) new(1,2) by (intro add_federated_ok) auto
    with finish_federated_effect [OF new(3) assms(2)] assms(3) show ?thesis by simp
  qed
qed

lemma signed_in_refused: "signed_in (t, c, Inl e) = (t, c, Inl e)"
  by (simp add: signed_in_def)

lemma signed_in_effect:
  assumes "signed_in x = (t', c', r)" "x = (t, c, q)" "session_effect libs sessions t c q"
  shows "session_effect libs sessions t' c' (case r of Inr (Inl l) \<Rightarrow> Inr l | _ \<Rightarrow> Inl Auth)"
  using assms by (cases q) (auto simp: signed_in_def session_effect_def)

lemma federated_known_effect:
  assumes "federated_known libs cfg fault now uuids input i s table cell = (table', cell', r)"
    and "row_ok table" "inner_ok (cell_doc cell)"
  shows "session_effect libs (auth_sessions (prune_expired_sessions now (cell_doc cell))) table' cell'
           (case r of Inr (Inl l) \<Rightarrow> Inr l | _ \<Rightarrow> Inl Auth)"
proof -
  let ?inner = "prune_expired_sessions now (cell_doc cell)"
  let ?cell = "cell\<lparr> cell_doc := ?inner \<rparr>"
  let ?bound = "\<lambda>k. ?inner\<lparr> auth_users := bt_update k (\<lambda>user. user\<lparr> au_federated_identities := au_federated_identities user @
                       [\<lparr> fi_issuer = i, fi_subject = s \<rparr>] \<rparr>) (auth_users ?inner) \<rparr>"
  consider (refused) "table' = table" "cell' = ?cell" "\<forall>l. r \<noteq> Inr (Inl l)"
    | (known) k where "signed_in (finish_federated_login_locked libs cfg fault now uuids k table ?cell ?inner) = (table', cell', r)"
    | (email) k u where "bound_user_id ?inner i s = Inr None" "bt_get (auth_users ?inner) k = Some u"
        "signed_in (finish_federated_login_locked libs cfg fault now uuids k table ?cell (?bound k)) = (table', cell', r)"
    using assms(1)
    by (auto simp: federated_known_def bind_by_email_def signed_in_refused Let_def split: sum.splits option.splits list.splits if_splits)
  then show ?thesis
  proof cases
    case refused
    with assms(2,3) show ?thesis by (auto simp: session_effect_def split: sum.splits)
  next
    case (known k)
    obtain t c q where f: "finish_federated_login_locked libs cfg fault now uuids k table ?cell ?inner = (t, c, q)"
      by (rule prod_cases3)
    have "session_effect libs (auth_sessions ?inner) t c q" using finish_federated_effect [OF f assms(2)] assms(3) by simp
    then show ?thesis by (rule signed_in_effect [OF known f])
  next
    case (email k u)
    obtain t c q where f: "finish_federated_login_locked libs cfg fault now uuids k table ?cell (?bound k) = (t, c, q)"
      by (rule prod_cases3)
    have "inner_ok (?bound k)" by (rule bind_identity_ok [OF inner_ok_prune [OF assms(3)] email(2,1)])
    then have "session_effect libs (auth_sessions ?inner) t c q" using finish_federated_effect [OF f assms(2)] assms(3) by simp
    then show ?thesis by (rule signed_in_effect [OF email(3) f])
  qed
qed

section \<open>The invariant\<close>

definition sys_ok :: "auth_system \<Rightarrow> bool" where
  "sys_ok s \<longleftrightarrow> inner_ok (sys_doc s) \<and> row_ok (sys_table s) \<and> tracks (sys_log s) (sys_clock s) (auth_sessions (sys_doc s))"

lemma sys_ok_updated [simp]:
  "sys_ok ((sys_update s table cell events now)\<lparr> sys_pending := p \<rparr>) = sys_ok (sys_update s table cell events now)"
  by (simp add: sys_ok_def sys_doc_def)

lemma sys_ok_update_iff:
  "sys_ok (sys_update s table cell events now) \<longleftrightarrow>
     inner_ok (cell_doc cell) \<and> row_ok table \<and> tracks (events @ sys_log s) (max (sys_clock s) now) (auth_sessions (cell_doc cell))"
  by (simp add: sys_ok_def sys_doc_def sys_update_def)

lemma sys_ok_wf: "sys_ok s \<Longrightarrow> bt_wf (auth_sessions (sys_doc s))"
  by (simp add: sys_ok_def inner_ok_def sessions_ok_def)

lemma sys_ok_pruned:
  "sys_ok s \<Longrightarrow> tracks (sys_log s) (max (sys_clock s) now) (auth_sessions (prune_expired_sessions now (sys_doc s)))"
  using tracks_prune sys_ok_wf by (simp add: sys_ok_def prune_expired_sessions_def)

lemma sys_ok_effect:
  assumes "sys_ok s" "session_effect libs (auth_sessions (prune_expired_sessions now (sys_doc s))) table' cell' r"
  shows "sys_ok (sys_update s table' cell' (sign_in_events libs r) now)"
  using assms(2) sys_ok_pruned [OF assms(1), of now]
  by (cases r) (auto simp: sys_ok_update_iff session_effect_def sign_in_events_def intro: tracks_signed_in)

lemma sys_ok_transact:
  assumes "transact auth_file ''auth'' fault operation (sys_table s) (sys_cell s) = (table', cell', r)" "sys_ok s"
    and ok: "\<And>p inner. operation (sys_doc s) = Inr (p, inner) \<Longrightarrow> inner_ok inner
      \<and> tracks (events (Inr p) @ sys_log s) (max (sys_clock s) now) (auth_sessions inner)"
    and none: "\<And>e. events (Inl e) = []"
  shows "sys_ok (sys_update s table' cell' (events r) now)"
proof -
  have same: "tracks (sys_log s) (max (sys_clock s) now) (auth_sessions (sys_doc s))" "inner_ok (sys_doc s)" "row_ok (sys_table s)"
    using assms(2) tracks_later by (simp_all add: sys_ok_def)
  have row: "row_ok ((sys_table s)(''auth'' \<mapsto> (auth_file inner, n)))" if "inner_ok inner" for inner n
    using that by (simp add: row_ok_def collect_auth_file inner_ok_def)
  from assms(1) show ?thesis
  proof (cases rule: transact_cases)
    case (refused e)
    with same none show ?thesis by (simp add: sys_ok_update_iff sys_doc_def)
  next
    case (failed e x inner)
    with same none row ok [of x inner] show ?thesis by (auto simp: sys_ok_update_iff sys_doc_def)
  next
    case (saved x inner)
    with same row ok [of x inner] show ?thesis by (simp add: sys_ok_update_iff sys_doc_def)
  qed
qed

lemma logged_out_ok:
  assumes "sys_ok s" "session_token_from_headers headers = Some token"
  shows "sys_ok (sys_update s (sys_table s) ((sys_cell s)\<lparr> cell_doc := logout libs headers (sys_doc s) \<rparr>)
           [SignedOut (hash_session_token libs token)] now)"
proof -
  have "inner_ok (logout libs headers (sys_doc s))"
    using assms by (simp add: sys_ok_def logout_def bt_remove_def inner_ok_def sessions_ok_retain)
  moreover have "tracks (SignedOut (hash_session_token libs token) # sys_log s) (max (sys_clock s) now)
      (auth_sessions (logout libs headers (sys_doc s)))"
    using assms tracks_signed_out [OF tracks_later] by (simp add: sys_ok_def logout_def)
  ultimately show ?thesis using assms(1) by (simp add: sys_ok_update_iff) (simp add: sys_ok_def)
qed

lemma session_checked_ok:
  assumes "sys_ok s" "require_session libs now headers (sys_doc s) = (inner, r)"
  shows "sys_ok (sys_update s (sys_table s) ((sys_cell s)\<lparr> cell_doc := inner \<rparr>) [] now)"
proof -
  have live: "bt_get (auth_sessions (prune_expired_sessions now (sys_doc s))) h = Some x \<Longrightarrow> sn_expires_at_ms x > now" for h x
    using sys_ok_wf [OF assms(1)] by (auto simp: prune_expired_sessions_def bt_get_retain split: option.splits if_splits)
  have "inner = sys_doc s \<or> inner = prune_expired_sessions now (sys_doc s)"
    using assms(2) live by (fastforce simp: require_session_def Let_def split: option.splits if_splits)
  then show ?thesis
    using assms(1) sys_ok_pruned [OF assms(1), of now]
    by (auto simp: sys_ok_update_iff) (auto simp: sys_ok_def tracks_later)
qed

lemma user_updated_ok:
  assumes "sys_ok s"
    and "update_user libs fault salt now k current input (sys_table s) (sys_cell s) = (table', cell', r)"
  shows "sys_ok (sys_update s table' cell' (update_events k input (sys_doc s) r) now)"
proof (rule sys_ok_transact [OF assms(2) [unfolded update_user_def] assms(1)])
  fix p inner assume up: "change_user libs salt now k current input (sys_doc s) = Inr (p, inner)"
  have ok: "inner_ok (sys_doc s)" using assms(1) by (simp add: sys_ok_def)
  have t: "tracks (sys_log s) (max (sys_clock s) now) (auth_sessions (sys_doc s))"
    using assms(1) tracks_later by (simp add: sys_ok_def)
  from up ok have "tracks (update_events k input (sys_doc s) (Inr p) @ sys_log s) (max (sys_clock s) now) (auth_sessions inner)"
  proof (cases rule: update_user_cases)
    case (1 u u')
    with t tracks_revoked [OF t sys_ok_wf [OF assms(1)]] show ?thesis
      by (simp add: update_events_def public_user_of_def revoke_sessions_def)
  qed
  with update_user_ok [OF up ok] show "inner_ok inner \<and>
      tracks (update_events k input (sys_doc s) (Inr p) @ sys_log s) (max (sys_clock s) now) (auth_sessions inner)" by simp
qed (simp add: update_events_def)

lemma user_deleted_ok:
  assumes "sys_ok s" and "delete_user fault k current (sys_table s) (sys_cell s) = (table', cell', r)"
  shows "sys_ok (sys_update s table' cell' (case r of Inr _ \<Rightarrow> [Revoked k] | Inl _ \<Rightarrow> []) now)"
proof -
  have ok: "inner_ok (sys_doc s)" "row_ok (sys_table s)" using assms(1) by (simp_all add: sys_ok_def)
  have t: "tracks (sys_log s) (max (sys_clock s) now) (auth_sessions (sys_doc s))"
    using assms(1) tracks_later by (simp add: sys_ok_def)
  note rev = tracks_revoked [OF t sys_ok_wf [OF assms(1)], of k]
  let ?gone = "revoke_sessions k ((sys_doc s)\<lparr> auth_users := bt_remove k (auth_users (sys_doc s)) \<rparr>)"
  consider (refused) e where "r = Inl e" "table' = sys_table s" "cell' = sys_cell s"
    | (absent) "r = Inr ()" "table' = sys_table s" "cell' = sys_cell s" "bt_get (auth_users (sys_doc s)) k = None"
    | (removed) u where "bt_get (auth_users (sys_doc s)) k = Some u" "au_role u = ''admin'' \<longrightarrow> active_admin_count (sys_doc s) > 1"
        "save_or_restore_locked fault (sys_table s) (sys_cell s) ?gone = (table', cell', r)"
    using assms(2) by (fastforce simp: delete_user_def sys_doc_def Let_def split: option.splits if_splits)
  then show ?thesis
  proof cases
    case refused
    with ok t show ?thesis by (simp add: sys_ok_update_iff sys_doc_def)
  next
    case absent
    have "bt_retain (\<lambda>_ x. sn_user_id x \<noteq> k) (auth_sessions (sys_doc s)) = auth_sessions (sys_doc s)"
      using ok(1) absent(4) unfolding bt_retain_def filter_id_conv
      by (fastforce simp: inner_ok_def sessions_ok_def bt_get_iff_mem)
    with absent ok rev show ?thesis by (simp add: sys_ok_update_iff sys_doc_def)
  next
    case (removed u)
    note gone = removed_ok [OF ok(1) removed(1,2)]
    have acc: "accounts_ok (auth_users ?gone)" using gone by (simp add: inner_ok_def)
    from removed(3) ok(2) acc show ?thesis
      by (cases rule: save_cases) (use gone ok t rev in \<open>simp_all add: sys_ok_update_iff sys_doc_def revoke_sessions_def\<close>)
  qed
qed

lemma sys_ok_step:
  assumes "sys_ok s" and "auth_step libs cfg s t"
  shows "sys_ok t"
  using assms(2)
proof (cases rule: auth_stepE)
  case (login_begins input username now inner r k)
  have "auth_sessions inner = auth_sessions (prune_expired_sessions now (sys_doc s))"
    using login_begins(3) by (auto simp: login_candidate_def Let_def split: if_splits)
  with login_begins assms(1) login_candidate_ok [OF login_begins(3)] sys_ok_pruned [OF assms(1), of now] show ?thesis
    by (simp add: sys_ok_update_iff) (simp add: sys_ok_def)
next
  case (login_ends k now username password candidate fault uuids table' cell' r)
  have "session_effect libs (auth_sessions (prune_expired_sessions now (sys_doc s))) table' cell' r"
    using login_outcome_effect [OF login_ends(3)] assms(1) by (simp add: sys_ok_def sys_doc_def)
  with login_ends sys_ok_effect [OF assms(1)] show ?thesis by simp
next
  case (federated_begins input issuer subject fault now uuids table' cell' r k)
  have "session_effect libs (auth_sessions (prune_expired_sessions now (sys_doc s))) table' cell'
      (case r of Inr (Inl l) \<Rightarrow> Inr l | _ \<Rightarrow> Inl Auth)"
    using federated_known_effect [OF federated_begins(3)] assms(1) by (simp add: sys_ok_def sys_doc_def)
  moreover have "sign_in_events libs (case r of Inr (Inl l) \<Rightarrow> Inr l | _ \<Rightarrow> Inl Auth) = federated_events libs r"
    by (auto simp: federated_events_def sign_in_events_def split: sum.splits)
  ultimately show ?thesis using federated_begins sys_ok_effect [OF assms(1)] by fastforce
next
  case (federated_ends k now request salt secret h uuid fault uuids table' cell' r)
  have "session_effect libs (auth_sessions (prune_expired_sessions now (sys_doc s))) table' cell' r"
    using federated_provision_effect [OF federated_ends(5)] assms(1) federated_ends(4)
    by (simp add: sys_ok_def sys_doc_def fresh_user_def)
  with federated_ends sys_ok_effect [OF assms(1)] show ?thesis by simp
next
  case session_checked
  then show ?thesis using session_checked_ok [OF assms(1)] by simp
next
  case logged_out
  then show ?thesis using logged_out_ok [OF assms(1)] by simp
next
  case (user_created uuid fault salt now input table' cell' r)
  have "inner_ok inner \<and> tracks (sys_log s) (max (sys_clock s) now) (auth_sessions inner)"
    if "insert_user libs salt uuid now input (sys_doc s) = Inr (p, inner)" for p inner
    using that create_user_ok [OF that] user_created(2) assms(1) tracks_later
    by (auto simp: sys_ok_def fresh_user_def insert_user_def result_iffs split: if_splits)
  then show ?thesis
    using sys_ok_transact [OF user_created(3) [unfolded create_user_def] assms(1), of "\<lambda>_. []"] user_created(1) by simp
next
  case user_updated
  then show ?thesis using user_updated_ok [OF assms(1)] by simp
next
  case user_deleted
  then show ?thesis using user_deleted_ok [OF assms(1)] by simp
next
  case (health_checked cell' r now)
  with assms(1) health_check_cell [OF health_checked(2)] tracks_later show ?thesis
    by (simp add: sys_ok_update_iff) (simp add: sys_ok_def sys_doc_def)
next
  case replica_wrote
  with assms(1) tracks_later show ?thesis
    by (simp add: sys_ok_update_iff) (simp add: sys_ok_def sys_doc_def)
next
  case (restarted env enterprise token f1 f2 now fault table' cell')
  with assms(1) load_ok [OF restarted(2)] show ?thesis
    by (simp add: sys_ok_update_iff) (simp add: sys_ok_def tracks_restarted)
qed

lemma sys_ok_init: "auth_init libs s \<Longrightarrow> sys_ok s"
  by (erule auth_init.cases) (use load_ok in \<open>fastforce simp: sys_ok_def sys_doc_def tracks_def\<close>)

interpretation sign_ins: inductive_invariant "auth_init libs" "auth_step libs cfg" sys_ok for libs cfg
  by unfold_locales (auto intro: sys_ok_init sys_ok_step)

section \<open>What the console guarantees\<close>

lemma active_admin_remains: "accounts_ok (auth_users inner) \<Longrightarrow> 0 < active_admin_count inner"
  by (fastforce simp: accounts_ok_def active_admin_count_def bt_values_mem filter_empty_conv)


lemma require_session_iff:
  assumes "inner_ok inner"
  shows "snd (require_session libs now headers inner) = Inr p \<longleftrightarrow>
    (\<exists>token x u. session_token_from_headers headers = Some token
       \<and> bt_get (auth_sessions inner) (hash_session_token libs token) = Some x \<and> now < sn_expires_at_ms x
       \<and> bt_get (auth_users inner) (sn_user_id x) = Some u \<and> au_status u = ''active'' \<and> p = public_user_of u 1 0)"
proof (cases "session_token_from_headers headers")
  case None
  then show ?thesis by (simp add: require_session_def)
next
  case (Some token)
  have "bt_wf (auth_sessions inner)" using assms by (simp add: inner_ok_def sessions_ok_def)
  then have get: "bt_get (auth_sessions (prune_expired_sessions now inner)) h =
      (case bt_get (auth_sessions inner) h of Some x \<Rightarrow> if now < sn_expires_at_ms x then Some x else None | None \<Rightarrow> None)" for h
    by (simp add: prune_expired_sessions_def bt_get_retain)
  show ?thesis
    by (cases "bt_get (auth_sessions inner) (hash_session_token libs token)")
      (auto simp: require_session_def Some Let_def get result_iffs)
qed

lemma session_log_iff:
  assumes "reach (auth_init libs) (auth_step libs cfg) s" and "sys_clock s \<le> now"
  shows "snd (require_session libs now headers (sys_doc s)) = Inr p \<longleftrightarrow>
    (\<exists>token user_id expires u. session_token_from_headers headers = Some token
       \<and> live (sys_log s) (hash_session_token libs token) = Some (user_id, expires) \<and> now < expires
       \<and> bt_get (auth_users (sys_doc s)) user_id = Some u \<and> au_status u = ''active'' \<and> p = public_user_of u 1 0)"
    (is "?accepted \<longleftrightarrow> ?says")
proof -
  have ok: "sys_ok s" using sign_ins.reach_inv [OF assms(1)] .
  then have inner: "inner_ok (sys_doc s)" by (simp add: sys_ok_def)
  have agree: "agrees (sys_clock s) (bt_get (auth_sessions (sys_doc s)) h) (live (sys_log s) h)" for h
    using ok by (simp add: sys_ok_def tracks_def)
  have "(\<exists>x. bt_get (auth_sessions (sys_doc s)) h = Some x \<and> now < sn_expires_at_ms x \<and> P (sn_user_id x)) \<longleftrightarrow>
      (\<exists>user_id expires. live (sys_log s) h = Some (user_id, expires) \<and> now < expires \<and> P user_id)" for h P
    using agree [of h] assms(2) by (cases "bt_get (auth_sessions (sys_doc s)) h"; cases "live (sys_log s) h") auto
  from this [of _ "\<lambda>user_id. \<exists>u. bt_get (auth_users (sys_doc s)) user_id = Some u \<and> au_status u = ''active'' \<and> p = public_user_of u 1 0"]
  show ?thesis unfolding require_session_iff [OF inner] by blast
qed

text \<open>
  C36: A session is exactly what the log says.  At a time not before the last step, a request is
  accepted if and only if the last sign-in under the hash of its token was not followed by a
  sign-out, by a change of the user's password, role or state, by a deletion or a restart, and has
  not expired; the answer is that user's account as it is now, and it is active.
\<close>
theorem session_is_what_the_log_says:
  assumes "reach (auth_init libs) (auth_step libs cfg) s" and "sys_clock s \<le> now"
  shows "snd (require_session libs now headers (sys_doc s)) = Inr p \<longleftrightarrow>
    (\<exists>token user_id expires u. session_token_from_headers headers = Some token
       \<and> live (sys_log s) (hash_session_token libs token) = Some (user_id, expires) \<and> now < expires
       \<and> bt_get (auth_users (sys_doc s)) user_id = Some u \<and> au_status u = ''active'' \<and> p = public_user_of u 1 0)"
  using assms by (rule session_log_iff)

section \<open>An example run\<close>

definition example_libs :: auth_libs where
  "example_libs = \<lparr> password_algorithm = \<lambda>_. Some ''argon2id'', argon2_verify = \<lambda>p h. p = h, argon2_hash = \<lambda>_ p. Inr p,
     sha256 = \<lambda>t. t, attempt_order = \<lambda>a. a \<rparr>"

definition example_cfg :: auth_config where
  "example_cfg = \<lparr> session_ttl_seconds = 1, cookie_secure = True \<rparr>"

definition example_user :: admin_user where
  "example_user = \<lparr> au_id = ''usr_1'', au_username = ''root'', au_email = ''r@x'', au_role = ''admin'', au_status = ''active'',
     au_password_hash = ''pw'', au_created_at_ms = 0, au_updated_at_ms = 0, au_last_login_at_ms = None,
     au_federated_identities = [] \<rparr>"

definition example_start :: auth_system where
  "example_start = \<lparr> sys_table = [''auth'' \<mapsto> ([example_user], 1)],
     sys_cell = \<lparr> cell_doc = \<lparr> auth_users = [(''usr_1'', example_user)], auth_sessions = [], auth_attempts = [] \<rparr>,
       cell_revision = 1, cell_degraded = False \<rparr>,
     sys_pending = \<lambda>_. None, sys_log = [], sys_clock = 0 \<rparr>"

definition example_end :: auth_system where
  "example_end =
     (let user = example_user\<lparr> au_last_login_at_ms := Some 5, au_updated_at_ms := 5 \<rparr>
      in \<lparr> sys_table = [''auth'' \<mapsto> ([user], 1 + 1)],
           sys_cell = \<lparr> cell_doc = \<lparr> auth_users = [(''usr_1'', user)],
                          auth_sessions = [(hash_session_token example_libs ''mps_ab'', \<lparr> sn_user_id = ''usr_1'', sn_expires_at_ms = 1005 \<rparr>)],
                          auth_attempts = [] \<rparr>,
             cell_revision = 1 + 1, cell_degraded = False \<rparr>,
           sys_pending = \<lambda>_. None,
           sys_log = [SignedIn (hash_session_token example_libs ''mps_ab'') ''usr_1'' 1005], sys_clock = 5 \<rparr>)"

lemma example_init: "auth_init example_libs example_start"
proof (rule auth_init.intros)
  have "inner_ok \<lparr> auth_users = [(au_id example_user, example_user)], auth_sessions = [], auth_attempts = [] \<rparr>"
    by (rule single_account_ok) (simp_all add: example_user_def account_ok_def is_active_admin_def)
  then show "row_ok (sys_table example_start)"
    by (auto simp: row_ok_def example_start_def collect_users_def collect_by_def inner_ok_def)
  show "load_or_bootstrap example_libs (\<lambda>_. None) False None ([], []) ([], []) 0 NoFault (sys_table example_start)
      = (sys_table example_start, Inr (sys_cell example_start))"
    by (simp add: load_or_bootstrap_def bootstrap_initial_admins_def load_cell_def read_postgres_value_def example_start_def
        loaded_inner_def collect_users_def collect_by_def) (simp add: example_user_def)
qed (simp_all add: example_start_def)

definition example_begun :: auth_system where
  "example_begun = example_start\<lparr> sys_pending := [0 \<mapsto> PasswordLogin 5 ''root'' ''pw'' (Some (''usr_1'', example_user))], sys_clock := 5 \<rparr>"

definition example_result :: login_result where
  "example_result = \<lparr> lr_session_token = ''mps_ab'', lr_expires_at_ms = 1005,
     lr_user = public_user_of (example_user\<lparr> au_last_login_at_ms := Some 5, au_updated_at_ms := 5 \<rparr>) 1 0 \<rparr>"

lemma example_begins: "reach (auth_init example_libs) (auth_step example_libs example_cfg) example_begun"
proof -
  let ?input = "\<lparr> li_username = ''root'', li_password = ''pw'' \<rparr>" and ?c = "Some (''usr_1'', example_user)"
  have name: "login_username ?input = Inr ''root''" by code_simp
  have cand: "login_candidate 5 ''root'' (sys_doc example_start) = (sys_doc example_start, Inr ?c)"
    by (simp add: login_candidate_def sys_doc_def example_start_def prune_expired_sessions_def prune_login_attempts_def
        bt_retain_def is_locked_def) (simp add: example_user_def eq_ignore_ascii_case_def)
  have "auth_step example_libs example_cfg example_start example_begun"
    using login_begins [OF name cand, of example_libs example_cfg 0]
    by (simp add: sys_update_def sys_doc_def example_start_def example_begun_def)
  with example_init show ?thesis by (blast intro: reach.intros)
qed

lemma example_pending:
  "sys_pending example_begun 0 = Some (PasswordLogin 5 ''root'' ''pw'' (Some (''usr_1'', example_user)))"
  by (simp add: example_begun_def)

lemma example_verified: "login_verified example_libs ''pw'' (Some (''usr_1'', example_user))"
  by (simp add: login_verified_def verify_password_def example_libs_def example_user_def)

lemma example_outcome:
  "login_outcome example_libs example_cfg NoFault 5 (''a'', ''b'') ''root''
     (login_verified example_libs ''pw'' (Some (''usr_1'', example_user))) (Some (''usr_1'', example_user))
     (sys_table example_begun) (sys_cell example_begun)
   = (sys_table example_end, sys_cell example_end, Inr example_result)"
  unfolding eqTrueI [OF example_verified]
  by (simp add: login_outcome_def candidate_is_current_def prune_expired_sessions_def is_locked_def sign_in_def open_session_def
      new_session_token_def expires_at_def save_or_restore_locked_def save_or_restore_def cas_defs i64_limit_def auth_file_def
      bt_values_def bt_retain_def bt_remove_def bt_update_def bt_get_def sat_add_def sat_mul_def u64_max_def example_start_def
      example_begun_def example_result_def example_end_def example_cfg_def Let_def example_user_def eq_ignore_ascii_case_def)

lemma example_reaches: "reach (auth_init example_libs) (auth_step example_libs example_cfg) example_end"
proof -
  have "auth_step example_libs example_cfg example_begun example_end"
    using login_ends [OF example_pending example_outcome]
    by (simp add: sys_update_def sign_in_events_def example_start_def example_begun_def example_result_def example_end_def
        public_user_of_def example_user_def Let_def fun_upd_idem)
  with example_begins show ?thesis by (blast intro: reach.intros)
qed


theorem session_is_what_the_log_says_witness:
  "snd (require_session example_libs 1004 [(''cookie'', ''a=b; modelport_admin_session=mps_ab'')] (sys_doc example_end))
     = Inr (public_user_of (example_user\<lparr> au_last_login_at_ms := Some 5, au_updated_at_ms := 5 \<rparr>) 1 0)
   \<and> snd (require_session example_libs 1005 [(''cookie'', ''a=b; modelport_admin_session=mps_ab'')] (sys_doc example_end)) \<noteq> Inr (public_user_of example_user 1 0)"
proof -
  have token: "session_token_from_headers [(''cookie'', ''a=b; modelport_admin_session=mps_ab'')] = Some ''mps_ab''" by code_simp
  have clock: "sys_clock example_end \<le> 1004" "sys_clock example_end \<le> 1005" by (simp_all add: example_end_def Let_def)
  show ?thesis
    unfolding session_is_what_the_log_says [OF example_reaches clock(1)] session_is_what_the_log_says [OF example_reaches clock(2)] token
    by (simp add: example_end_def sys_doc_def bt_get_def Let_def example_user_def)
qed

end
