(* ===== verification/Auth_Login.thy ===== *)
theory Auth_Login
  imports Auth_Sessions
begin

text \<open>
  Who can sign in: what a successful password or federated sign-in shows about the account, and that a
  backup that passes its check restores accounts of the same kind.
\<close>

section \<open>Passwords\<close>

lemma login_outcome_success:
  assumes "login_outcome libs cfg fault now uuids username verified candidate table cell = (table', cell', Inr l)"
    and "row_ok table" "inner_ok (cell_doc cell)"
  obtains k c u where "candidate = Some (k, c)" "verified" "\<not> is_locked (auth_attempts (cell_doc cell)) username now"
    "bt_get (auth_users (cell_doc cell)) k = Some u" "au_status u = ''active''" "eq_ignore_ascii_case (au_username u) username"
    "au_password_hash u = au_password_hash c" "pu_id (lr_user l) = k"
proof -
  let ?inner = "prune_expired_sessions now (cell_doc cell)"
  let ?previous = "?inner\<lparr> auth_attempts := bt_remove username (auth_attempts ?inner) \<rparr>"
  have [simp]: "auth_attempts ?inner = auth_attempts (cell_doc cell)" by (simp add: prune_expired_sessions_def)
  obtain k c where c: "candidate = Some (k, c)" "verified" "candidate_is_current username (k, c) ?inner"
      "\<not> is_locked (auth_attempts (cell_doc cell)) username now"
      "sign_in libs cfg fault ''admin user disappeared during login'' now uuids k table
         (cell\<lparr> cell_doc := ?previous \<rparr>) ?previous = (table', cell', Inr l)"
    using assms(1) by (cases candidate) (auto simp: login_outcome_def Let_def split: if_splits)
  obtain u where u: "bt_get (auth_users (cell_doc cell)) k = Some u" "au_status u = ''active''"
      "eq_ignore_ascii_case (au_username u) username" "au_password_hash u = au_password_hash c"
    using candidate_is_currentD [OF c(3)] by auto
  have "inner_ok ?previous" "bt_get (auth_users ?previous) k = Some u" using assms(3) u(1) by simp_all
  from c(5) assms(2) this u(2) have "pu_id (lr_user l) = k"
    by (cases rule: sign_in_cases) auto
  with c u that show thesis by blast
qed

text \<open>
  C37: A password sign-in succeeds only with the password in force.  However the accounts changed
  while the password was being compared, at the moment the session is opened the account is active,
  has the name that was given, and its present password hash is one the given password verifies
  against; and the name is not locked.
\<close>
theorem sign_in_needs_current_password:
  assumes "reach (auth_init libs) (auth_step libs cfg) s"
    and "sys_pending s k = Some (PasswordLogin now username password candidate)"
    and "login_outcome libs cfg fault now uuids username (login_verified libs password candidate) candidate
           (sys_table s) (sys_cell s) = (table', cell', Inr l)"
  shows "\<exists>u. bt_get (auth_users (sys_doc s)) (pu_id (lr_user l)) = Some u \<and> au_status u = ''active''
    \<and> eq_ignore_ascii_case (au_username u) username
    \<and> verify_password libs password (au_password_hash u)
    \<and> \<not> is_locked (auth_attempts (sys_doc s)) username now"
proof -
  have ok: "row_ok (sys_table s)" "inner_ok (cell_doc (sys_cell s))"
    using sign_ins.reach_inv [OF assms(1)] by (simp_all add: sys_ok_def sys_doc_def)
  show ?thesis
    by (rule login_outcome_success [OF assms(3) ok]) (auto simp: sys_doc_def login_verified_def)
qed

section \<open>Federated identities\<close>

lemma bound_user_id_Some:
  assumes "bound_user_id inner i s = Inr (Some k)" "bt_wf (auth_users inner)"
  shows "\<exists>u. bt_get (auth_users inner) k = Some u \<and> holds_identity i s u"
proof -
  obtain u where "filter (\<lambda>(_, user). holds_identity i s user) (auth_users inner) = [(k, u)]"
    using assms(1) by (auto simp: bound_user_id_def split: list.splits)
  then have "(k, u) \<in> set (filter (\<lambda>(_, user). holds_identity i s user) (auth_users inner))" by simp
  with assms(2) show ?thesis by (auto simp: bt_get_iff_mem)
qed

text \<open>The three ways to a session: an account that has the identity, the one ordinary account with the
  verified e-mail address, or a new ordinary account.\<close>

definition has_email :: "string \<Rightarrow> admin_user \<Rightarrow> bool" where
  "has_email email u \<longleftrightarrow> eq_ignore_ascii_case (au_email u) email"

definition bound_before :: "auth_inner \<Rightarrow> string \<Rightarrow> string \<Rightarrow> string \<Rightarrow> bool" where
  "bound_before inner i s k \<longleftrightarrow> (\<exists>u. bt_get (auth_users inner) k = Some u \<and> holds_identity i s u)"

definition bound_by_email :: "federated_login_input \<Rightarrow> auth_inner \<Rightarrow> string \<Rightarrow> bool" where
  "bound_by_email input inner k \<longleftrightarrow>
     (\<exists>email u. verified_email input = Inr email \<and> bt_get (auth_users inner) k = Some u \<and> has_email email u
        \<and> au_role u \<noteq> ''admin'' \<and> au_federated_identities u = []
        \<and> (\<forall>k' u'. bt_get (auth_users inner) k' = Some u' \<and> has_email email u' \<longrightarrow> k' = k))"

definition new_account :: "auth_inner \<Rightarrow> string \<Rightarrow> string \<Rightarrow> string \<Rightarrow> bool" where
  "new_account inner username email k \<longleftrightarrow>
     bt_get (auth_users inner) k = None
     \<and> (\<forall>k' u'. bt_get (auth_users inner) k' = Some u' \<longrightarrow> \<not> has_email email u' \<and> \<not> eq_ignore_ascii_case (au_username u') username)"

lemma signed_in_Inl: "signed_in x = (t, c, Inr (Inl l)) \<Longrightarrow> x = (t, c, Inr l)"
  by (cases x) (auto simp: signed_in_def split: sum.splits)

lemma federated_known_success:
  assumes "federated_known libs cfg fault now uuids input i s table cell = (table', cell', Inr (Inl l))"
    and "row_ok table" "inner_ok (cell_doc cell)"
  shows "bound_before (cell_doc cell) i s (pu_id (lr_user l))
    \<or> bound_by_email input (cell_doc cell) (pu_id (lr_user l)) \<and> pu_role (lr_user l) \<noteq> ''admin''"
proof -
  let ?inner = "prune_expired_sessions now (cell_doc cell)"
  let ?cell = "cell\<lparr> cell_doc := ?inner \<rparr>"
  let ?bound = "\<lambda>k. ?inner\<lparr> auth_users := bt_update k (\<lambda>user. user\<lparr> au_federated_identities := au_federated_identities user @
                       [\<lparr> fi_issuer = i, fi_subject = s \<rparr>] \<rparr>) (auth_users ?inner) \<rparr>"
  have ok: "inner_ok ?inner" using assms(3) by simp
  then have wf: "bt_wf (auth_users (cell_doc cell))" by (simp add: inner_ok_def accounts_ok_def)
  consider (known) k where "bound_user_id ?inner i s = Inr (Some k)"
      "finish_federated_login_locked libs cfg fault now uuids k table ?cell ?inner = (table', cell', Inr l)"
    | (email) k u email where "bound_user_id ?inner i s = Inr None" "verified_email input = Inr email"
        "map fst (filter (\<lambda>(_, user). eq_ignore_ascii_case (au_email user) email) (auth_users ?inner)) = [k]"
        "bt_get (auth_users ?inner) k = Some u" "au_role u \<noteq> ''admin''" "au_federated_identities u = []"
        "finish_federated_login_locked libs cfg fault now uuids k table ?cell (?bound k) = (table', cell', Inr l)"
    using assms(1)
    by (auto simp: federated_known_def bind_by_email_def signed_in_refused Let_def dest!: signed_in_Inl
        split: sum.splits option.splits list.splits if_splits)
  then show ?thesis
  proof cases
    case (known k)
    from known(2) assms(2) ok have "pu_id (lr_user l) = k" by (cases rule: finish_federated_cases) auto
    with bound_user_id_Some [OF known(1)] wf show ?thesis by (simp add: bound_before_def)
  next
    case (email k u em)
    have "inner_ok (?bound k)" by (rule bind_identity_ok [OF ok email(4,1)])
    from email(7) assms(2) this have l: "pu_id (lr_user l) = k" "pu_role (lr_user l) = au_role u"
      by (cases rule: finish_federated_cases; use email(4) in auto)+
    have only: "set (map fst (filter (\<lambda>(_, user). eq_ignore_ascii_case (au_email user) em) (auth_users (cell_doc cell)))) = {k}"
      using email(3) by simp
    then have unique: "\<forall>k' u'. bt_get (auth_users (cell_doc cell)) k' = Some u' \<and> has_email em u' \<longrightarrow> k' = k"
      using wf by (force simp: bt_get_iff_mem has_email_def)
    have "has_email em u"
    proof -
      have "k \<in> fst ` set (filter (\<lambda>(_, user). eq_ignore_ascii_case (au_email user) em) (auth_users (cell_doc cell)))"
        using only by simp
      then obtain w where w: "(k, w) \<in> set (auth_users (cell_doc cell))" "has_email em w"
        by (auto simp: has_email_def)
      then have "bt_get (auth_users (cell_doc cell)) k = Some w" using wf by (simp add: bt_get_iff_mem)
      with email(4) w(2) show ?thesis by simp
    qed
    moreover have "bt_get (auth_users (cell_doc cell)) k = Some u" using email(4) by simp
    ultimately have "bound_by_email input (cell_doc cell) k"
      unfolding bound_by_email_def using email(2,5,6) unique by blast
    with l email(5) show ?thesis by simp
  qed
qed

lemma name_not_taken:
  "\<not> name_taken username email inner \<Longrightarrow> bt_get (auth_users inner) k = Some v \<Longrightarrow>
   \<not> has_email email v \<and> \<not> eq_ignore_ascii_case (au_username v) username"
  using bt_get_Some_mem [of "auth_users inner" k v] by (force simp: name_taken_def list_ex_iff bt_values_def has_email_def)

lemma federated_provision_success:
  assumes "federated_provision libs cfg fault now uuids uuid h (i, s, username, email) table cell = (table', cell', Inr l)"
    and "row_ok table" "inner_ok (cell_doc cell)" "bt_get (auth_users (cell_doc cell)) (''usr_'' @ uuid) = None"
  shows "bound_before (cell_doc cell) i s (pu_id (lr_user l))
    \<or> new_account (cell_doc cell) username email (pu_id (lr_user l)) \<and> pu_role (lr_user l) = ''user''"
proof -
  let ?inner = "prune_expired_sessions now (cell_doc cell)"
  let ?cell = "cell\<lparr> cell_doc := ?inner \<rparr>"
  let ?user = "federated_user uuid now h (i, s, username, email)"
  let ?new = "?inner\<lparr> auth_users := bt_insert (''usr_'' @ uuid) ?user (auth_users ?inner) \<rparr>"
  have ok: "inner_ok ?inner" using assms(3) by simp
  then have wf: "bt_wf (auth_users (cell_doc cell))" by (simp add: inner_ok_def accounts_ok_def)
  consider (bound) k where "bound_user_id ?inner i s = Inr (Some k)"
      "finish_federated_login_locked libs cfg fault now uuids k table ?cell ?inner = (table', cell', Inr l)"
    | (new) "bound_user_id ?inner i s = Inr None" "\<not> name_taken username email ?inner"
        "finish_federated_login_locked libs cfg fault now uuids (''usr_'' @ uuid) table ?cell ?new = (table', cell', Inr l)"
    using assms(1) by (auto simp: federated_provision_def Let_def federated_user_def split: sum.splits option.splits if_splits)
  then show ?thesis
  proof cases
    case (bound k)
    from bound(2) assms(2) ok have "pu_id (lr_user l) = k" by (cases rule: finish_federated_cases) auto
    with bound_user_id_Some [OF bound(1)] wf show ?thesis by (simp add: bound_before_def)
  next
    case new
    have okn: "inner_ok ?new" using ok assms(4) new(1,2) by (intro add_federated_ok) auto
    from new(3) assms(2) okn have "pu_id (lr_user l) = ''usr_'' @ uuid" by (cases rule: finish_federated_cases) auto
    moreover from new(3) assms(2) okn have "pu_role (lr_user l) = ''user''"
      by (cases rule: finish_federated_cases) (auto simp: federated_user_def)
    ultimately show ?thesis
      using assms(4) name_not_taken [OF new(2)] by (simp add: new_account_def)
  qed
qed


theorem sign_in_needs_current_password_witness:
  "\<exists>u. bt_get (auth_users (sys_doc example_begun)) ''usr_1'' = Some u \<and> verify_password example_libs ''pw'' (au_password_hash u)"
proof -
  have "pu_id (lr_user example_result) = ''usr_1''" by (simp add: public_user_of_def example_result_def example_user_def)
  with sign_in_needs_current_password [OF example_begins example_pending example_outcome] show ?thesis by auto
qed

lemma example_names:
  "\<not> eq_ignore_ascii_case ''root'' ''new''" "\<not> eq_ignore_ascii_case ''r@x'' ''n@x''" "\<not> ''usr_2'' < ''usr_1''"
  by code_simp+

lemma example_provision:
  "\<exists>table' cell' l. pu_id (lr_user l) = ''usr_2'' \<and>
     federated_provision example_libs example_cfg NoFault 5 (''a'', ''b'') ''2'' ''h'' (''https://idp'', ''7'', ''new'', ''n@x'')
       (sys_table example_start) (sys_cell example_start) = (table', cell', Inr l)"
  using example_names
  by (simp add: federated_provision_def bound_user_id_def holds_identity_def name_taken_def finish_federated_login_locked_def
      federated_user_def prune_expired_sessions_def sign_in_def open_session_def save_or_restore_locked_def save_or_restore_def cas_defs
      i64_limit_def bt_values_def bt_retain_def bt_update_def bt_get_def example_start_def example_user_def public_user_of_def Let_def)


section \<open>Backups\<close>

lemma lower_char_fixed: "\<not> is_alpha x \<Longrightarrow> lower_char c = x \<longleftrightarrow> c = x"
proof
  assume x: "\<not> is_alpha x" and c: "lower_char c = x"
  show "c = x"
  proof (cases "is_upper c")
    case True
    then have r: "65 \<le> (of_char c :: nat)" "(of_char c :: nat) \<le> 90" by (auto simp: char_class_defs)
    with True c have "(of_char x :: nat) = of_char c + 32" by (auto simp: lower_char_def)
    with r x show ?thesis by (simp add: char_class_defs)
  qed (use c in \<open>simp add: lower_char_def\<close>)
qed (auto simp: lower_char_def is_alpha_def)

lemma whitespace_no_letters: "w \<in> set whitespace_encodings \<Longrightarrow> \<forall>c \<in> set w. \<not> is_alpha c"
  by (auto simp: whitespace_encodings_def char_class_defs)

lemma prefix_lowercase: "\<forall>c \<in> set w. \<not> is_alpha c \<Longrightarrow> prefix w (map lower_char s) \<longleftrightarrow> prefix w s"
proof (induction w arbitrary: s)
  case (Cons c w)
  show ?case
  proof (cases s)
    case s: (Cons a t)
    have "c = lower_char a \<longleftrightarrow> c = a" using lower_char_fixed [of c a] Cons.prems by auto
    with Cons.IH [of t] Cons.prems s show ?thesis by simp
  qed simp
qed simp

lemma strip_leading_lowercase:
  "(\<forall>w \<in> set ws. \<forall>c \<in> set w. \<not> is_alpha c) \<Longrightarrow> strip_leading ws (map lower_char s) = map lower_char (strip_leading ws s)"
proof (induction ws s rule: strip_leading.induct)
  case (1 ws s)
  have same: "find (\<lambda>w. w \<noteq> [] \<and> starts_with w (map lower_char s)) ws = find (\<lambda>w. w \<noteq> [] \<and> starts_with w s) ws"
    using 1(2) by (intro find_cong refl) (simp add: starts_with_iff_prefix prefix_lowercase)
  show ?case
  proof (cases "find (\<lambda>w. w \<noteq> [] \<and> starts_with w s) ws")
    case None
    then show ?thesis by (simp add: strip_leading.simps [of ws s] strip_leading.simps [of ws "map lower_char s"] same)
  next
    case (Some w)
    with 1 show ?thesis
      by (simp add: strip_leading.simps [of ws s] strip_leading.simps [of ws "map lower_char s"] same drop_map)
  qed
qed

lemma trim_lowercase: "trim (to_ascii_lowercase s) = to_ascii_lowercase (trim s)"
  using whitespace_no_letters
  by (simp add: trim_def trim_start_def trim_end_def to_ascii_lowercase_def strip_leading_lowercase rev_map)

lemma same_name_trimmed:
  "same_name u v \<Longrightarrow> to_ascii_lowercase (trim (au_username u)) = to_ascii_lowercase (trim (au_username v))"
  unfolding trim_lowercase [symmetric] by (simp add: same_name_def eq_ignore_ascii_case_def)

text \<open>What the check has seen of a document, and the accounts read so far.\<close>

definition trimmed_identities :: "admin_user \<Rightarrow> (string \<times> string) set" where
  "trimmed_identities u = (\<lambda>x. (trim (fi_issuer x), trim (fi_subject x))) ` set (au_federated_identities u)"

definition backup_seen :: "accounts \<Rightarrow> string set \<Rightarrow> string set \<Rightarrow> (string \<times> string) set \<Rightarrow> bool" where
  "backup_seen users ids names identities \<longleftrightarrow>
     bt_wf users \<and> accounts_apart users
     \<and> (\<forall>k u. bt_get users k = Some u \<longrightarrow> account_ok k u \<and> k \<in> ids
          \<and> to_ascii_lowercase (trim (au_username u)) \<in> names \<and> trimmed_identities u \<subseteq> identities)"

lemma backup_identities_seen:
  "backup_identities seen xs = Inr seen' \<Longrightarrow>
   seen \<subseteq> seen' \<and> (\<forall>x \<in> set xs. (trim (fi_issuer x), trim (fi_subject x)) \<in> seen' - seen)"
  by (induction xs arbitrary: seen)
    (fastforce simp: result_iffs validate_federated_identifier_def Let_def split: if_splits)+

lemma backup_user_seen:
  assumes seen: "backup_seen users ids names identities"
    and new: "au_id u \<notin> ids" "to_ascii_lowercase (trim (au_username u)) \<notin> names" "account_ok (au_id u) u"
    and idents: "backup_identities identities (au_federated_identities u) = Inr identities'"
  shows "backup_seen (bt_insert (au_id u) u users) (insert (au_id u) ids)
    (insert (to_ascii_lowercase (trim (au_username u))) names) identities'"
proof -
  note b = backup_identities_seen [OF idents]
  have "\<not> same_name u v \<and> \<not> share_identity u v" if "bt_get users k = Some v" for k v
  proof -
    have "trimmed_identities u \<inter> trimmed_identities v = {}"
      using seen that b unfolding backup_seen_def trimmed_identities_def by fastforce
    then have "\<not> share_identity u v" by (auto simp: share_identity_def trimmed_identities_def)
    with seen that new(2) same_name_trimmed [of u v] show ?thesis by (auto simp: backup_seen_def)
  qed
  then have "accounts_apart (bt_insert (au_id u) u users)"
    using seen by (intro accounts_apart_insert) (auto simp: backup_seen_def)
  moreover have "trimmed_identities u \<subseteq> identities'" using b by (auto simp: trimmed_identities_def)
  moreover have "bt_get users k = Some v \<Longrightarrow> trimmed_identities v \<subseteq> identities'" for k v
    using seen b unfolding backup_seen_def by blast
  ultimately show ?thesis using seen new(3) by (simp add: backup_seen_def)
qed

lemma backup_users_ok:
  "backup_users libs ids names identities n users = Inr n' \<Longrightarrow> backup_seen m ids names identities \<Longrightarrow>
   \<exists>ids' names' identities'. backup_seen (foldl (\<lambda>m user. bt_insert (au_id user) user m) m users) ids' names' identities'
     \<and> (\<forall>k. k \<in> ids \<longrightarrow> bt_get (foldl (\<lambda>m user. bt_insert (au_id user) user m) m users) k = bt_get m k)
     \<and> (n < n' \<longrightarrow> (\<exists>k u. bt_get (foldl (\<lambda>m user. bt_insert (au_id user) user m) m users) k = Some u \<and> is_active_admin u))"
proof (induction users arbitrary: ids names identities n m)
  case (Cons u users)
  let ?m = "bt_insert (au_id u) u m" and ?n = "if is_active_admin u then n + 1 else n"
  obtain identities' where u: "au_id u \<notin> ids" "to_ascii_lowercase (trim (au_username u)) \<notin> names"
      "au_role u \<in> {''admin'', ''user'', ''viewer''}" "au_status u \<in> {''active'', ''disabled'', ''suspended''}"
      "backup_identities identities (au_federated_identities u) = Inr identities'"
    and rest: "backup_users libs (insert (au_id u) ids) (insert (to_ascii_lowercase (trim (au_username u))) names) identities' ?n users = Inr n'"
    using Cons.prems(1)
    by (auto simp: result_iffs normalize_username_def validate_role_def validate_status_def Let_def split: if_splits)
  have "backup_seen ?m (insert (au_id u) ids) (insert (to_ascii_lowercase (trim (au_username u))) names) identities'"
    using Cons.prems(2) u by (intro backup_user_seen) (simp_all add: account_ok_def)
  from Cons.IH [OF rest this] obtain ids' names' ident' where
      seen: "backup_seen (foldl (\<lambda>m user. bt_insert (au_id user) user m) ?m users) ids' names' ident'"
    and kept: "\<forall>k. k \<in> insert (au_id u) ids \<longrightarrow> bt_get (foldl (\<lambda>m user. bt_insert (au_id user) user m) ?m users) k = bt_get ?m k"
    and admin: "?n < n' \<longrightarrow> (\<exists>k u'. bt_get (foldl (\<lambda>m user. bt_insert (au_id user) user m) ?m users) k = Some u' \<and> is_active_admin u')"
    by blast
  have "n < n' \<longrightarrow> (\<exists>k u'. bt_get (foldl (\<lambda>m user. bt_insert (au_id user) user m) ?m users) k = Some u' \<and> is_active_admin u')"
  proof (cases "is_active_admin u")
    case True
    then show ?thesis using kept by (intro impI exI [of _ "au_id u"] exI [of _ u]) simp
  qed (use admin in simp)
  then show ?case using seen kept u(1) by (intro exI [of _ ids'] exI [of _ names'] exI [of _ ident']) auto
qed auto

text \<open>A document with users that passes the check restores accounts that keep the invariant.\<close>

lemma backup_document_accounts:
  assumes "validate_backup_document libs from_value value = Inr ()" "from_value value = Inr users" "users \<noteq> []"
  shows "accounts_ok (collect_users users)"
proof -
  obtain n where n: "backup_users libs {} {} {} 0 users = Inr n" "n \<noteq> 0"
    using assms by (auto simp: validate_backup_document_def result_iffs split: if_splits)
  have "backup_seen [] {} {} {}" by (simp add: backup_seen_def accounts_apart_def)
  from backup_users_ok [OF n(1) this] n(2) show ?thesis
    by (auto simp: collect_users_def collect_by_def accounts_ok_def backup_seen_def)
qed

end
