(* ===== verification/Auth_Lockout.thy ===== *)
theory Auth_Lockout
  imports Auth_Login
begin

text \<open>
  How many guesses the lockout of \<^verbatim>\<open>src/auth.rs\<close> leaves: the records of failed attempts over a
  sequence of sign-ins, with any change of accounts and sessions between them.
\<close>

section \<open>Sequences of sign-ins\<close>

text \<open>Between two sign-ins other operations leave the accounts and sessions in some state.\<close>

datatype console_call =
    SignIn u64 login_input fault "string \<times> string"
  | Between accounts "(string, admin_session) btree"

definition password_compared :: "u64 \<Rightarrow> string \<Rightarrow> auth_inner \<Rightarrow> bool" where
  "password_compared now username inner \<longleftrightarrow> is_ok (snd (login_candidate now username inner))"

text \<open>The guesses of a run: name as given, time, and whether the password was right.\<close>

fun guesses :: "auth_libs \<Rightarrow> auth_config \<Rightarrow> console_call list \<Rightarrow> auth_table \<Rightarrow> auth_cell \<Rightarrow> (string \<times> u64 \<times> bool) list" where
  "guesses libs cfg [] table cell = []"
| "guesses libs cfg (Between users sessions # calls) table cell =
     guesses libs cfg calls table (cell\<lparr> cell_doc := (cell_doc cell)\<lparr> auth_users := users, auth_sessions := sessions \<rparr> \<rparr>)"
| "guesses libs cfg (SignIn now input fault uuids # calls) table cell =
     (let (table', cell', r) = login libs cfg fault now uuids input table cell
      in (case login_username input of
            Inl _ \<Rightarrow> []
          | Inr username \<Rightarrow>
              if password_compared now username (cell_doc cell) then [(username, now, r \<noteq> Inl Auth)] else [])
         @ guesses libs cfg calls table' cell')"

fun call_time :: "console_call \<Rightarrow> u64 list" where
  "call_time (SignIn now input fault uuids) = [now]"
| "call_time (Between users sessions) = []"

fun call_name :: "console_call \<Rightarrow> string set" where
  "call_name (SignIn now input fault uuids) = (case login_username input of Inl _ \<Rightarrow> {} | Inr username \<Rightarrow> {username})"
| "call_name (Between users sessions) = {}"

section \<open>One sign-in and the records\<close>

lemma cas_not_auth: "compare_and_swap_value fault table ns expected f = (t, Inl e) \<Longrightarrow> e \<noteq> Auth"
  by (cases fault) (auto simp: cas_defs state_conflict_def split: if_splits option.splits)

lemma save_attempts:
  assumes "save_or_restore_locked fault table previous inner = (t, c, r)" "auth_attempts (cell_doc previous) = a" "auth_attempts inner = a"
  shows "auth_attempts (cell_doc c) = a \<and> r \<noteq> Inl Auth"
proof -
  obtain t0 r0 where cas: "compare_and_swap_value fault table ''auth'' (cell_revision previous) (auth_file inner) = (t0, r0)"
    by force
  with assms show ?thesis
    by (cases r0) (auto simp: save_or_restore_locked_def save_or_restore_def dest: cas_not_auth)
qed

lemma sign_in_attempts:
  assumes "sign_in libs cfg fault gone now uuids k table previous inner = (t, c, r)"
    "auth_attempts (cell_doc previous) = a" "auth_attempts inner = a"
  shows "auth_attempts (cell_doc c) = a \<and> r \<noteq> Inl Auth"
proof -
  let ?inner = "open_session libs cfg now (new_session_token uuids) k inner"
  obtain t0 c0 r0 where sv: "save_or_restore_locked fault table previous ?inner = (t0, c0, r0)" by (rule prod_cases3)
  have "auth_attempts ?inner = a" using assms(3) by (simp add: open_session_def)
  from save_attempts [OF sv assms(2) this] assms(1) sv show ?thesis
    by (cases r0; cases "bt_get (auth_users (cell_doc c0)) k") (auto simp: sign_in_def Let_def)
qed

lemma prune_attempts [simp]: "auth_attempts (prune_expired_sessions now inner) = auth_attempts inner"
  by (simp add: prune_expired_sessions_def)

lemma login_outcome_attempts:
  assumes "login_outcome libs cfg fault now uuids username verified candidate table cell = (t, c, r)"
    and "\<not> is_locked (auth_attempts (cell_doc cell)) username now"
  shows "auth_attempts (cell_doc c) =
    (if r = Inl Auth then record_failed_login libs username now (auth_attempts (cell_doc cell))
     else bt_remove username (auth_attempts (cell_doc cell)))"
proof -
  let ?inner = "prune_expired_sessions now (cell_doc cell)"
  let ?previous = "?inner\<lparr> auth_attempts := bt_remove username (auth_attempts ?inner) \<rparr>"
  consider (failed) "c = cell\<lparr> cell_doc := login_failed libs username now ?inner \<rparr>" "r = Inl Auth"
    | (right) k where "sign_in libs cfg fault ''admin user disappeared during login'' now uuids k table
         (cell\<lparr> cell_doc := ?previous \<rparr>) ?previous = (t, c, r)"
    using assms by (auto simp: login_outcome_def Let_def split: option.splits if_splits)
  then show ?thesis
  proof cases
    case failed
    then show ?thesis by (simp add: login_failed_def)
  next
    case (right k)
    from sign_in_attempts [OF right refl] show ?thesis by simp
  qed
qed

lemma login_attempts:
  assumes "login libs cfg fault now uuids input table cell = (t, c, r)" and "login_username input = Inr username"
  defines "a \<equiv> prune_login_attempts now (auth_attempts (cell_doc cell))"
  shows "password_compared now username (cell_doc cell) = (\<not> is_locked a username now)"
    and "auth_attempts (cell_doc c) =
      (if is_locked a username now then a
       else if r = Inl Auth then record_failed_login libs username now a else bt_remove username a)"
proof -
  let ?inner = "(prune_expired_sessions now (cell_doc cell))\<lparr> auth_attempts := a \<rparr>"
  let ?c = "find (\<lambda>(_, user). eq_ignore_ascii_case (au_username user) username) (auth_users (cell_doc cell))"
  have cand: "login_candidate now username (cell_doc cell) = (?inner, if is_locked a username now then Inl Auth else Inr ?c)"
    by (simp add: login_candidate_def Let_def a_def)
  then show "password_compared now username (cell_doc cell) = (\<not> is_locked a username now)"
    by (simp add: password_compared_def)
  show "auth_attempts (cell_doc c) = (if is_locked a username now then a
       else if r = Inl Auth then record_failed_login libs username now a else bt_remove username a)"
  proof (cases "is_locked a username now")
    case True
    with assms(1,2) cand show ?thesis by (auto simp: login_def)
  next
    case False
    then have "login_outcome libs cfg fault now uuids username (login_verified libs (li_password input) ?c) ?c table
        (cell\<lparr> cell_doc := ?inner \<rparr>) = (t, c, r)"
      using assms(1,2) cand by (simp add: login_def)
    from login_outcome_attempts [OF this] False show ?thesis by simp
  qed
qed

section \<open>The record of one name\<close>

text \<open>
  \<open>fails\<close> are the times at which a password was compared for a name, newest first.  The first
  \<open>la_failed_count\<close> of them are counted; the others lie a lockout before the counted ones, and before
  the present or the end of the lock.
\<close>

definition spaced :: "login_attempt option \<Rightarrow> u64 list \<Rightarrow> u64 \<Rightarrow> bool" where
  "spaced record fails clock \<longleftrightarrow>
     (case record of
        None \<Rightarrow> \<forall>t \<in> set fails. t + 900000 \<le> clock
      | Some r \<Rightarrow>
          la_failed_count r < 5 \<and> la_last_attempt_ms r \<le> clock \<and> (\<forall>t \<in> set fails. t \<le> la_last_attempt_ms r)
          \<and> (\<forall>t' \<in> set (drop (la_failed_count r) fails).
               t' + 900000 \<le> max (la_locked_until_ms r) clock \<and> (\<forall>t \<in> set (take (la_failed_count r) fails). t' + 900000 \<le> t)))"

definition guesses_within :: "u64 \<Rightarrow> u64 list \<Rightarrow> nat" where
  "guesses_within a fails = length (filter (\<lambda>t. a \<le> t \<and> t < a + 900000) fails)"

lemma spaced_later: "spaced record fails clock \<Longrightarrow> clock \<le> now \<Longrightarrow> spaced record fails now"
  by (fastforce simp: spaced_def le_max_iff_disj split: option.splits)

lemma spaced_prune:
  assumes "spaced (bt_get attempts u) fails now" "bt_wf attempts" "now + LOGIN_ATTEMPT_RETENTION_MS \<le> u64_max"
  shows "spaced (bt_get (prune_login_attempts now attempts) u) fails now"
proof (cases "bt_get attempts u")
  case None
  with assms show ?thesis by (simp add: prune_login_attempts_def bt_get_retain)
next
  case (Some r)
  have last: "la_last_attempt_ms r \<le> now" "\<forall>t \<in> set fails. t \<le> la_last_attempt_ms r"
    using assms(1) Some by (simp_all add: spaced_def)
  then have "sat_add (la_last_attempt_ms r) LOGIN_ATTEMPT_RETENTION_MS = la_last_attempt_ms r + LOGIN_ATTEMPT_RETENTION_MS"
    using assms(3) by (intro sat_add_exact) simp
  moreover have "t + 900000 \<le> now" if "t \<in> set fails" "la_last_attempt_ms r + LOGIN_ATTEMPT_RETENTION_MS \<le> now" for t
    using last that by (force simp: LOGIN_ATTEMPT_RETENTION_MS_def)
  ultimately show ?thesis
    using assms(1,2) Some by (auto simp: prune_login_attempts_def bt_get_retain spaced_def [of None])
qed

lemma guesses_within_new:
  assumes c: "c < 5"
    and old: "\<forall>t' \<in> set (drop c fails). t' + 900000 \<le> now"
    and before: "guesses_within a fails \<le> 5"
  shows "guesses_within a (now # fails) \<le> 5"
proof (cases "a \<le> now \<and> now < a + 900000")
  case True
  let ?P = "\<lambda>t. a \<le> t \<and> t < a + 900000"
  have "filter ?P (drop c fails) = []"
    using old True by (force simp: filter_empty_conv)
  moreover have "filter ?P fails = filter ?P (take c fails) @ filter ?P (drop c fails)"
    by (simp flip: filter_append)
  ultimately have "filter ?P fails = filter ?P (take c fails)" by simp
  moreover have "length (filter ?P (take c fails)) \<le> c"
    by (rule le_trans [OF length_filter_le]) simp
  ultimately show ?thesis using c by (simp add: guesses_within_def)
next
  case False
  with before show ?thesis by (auto simp: guesses_within_def)
qed

lemma spaced_fail:
  assumes c: "la_failed_count r < 5" and now: "\<forall>t \<in> set fails. t \<le> now"
    and old: "\<forall>t' \<in> set (drop (la_failed_count r) fails). t' + 900000 \<le> now \<and> (\<forall>t \<in> set (take (la_failed_count r) fails). t' + 900000 \<le> t)"
    and bound: "now + 900000 \<le> u64_max"
  shows "spaced (Some (record_failed_attempt now r)) (now # fails) now"
proof -
  have up: "sat_add32 (la_failed_count r) (Suc 0) = Suc (la_failed_count r)" using c by (simp add: sat_add32_def u32_max_def)
  have lock: "sat_add now (sat_mul LOCKOUT_SECONDS 1000) = now + 900000"
    using bound by (simp add: sat_add_def sat_mul_def LOCKOUT_SECONDS_def u64_max_def)
  have "record_failed_attempt now r =
      (if la_failed_count r = 4 then r\<lparr> la_last_attempt_ms := now, la_locked_until_ms := now + 900000, la_failed_count := 0 \<rparr>
       else r\<lparr> la_last_attempt_ms := now, la_failed_count := Suc (la_failed_count r) \<rparr>)"
    using c by (simp add: record_failed_attempt_def Let_def up lock MAX_FAILED_ATTEMPTS_def)
  with c now old show ?thesis by (auto simp: spaced_def)
qed

text \<open>A failure under one name, with room for its record, touches no other.\<close>

lemma record_failed_get:
  assumes "bt_get attempts username \<noteq> None \<or> length attempts < MAX_LOGIN_ATTEMPT_RECORDS"
  shows "bt_get (record_failed_login libs username now attempts) u =
    (if u = username
     then Some (record_failed_attempt now (case bt_get attempts username of Some r \<Rightarrow> r | None \<Rightarrow> no_attempt))
     else bt_get attempts u)"
    and "bt_wf attempts \<Longrightarrow> bt_wf (record_failed_login libs username now attempts)"
    and "fst ` set (record_failed_login libs username now attempts) = insert username (fst ` set attempts)"
proof -
  have eq: "record_failed_login libs username now attempts =
      bt_insert username (record_failed_attempt now (case bt_get attempts username of Some r \<Rightarrow> r | None \<Rightarrow> no_attempt)) attempts"
    using assms by (auto simp: record_failed_login_def)
  show "bt_get (record_failed_login libs username now attempts) u =
    (if u = username
     then Some (record_failed_attempt now (case bt_get attempts username of Some r \<Rightarrow> r | None \<Rightarrow> no_attempt))
     else bt_get attempts u)"
    by (simp add: eq)
  show "bt_wf attempts \<Longrightarrow> bt_wf (record_failed_login libs username now attempts)" by (simp add: eq)
  show "fst ` set (record_failed_login libs username now attempts) = insert username (fst ` set attempts)"
    unfolding eq using bt_keys_insert by (metis list.set_map)
qed

lemma room_for_record:
  assumes "bt_wf attempts" "fst ` set attempts \<subseteq> names" "username \<in> names" "finite names" "card names \<le> MAX_LOGIN_ATTEMPT_RECORDS"
  shows "bt_get attempts username \<noteq> None \<or> length attempts < MAX_LOGIN_ATTEMPT_RECORDS"
proof (cases "username \<in> fst ` set attempts")
  case True
  then have "map_of attempts username \<noteq> None" by (simp add: map_of_eq_None_iff)
  then show ?thesis by (simp add: bt_get_def)
next
  case False
  have "length attempts = card (fst ` set attempts)"
    using distinct_card [OF bt_wf_distinct [OF assms(1)]] by simp
  moreover have "card (insert username (fst ` set attempts)) \<le> card names" using assms(2-4) by (intro card_mono) auto
  ultimately show ?thesis using False assms(5) by simp
qed

section \<open>The bound\<close>

definition times_for :: "string \<Rightarrow> (string \<times> u64 \<times> bool) list \<Rightarrow> u64 list" where
  "times_for u gs = map (\<lambda>(_, t, _). t) (filter (\<lambda>(name, _, _). name = u) gs)"

definition lockout_ok :: "string \<Rightarrow> string set \<Rightarrow> attempts \<Rightarrow> u64 list \<Rightarrow> u64 \<Rightarrow> bool" where
  "lockout_ok u names attempts fails clock \<longleftrightarrow>
     bt_wf attempts \<and> fst ` set attempts \<subseteq> names \<and> spaced (bt_get attempts u) fails clock
     \<and> (\<forall>t \<in> set fails. t \<le> clock) \<and> (\<forall>a. guesses_within a fails \<le> 5)"

lemma lockout_ok_prune:
  assumes "lockout_ok u names attempts fails clock" "clock \<le> now" "now + LOGIN_ATTEMPT_RETENTION_MS \<le> u64_max"
  shows "lockout_ok u names (prune_login_attempts now attempts) fails now"
proof -
  have "spaced (bt_get (prune_login_attempts now attempts) u) fails now"
    using assms by (intro spaced_prune) (auto simp: lockout_ok_def intro: spaced_later)
  with assms show ?thesis
    by (fastforce simp: lockout_ok_def prune_login_attempts_def bt_retain_def bt_wf_retain [unfolded bt_retain_def])
qed

lemma lockout_ok_failed:
  assumes ok: "lockout_ok u names attempts fails now" and names: "username \<in> names" "finite names" "card names \<le> MAX_LOGIN_ATTEMPT_RECORDS"
    and unlocked: "\<not> is_locked attempts username now" and bound: "now + LOGIN_ATTEMPT_RETENTION_MS \<le> u64_max"
  shows "lockout_ok u names (record_failed_login libs username now attempts) (if u = username then now # fails else fails) now"
proof -
  have room: "bt_get attempts username \<noteq> None \<or> length attempts < MAX_LOGIN_ATTEMPT_RECORDS"
    using ok names by (intro room_for_record) (auto simp: lockout_ok_def)
  note rec = record_failed_get [OF room, of libs now]
  have base: "bt_wf (record_failed_login libs username now attempts)" "fst ` set (record_failed_login libs username now attempts) \<subseteq> names"
    using rec ok names(1) by (auto simp: lockout_ok_def)
  show ?thesis
  proof (cases "u = username")
    case False
    with ok base rec(1) [of u] show ?thesis by (simp add: lockout_ok_def)
  next
    case True
    let ?r = "case bt_get attempts username of Some r \<Rightarrow> r | None \<Rightarrow> no_attempt"
    have c: "la_failed_count ?r < 5" and old: "\<forall>t' \<in> set (drop (la_failed_count ?r) fails). t' + 900000 \<le> now
        \<and> (\<forall>t \<in> set (take (la_failed_count ?r) fails). t' + 900000 \<le> t)"
      using ok unlocked True
      by (auto simp: lockout_ok_def spaced_def is_locked_def no_attempt_def split: option.splits)
    have le: "\<forall>t \<in> set fails. t \<le> now" using ok by (simp add: lockout_ok_def)
    have "spaced (Some (record_failed_attempt now ?r)) (now # fails) now"
      using bound by (intro spaced_fail [OF c le old]) (simp add: LOGIN_ATTEMPT_RETENTION_MS_def)
    moreover have "guesses_within a (now # fails) \<le> 5" for a
      using old ok by (intro guesses_within_new [OF c]) (auto simp: lockout_ok_def)
    ultimately show ?thesis using base rec(1) [of u] le True by (simp add: lockout_ok_def)
  qed
qed

lemma lockout_ok_removed:
  assumes "lockout_ok u names attempts fails now" "u \<noteq> username"
  shows "lockout_ok u names (bt_remove username attempts) fails now"
proof -
  have "set (bt_remove username attempts) \<subseteq> set attempts" by (auto simp: bt_remove_def bt_retain_def)
  then have "fst ` set (bt_remove username attempts) \<subseteq> fst ` set attempts" by blast
  with assms show ?thesis by (auto simp: lockout_ok_def)
qed

lemma lockout_ok_login:
  assumes ok: "lockout_ok u names (auth_attempts (cell_doc cell)) fails clock"
    and login: "login libs cfg fault now uuids input table cell = (t, c, r)" "login_username input = Inr username"
    and now: "clock \<le> now" "now + LOGIN_ATTEMPT_RETENTION_MS \<le> u64_max"
    and names: "username \<in> names" "finite names" "card names \<le> MAX_LOGIN_ATTEMPT_RECORDS"
    and wrong: "u = username \<Longrightarrow> password_compared now username (cell_doc cell) \<Longrightarrow> r = Inl Auth"
  shows "lockout_ok u names (auth_attempts (cell_doc c))
    (if u = username \<and> password_compared now username (cell_doc cell) then now # fails else fails) now"
proof -
  let ?a = "prune_login_attempts now (auth_attempts (cell_doc cell))"
  note eff = login_attempts [OF login]
  have pruned: "lockout_ok u names ?a fails now" using lockout_ok_prune [OF ok now] .
  consider (locked) "is_locked ?a username now" "auth_attempts (cell_doc c) = ?a"
    | (failed) "\<not> is_locked ?a username now" "auth_attempts (cell_doc c) = record_failed_login libs username now ?a"
    | (right) "\<not> is_locked ?a username now" "r \<noteq> Inl Auth" "auth_attempts (cell_doc c) = bt_remove username ?a"
    using eff(2) by metis
  then show ?thesis
  proof cases
    case locked
    with pruned eff(1) show ?thesis by simp
  next
    case failed
    with lockout_ok_failed [OF pruned names failed(1) now(2)] eff(1) show ?thesis by simp
  next
    case right
    with wrong eff(1) have "u \<noteq> username" by auto
    with lockout_ok_removed [OF pruned] right show ?thesis by simp
  qed
qed

lemma lockout_run:
  assumes "finite names" "card names \<le> MAX_LOGIN_ATTEMPT_RECORDS"
  shows "sorted (concat (map call_time calls)) \<Longrightarrow>
    (\<forall>t \<in> set (concat (map call_time calls)). clock \<le> t \<and> t + LOGIN_ATTEMPT_RETENTION_MS \<le> u64_max) \<Longrightarrow>
    (\<Union>c \<in> set calls. call_name c) \<subseteq> names \<Longrightarrow>
    lockout_ok u names (auth_attempts (cell_doc cell)) fails clock \<Longrightarrow>
    (\<forall>t. (u, t, True) \<notin> set (guesses libs cfg calls table cell)) \<Longrightarrow>
    \<forall>a. guesses_within a (rev (times_for u (guesses libs cfg calls table cell)) @ fails) \<le> 5"
proof (induction calls arbitrary: table cell fails clock)
  case Nil
  then show ?case by (simp add: times_for_def lockout_ok_def)
next
  case (Cons x calls)
  show ?case
  proof (cases x)
    case (Between users sessions)
    with Cons.prems Cons.IH [of clock] show ?thesis by simp
  next
    case (SignIn now input fault uuids)
    obtain t c r where l: "login libs cfg fault now uuids input table cell = (t, c, r)" by (rule prod_cases3)
    have now: "clock \<le> now" "now + LOGIN_ATTEMPT_RETENTION_MS \<le> u64_max" using Cons.prems(2) by (simp_all add: SignIn)
    have later: "sorted (concat (map call_time calls))"
        "\<forall>t \<in> set (concat (map call_time calls)). now \<le> t \<and> t + LOGIN_ATTEMPT_RETENTION_MS \<le> u64_max"
      using Cons.prems(1,2) by (auto simp: SignIn)
    have names: "(\<Union>c \<in> set calls. call_name c) \<subseteq> names" using Cons.prems(3) by simp
    have right: "\<forall>t'. (u, t', True) \<notin> set (guesses libs cfg calls t c)" using Cons.prems(5) by (simp add: SignIn l)
    show ?thesis
    proof (cases "login_username input")
      case (Inl e)
      then have "t = table" "c = cell" using l by (simp_all add: login_def)
      with Cons.IH [of clock] Cons.prems later names l Inl show ?thesis by (fastforce simp: SignIn)
    next
      case (Inr username)
      have "u = username \<Longrightarrow> password_compared now username (cell_doc cell) \<Longrightarrow> r = Inl Auth"
        using Cons.prems(5) by (auto simp: SignIn l Inr)
      moreover have "username \<in> names" using Cons.prems(3) Inr by (simp add: SignIn)
      ultimately have "lockout_ok u names (auth_attempts (cell_doc c))
          (if u = username \<and> password_compared now username (cell_doc cell) then now # fails else fails) now"
        using lockout_ok_login [OF Cons.prems(4) l Inr now _ assms] by blast
      from Cons.IH [OF later names this right] show ?thesis
        by (auto simp: SignIn l Inr times_for_def split: if_splits)
    qed
  qed
qed


lemma login_without_accounts:
  assumes "auth_users (cell_doc cell) = []" "login_username input = Inr username"
  obtains c where "login libs cfg fault now uuids input table cell = (table, c, Inl Auth)" "auth_users (cell_doc c) = []"
  using assms
  by (cases "is_locked (prune_login_attempts now (auth_attempts (cell_doc cell))) username now")
    (auto simp: login_def login_candidate_def login_outcome_def login_failed_def Let_def)

lemma guesses_without_accounts:
  assumes "login_username input = Inr username"
  shows "auth_users (cell_doc cell) = [] \<Longrightarrow> (n, t, True) \<notin> set (guesses libs cfg (map (\<lambda>now. SignIn now input NoFault uuids) ts) table cell)"
proof (induction ts arbitrary: cell)
  case (Cons now ts)
  obtain c where "login libs cfg NoFault now uuids input table cell = (table, c, Inl Auth)" "auth_users (cell_doc c) = []"
    using login_without_accounts [OF Cons.prems assms] by blast
  with Cons.IH [of c] show ?case by (simp add: assms)
qed simp

definition empty_cell :: auth_cell where
  "empty_cell = \<lparr> cell_doc = loaded_inner [], cell_revision = 0, cell_degraded = False \<rparr>"


text \<open>
  The records are kept under the name as it was typed, while the account is found whatever the case:
  the lock of one spelling does not hold for another of the same account.
\<close>

lemma locked_spelling_has_twins:
  assumes "\<not> is_locked (prune_login_attempts now (auth_attempts inner)) twin now" and "eq_ignore_ascii_case twin username"
  shows "snd (login_candidate now twin inner) =
    Inr (find (\<lambda>(_, user). eq_ignore_ascii_case (au_username user) username) (auth_users inner))"
  using assms by (simp add: login_candidate_def Let_def eq_ignore_ascii_case_def)

end
