(* ===== verification/Console_Guard.thy ===== *)
theory Console_Guard
  imports Auth_Login Egress_Policy Governance
begin

text \<open>
  What stands before every handler of the console, \<^verbatim>\<open>src/routes.rs\<close>: the session and the role, and for
  writes the header and the origin that a page of another site cannot supply; and the gate for
  changes that need an approval.  Flags and lists of the environment are arguments.
\<close>

section \<open>Origins\<close>

text \<open>Reading an authority belongs to the \<open>http\<close> crate.\<close>

definition origin_authority :: "string \<Rightarrow> string option" where
  "origin_authority origin =
     Option.bind (case strip_prefix ''https://'' origin of Some a \<Rightarrow> Some a | None \<Rightarrow> strip_prefix ''http://'' origin)
       (\<lambda>authority. if authority = [] then None else Some authority)"

fun check_origins :: "(string \<Rightarrow> bool) \<Rightarrow> string list \<Rightarrow> unit result" where
  "check_origins is_authority [] = Inr ()"
| "check_origins is_authority (origin # origins) =
     and_then (ok_or (Config ''MODELPORT_ALLOWED_ORIGINS entries must be absolute http:// or https:// origins'') (origin_authority origin)) (\<lambda>authority.
     if list_ex (\<lambda>c. c \<in> {CHR ''/'', CHR ''?'', CHR ''#'', CHR 0x40}) authority \<or> \<not> is_authority authority
     then Inl (Config ''MODELPORT_ALLOWED_ORIGINS entries must contain only scheme, host, and optional port'')
     else check_origins is_authority origins)"

definition validate_allowed_origins :: "(string \<Rightarrow> bool) \<Rightarrow> string option \<Rightarrow> unit result" where
  "validate_allowed_origins is_authority value =
     (case Option.bind (map_option trim value) (\<lambda>v. if v = [] then None else Some v) of
        None \<Rightarrow> Inr ()
      | Some value \<Rightarrow> check_origins is_authority (map trim (split_on CHR '','' value)))"

definition host_from_origin :: "string \<Rightarrow> string option" where
  "host_from_origin value =
     (let value = trim value
      in Option.bind (case strip_prefix ''http://'' value of Some r \<Rightarrow> Some r | None \<Rightarrow> strip_prefix ''https://'' value)
           (\<lambda>without_scheme. case split_on CHR ''/'' without_scheme of
              [] \<Rightarrow> None
            | host # _ \<Rightarrow> if host = [] then None else Some host))"

definition hostname_from_authority :: "string \<Rightarrow> string option" where
  "hostname_from_authority authority =
     (let authority = trim authority
      in if authority = [] then None
         else case strip_prefix ''['' authority of
                Some rest \<Rightarrow> (case split_on CHR '']'' rest of [] \<Rightarrow> None | host # _ \<Rightarrow> if host = [] then None else Some host)
              | None \<Rightarrow> (case split_on CHR '':'' authority of [] \<Rightarrow> None | host # _ \<Rightarrow> if host = [] then None else Some host))"

definition is_loopback_hostname :: "string \<Rightarrow> bool" where
  "is_loopback_hostname hostname \<longleftrightarrow>
     (let hostname = trim_end_dots (trim_brackets hostname)
      in eq_ignore_ascii_case hostname ''localhost''
         \<or> (case parse_ip hostname of Some addr \<Rightarrow> is_loopback addr | None \<Rightarrow> False))"

definition console_host_matches :: "string \<Rightarrow> string \<Rightarrow> bool" where
  "console_host_matches request_host origin_host \<longleftrightarrow>
     eq_ignore_ascii_case request_host origin_host
     \<or> (case (hostname_from_authority request_host, hostname_from_authority origin_host) of
          (Some request_hostname, Some origin_hostname) \<Rightarrow>
            is_loopback_hostname request_hostname \<and> is_loopback_hostname origin_hostname
        | _ \<Rightarrow> False)"

definition request_origin :: "header_lines \<Rightarrow> string option" where
  "request_origin headers =
     (case header_text headers ''origin'' of Some o' \<Rightarrow> Some o' | None \<Rightarrow> header_text headers ''referer'')"

definition validate_admin_request_origin :: "string option \<Rightarrow> header_lines \<Rightarrow> unit result" where
  "validate_admin_request_origin allowed_origins headers =
     (case request_origin headers of
        None \<Rightarrow> Inr ()
      | Some origin \<Rightarrow>
          (case host_from_origin origin of
             None \<Rightarrow> Inl (Forbidden ''invalid console request origin'')
           | Some origin_host \<Rightarrow>
               let same_origin = (case header_text headers ''host'' of
                     Some host \<Rightarrow> console_host_matches host origin_host | None \<Rightarrow> False);
                   allowed_origin = (case allowed_origins of
                     Some value \<Rightarrow> list_ex (\<lambda>allowed. eq_ignore_ascii_case allowed origin) (map trim (split_on CHR '','' value))
                   | None \<Rightarrow> False)
               in if same_origin \<or> allowed_origin then Inr ()
                  else Inl (Forbidden ''console request origin is not allowed'')))"

definition csrf_ok :: "header_lines \<Rightarrow> bool" where
  "csrf_ok headers \<longleftrightarrow>
     (case header_text headers ''x-modelport-csrf'' of Some v \<Rightarrow> v \<in> {''1'', ''true'', ''TRUE''} | None \<Rightarrow> False)"

definition require_console_write_protection :: "bool \<Rightarrow> string option \<Rightarrow> header_lines \<Rightarrow> unit result" where
  "require_console_write_protection csrf_disabled allowed_origins headers =
     (if csrf_disabled then Inr ()
      else if \<not> csrf_ok headers
      then Inl (Forbidden ''CSRF protection header is required for console write requests'')
      else validate_admin_request_origin allowed_origins headers)"

section \<open>Roles\<close>

definition require_console_user :: "auth_libs \<Rightarrow> u64 \<Rightarrow> header_lines \<Rightarrow> auth_inner \<Rightarrow> public_user result" where
  "require_console_user libs now headers inner = snd (require_session libs now headers inner)"

definition require_admin_user :: "auth_libs \<Rightarrow> u64 \<Rightarrow> header_lines \<Rightarrow> auth_inner \<Rightarrow> public_user result" where
  "require_admin_user libs now headers inner =
     and_then (snd (require_session libs now headers inner)) (\<lambda>user.
       if pu_role user = ''admin'' then Inr user else Inl (Forbidden ''admin role required''))"

definition require_admin_write_user ::
  "auth_libs \<Rightarrow> bool \<Rightarrow> string option \<Rightarrow> u64 \<Rightarrow> header_lines \<Rightarrow> auth_inner \<Rightarrow> public_user result" where
  "require_admin_write_user libs csrf_disabled allowed_origins now headers inner =
     and_then (require_console_write_protection csrf_disabled allowed_origins headers) (\<lambda>_.
     require_admin_user libs now headers inner)"

definition require_api_key_writer :: "auth_libs \<Rightarrow> u64 \<Rightarrow> header_lines \<Rightarrow> auth_inner \<Rightarrow> public_user result" where
  "require_api_key_writer libs now headers inner =
     and_then (snd (require_session libs now headers inner)) (\<lambda>user.
       if pu_role user \<in> {''admin'', ''user''} then Inr user else Inl (Forbidden ''API key write access required''))"

definition require_api_key_write_user ::
  "auth_libs \<Rightarrow> bool \<Rightarrow> string option \<Rightarrow> u64 \<Rightarrow> header_lines \<Rightarrow> auth_inner \<Rightarrow> public_user result" where
  "require_api_key_write_user libs csrf_disabled allowed_origins now headers inner =
     and_then (require_console_write_protection csrf_disabled allowed_origins headers) (\<lambda>_.
     require_api_key_writer libs now headers inner)"

section \<open>Approved changes\<close>

definition change_request_id :: "header_lines \<Rightarrow> string option" where
  "change_request_id headers =
     Option.bind (header_text headers ''x-modelport-change-request-id'') (\<lambda>v. let v = trim v in if v = [] then None else Some v)"

definition require_high_risk_change ::
  "(json \<Rightarrow> string result) \<Rightarrow> (string \<Rightarrow> string) \<Rightarrow> bool \<Rightarrow> header_lines \<Rightarrow> string \<Rightarrow> string \<Rightarrow> json \<Rightarrow>
   governance_document \<Rightarrow> string option result" where
  "require_high_risk_change to_vec sha256_hex require_dual_approval headers action target payload doc =
     (case change_request_id headers of
        None \<Rightarrow>
          if \<not> require_dual_approval then Inr None
          else Inl (Forbidden ''high-risk change requires x-modelport-change-request-id with two distinct approvals'')
      | Some request_id \<Rightarrow>
          and_then (verify_approved_change to_vec sha256_hex request_id action target payload doc) (\<lambda>_.
          Inr (Some request_id)))"

definition mark_high_risk_change_applied ::
  "fault \<Rightarrow> u64 \<Rightarrow> u64 \<Rightarrow> string option \<Rightarrow> governance_document state_table \<Rightarrow> governance_document cell \<Rightarrow>
   governance_document state_table \<times> governance_document cell \<times> unit result" where
  "mark_high_risk_change_applied fault now now' approval_id table cell =
     (case approval_id of
        None \<Rightarrow> (table, cell, Inr ())
      | Some approval_id \<Rightarrow>
          transact (\<lambda>d. d) ''governance'' fault (mark_change_applied_for_mode now now' approval_id True) table cell)"

section \<open>What a write shows\<close>

lemma host_of_request:
  assumes "validate_admin_request_origin allowed_origins headers = Inr ()" "request_origin headers = Some origin"
  shows "(\<exists>host origin_host. host_from_origin origin = Some origin_host \<and> header_text headers ''host'' = Some host
           \<and> console_host_matches host origin_host)
    \<or> (\<exists>value. allowed_origins = Some value \<and> (\<exists>allowed \<in> set (split_on CHR '','' value). eq_ignore_ascii_case (trim allowed) origin))"
  using assms by (auto simp: validate_admin_request_origin_def list_ex_iff Let_def split: option.splits if_splits)



end
