(* ===== verification/Spec2Isabelle.thy ===== *)
theory Spec2Isabelle
  imports Error_Audit Usage_Period Change_Control Local_Scheduler Stream_Lifecycle Pricing Provider_Pool Fidelity Stream_Content Client_Address Rate_Limiter
    Auth_Lockout Console_Guard
begin

text \<open>
  A verification development for ModelPort, the model gateway under \<^verbatim>\<open>src/\<close>.

  \<^bold>\<open>Layout.\<close>  \<open>Prelude\<close> models the parts of Rust and its standard library the sources use;
  each other theory models one component.
\<close>

end
